(* ===== verification/Prelude.thy ===== *)
theory Prelude
  imports Main "HOL-Library.Word"
begin

text \<open>
  Shared ground of the development: the machine types of the C code, the part of the C
  library the sources call (\<open>atoi\<close>, \<open>strtol\<close>, \<open>strchr\<close>, \<open>strtok\<close>, \<open>snprintf\<close>, the
  \<open>ctype\<close> classes), decimal and hexadecimal printing, and the generic lemmas about them.

  A C string is a \<^typ>\<open>string\<close> (a list of bytes) with the terminating NUL left out; where a
  buffer may hold a NUL before its end, \<open>cstr\<close> cuts it there as every \<open>str*\<close> function
  does.  \<open>int\<close> values are mathematical integers; a conversion to a 32-bit \<open>int\<close> in the C
  code is written with \<open>to_int32\<close>.
\<close>

named_theorems cdefs \<open>unfolding equations of the modelled operations\<close>
named_theorems wf_intros \<open>preservation of well-formedness\<close>

unbundle bit_operations_syntax

type_synonym u8 = "8 word"
type_synonym u32 = "32 word"
type_synonym u64 = "64 word"
type_synonym bytes = "u8 list"

section \<open>Machine integers\<close>

definition to_int32 :: "int \<Rightarrow> int" where
  "to_int32 x = (x + 2147483648) mod 4294967296 - 2147483648"

definition clamp64 :: "int \<Rightarrow> int" where
  "clamp64 x = (if x < -9223372036854775808 then -9223372036854775808
                else if x > 9223372036854775807 then 9223372036854775807 else x)"

text \<open>Division and remainder of C: truncation towards zero.\<close>

definition cdiv :: "int \<Rightarrow> int \<Rightarrow> int" where
  "cdiv a b = (if (a < 0) = (b < 0) then \<bar>a\<bar> div \<bar>b\<bar> else - (\<bar>a\<bar> div \<bar>b\<bar>))"

definition cmod :: "int \<Rightarrow> int \<Rightarrow> int" where
  "cmod a b = a - b * cdiv a b"

section \<open>Characters and C strings\<close>

definition byte_of_char :: "char \<Rightarrow> u8" where
  "byte_of_char c = word_of_nat (of_char c)"

definition char_of_byte :: "u8 \<Rightarrow> char" where
  "char_of_byte b = char_of (unat b)"

abbreviation code :: "char \<Rightarrow> nat" where
  "code c \<equiv> of_char c"

text \<open>Literals beyond ASCII are given by their UTF-8 bytes.\<close>

definition utf8 :: "nat list \<Rightarrow> string" where
  "utf8 bs = map char_of bs"

definition cstr :: "string \<Rightarrow> string" where
  "cstr s = takeWhile (\<lambda>c. code c \<noteq> 0) s"

definition c_isdigit :: "char \<Rightarrow> bool" where
  "c_isdigit c \<longleftrightarrow> 48 \<le> code c \<and> code c \<le> 57"

definition c_isupper :: "char \<Rightarrow> bool" where
  "c_isupper c \<longleftrightarrow> 65 \<le> code c \<and> code c \<le> 90"

definition c_islower :: "char \<Rightarrow> bool" where
  "c_islower c \<longleftrightarrow> 97 \<le> code c \<and> code c \<le> 122"

definition c_isxdigit :: "char \<Rightarrow> bool" where
  "c_isxdigit c \<longleftrightarrow> c_isdigit c \<or> (65 \<le> code c \<and> code c \<le> 70) \<or> (97 \<le> code c \<and> code c \<le> 102)"

definition c_isalnum :: "char \<Rightarrow> bool" where
  "c_isalnum c \<longleftrightarrow> c_isdigit c \<or> c_isupper c \<or> c_islower c"

definition c_isspace :: "char \<Rightarrow> bool" where
  "c_isspace c \<longleftrightarrow> code c = 32 \<or> (9 \<le> code c \<and> code c \<le> 13)"

definition digit_val :: "char \<Rightarrow> int" where
  "digit_val c = int (code c) - 48"

definition hex_val :: "char \<Rightarrow> int" where
  "hex_val c = (if c_isdigit c then int (code c) - 48
                else if 65 \<le> code c \<and> code c \<le> 70 then int (code c) - 55
                else int (code c) - 87)"

text \<open>\<open>strtol\<close>/\<open>atoi\<close>: white space, an optional sign, the longest run of digits.\<close>

definition dec_val :: "string \<Rightarrow> int" where
  "dec_val ds = foldl (\<lambda>v c. v * 10 + digit_val c) 0 ds"

definition hexs_val :: "string \<Rightarrow> int" where
  "hexs_val ds = foldl (\<lambda>v c. v * 16 + hex_val c) 0 ds"

definition split_sign :: "string \<Rightarrow> bool \<times> string" where
  "split_sign s = (case s of [] \<Rightarrow> (False, [])
     | c # r \<Rightarrow> if c = CHR ''-'' then (True, r) else if c = CHR ''+'' then (False, r) else (False, s))"

definition strtol10 :: "string \<Rightarrow> int" where
  "strtol10 s = (let (neg, r) = split_sign (dropWhile c_isspace s);
                     v = dec_val (takeWhile c_isdigit r)
                 in clamp64 (if neg then - v else v))"

definition atoi :: "string \<Rightarrow> int" where
  "atoi s = to_int32 (strtol10 s)"

definition strtol16 :: "string \<Rightarrow> int" where
  "strtol16 s = (let (neg, r) = split_sign (dropWhile c_isspace s);
                     r' = (case r of a # b # c # rest \<Rightarrow>
                              if a = CHR ''0'' \<and> (b = CHR ''x'' \<or> b = CHR ''X'') \<and> c_isxdigit c
                              then c # rest else r
                            | _ \<Rightarrow> r);
                     v = hexs_val (takeWhile c_isxdigit r')
                 in clamp64 (if neg then - v else v))"

text \<open>\<open>snprintf (buf, n, "%s", s)\<close> keeps \<open>n - 1\<close> bytes; \<open>strncpy (buf, s, n - 1)\<close> into a
  zeroed buffer of \<open>n\<close> bytes keeps the same.\<close>

definition snprintf_s :: "nat \<Rightarrow> string \<Rightarrow> string" where
  "snprintf_s n s = take (n - 1) s"

text \<open>\<open>strchr\<close>: what precedes the first occurrence, and what follows it.\<close>

definition before_chr :: "char \<Rightarrow> string \<Rightarrow> string" where
  "before_chr c s = takeWhile (\<lambda>x. x \<noteq> c) s"

definition after_chr :: "char \<Rightarrow> string \<Rightarrow> string option" where
  "after_chr c s = (case dropWhile (\<lambda>x. x \<noteq> c) s of [] \<Rightarrow> None | _ # r \<Rightarrow> Some r)"

definition has_prefix :: "string \<Rightarrow> string \<Rightarrow> bool" where
  "has_prefix p s \<longleftrightarrow> take (length p) s = p"

fun strstr :: "string \<Rightarrow> string \<Rightarrow> string option" where
  "strstr p [] = (if p = [] then Some [] else None)"
| "strstr p (c # s) = (if has_prefix p (c # s) then Some (c # s) else strstr p s)"

text \<open>\<open>split_on\<close> cuts at every separator; \<open>strtok\<close> drops the empty pieces.\<close>

fun split_on :: "(char \<Rightarrow> bool) \<Rightarrow> string \<Rightarrow> string list" where
  "split_on p [] = [[]]"
| "split_on p (c # s) = (if p c then [] # split_on p s
     else (case split_on p s of [] \<Rightarrow> [[c]] | w # ws \<Rightarrow> (c # w) # ws))"

definition strtok :: "(char \<Rightarrow> bool) \<Rightarrow> string \<Rightarrow> string list" where
  "strtok p s = filter (\<lambda>w. w \<noteq> []) (split_on p s)"

abbreviation (input) nl :: char where "nl \<equiv> CHR 0x0A"

text \<open>\<open>fgets (buf, n, f)\<close>: up to \<open>n - 1\<close> bytes, through the first newline; the rest of a longer
  line comes with the next call.\<close>

definition fgets_len :: "nat \<Rightarrow> string \<Rightarrow> nat" where
  "fgets_len n s = min (max 1 (n - 1)) (length (takeWhile (\<lambda>c. c \<noteq> nl) s) + 1)"

function fgets_lines :: "nat \<Rightarrow> string \<Rightarrow> string list" where
  "fgets_lines n s = (if s = [] then [] else take (fgets_len n s) s # fgets_lines n (drop (fgets_len n s) s))"
  by pat_completeness auto
termination
  by (relation "measure (length \<circ> snd)") (auto simp: fgets_len_def)

declare fgets_lines.simps [simp del]

section \<open>Printing numbers\<close>

definition digit_char :: "nat \<Rightarrow> char" where
  "digit_char n = char_of (48 + n)"

fun dec_nat :: "nat \<Rightarrow> string" where
  "dec_nat n = (if n < 10 then [digit_char n] else dec_nat (n div 10) @ [digit_char (n mod 10)])"

declare dec_nat.simps [simp del]

definition dec_int :: "int \<Rightarrow> string" where
  "dec_int i = (if i < 0 then CHR ''-'' # dec_nat (nat (- i)) else dec_nat (nat i))"

definition pad0 :: "nat \<Rightarrow> string \<Rightarrow> string" where
  "pad0 w s = replicate (w - length s) (CHR ''0'') @ s"

definition hex_digit :: "nat \<Rightarrow> char" where
  "hex_digit n = ''0123456789abcdef'' ! n"

text \<open>\<open>hx[b >> 4]\<close>, \<open>hx[b & 0x0f]\<close> over a buffer.\<close>

definition hex_byte :: "u8 \<Rightarrow> string" where
  "hex_byte b = [hex_digit (unat (drop_bit 4 b)), hex_digit (unat (b AND 15))]"

definition hex_encode :: "bytes \<Rightarrow> string" where
  "hex_encode bs = concat (map hex_byte bs)"

section \<open>Lemmas\<close>

lemma to_int32_id [simp]: "-2147483648 \<le> x \<Longrightarrow> x < 2147483648 \<Longrightarrow> to_int32 x = x"
  by (simp add: to_int32_def)

lemma to_int32_range: "-2147483648 \<le> to_int32 x \<and> to_int32 x < 2147483648"
proof -
  have "0 \<le> (x + 2147483648) mod 4294967296" and "(x + 2147483648) mod 4294967296 < 4294967296"
    by simp_all
  then show ?thesis unfolding to_int32_def by linarith
qed

lemma clamp64_id [simp]: "-9223372036854775808 \<le> x \<Longrightarrow> x \<le> 9223372036854775807 \<Longrightarrow> clamp64 x = x"
  by (simp add: clamp64_def)

lemma cdiv_nonneg [simp]: "0 \<le> a \<Longrightarrow> 0 < b \<Longrightarrow> cdiv a b = a div b"
  by (simp add: cdiv_def)

lemma cmod_nonneg [simp]: "0 \<le> a \<Longrightarrow> 0 < b \<Longrightarrow> cmod a b = a mod b"
  by (simp add: cmod_def minus_mult_div_eq_mod)

lemma digit_char_simps [simp]:
  "digit_char 0 = CHR ''0''"
  "digit_char (Suc 0) = CHR ''1''"
  "digit_char 2 = CHR ''2''"
  "digit_char 3 = CHR ''3''"
  "digit_char 4 = CHR ''4''"
  "digit_char 5 = CHR ''5''"
  "digit_char 6 = CHR ''6''"
  "digit_char 7 = CHR ''7''"
  "digit_char 8 = CHR ''8''"
  "digit_char 9 = CHR ''9''"
  by code_simp+

lemma digit_char_digit: "n < 10 \<Longrightarrow> c_isdigit (digit_char n) \<and> digit_val (digit_char n) = int n"
  by (simp add: digit_char_def c_isdigit_def digit_val_def)

lemma dec_nat_digits: "c \<in> set (dec_nat n) \<Longrightarrow> c_isdigit c"
proof (induction n rule: dec_nat.induct)
  case (1 n)
  then show ?case by (cases "n < 10") (auto simp: dec_nat.simps [of n] digit_char_digit)
qed

lemma dec_val_snoc: "dec_val (xs @ [c]) = dec_val xs * 10 + digit_val c"
  by (simp add: dec_val_def)

lemma dec_val_dec_nat [simp]: "dec_val (dec_nat n) = int n"
proof (induction n rule: dec_nat.induct)
  case (1 n)
  show ?case
  proof (cases "n < 10")
    case True
    then show ?thesis by (simp add: dec_nat.simps [of n] dec_val_def digit_char_digit)
  next
    case False
    then have "dec_val (dec_nat n) = int (n div 10) * 10 + int (n mod 10)"
      using 1 by (simp add: dec_nat.simps [of n] dec_val_snoc digit_char_digit)
    then show ?thesis by (metis div_mult_mod_eq of_nat_add of_nat_mult of_nat_numeral)
  qed
qed

lemma dec_nat_nonempty [simp]: "dec_nat n \<noteq> []"
  by (simp add: dec_nat.simps [of n])

lemma hex_digit_xdigit: "n < 16 \<Longrightarrow> c_isxdigit (hex_digit n)"
proof -
  assume "n < 16"
  then have "n \<in> set [0..<16]" by simp
  moreover have "list_all (\<lambda>n. c_isxdigit (hex_digit n)) [0..<16]" by code_simp
  ultimately show ?thesis by (simp only: list_all_iff)
qed

lemma unat_nibbles: "unat (drop_bit 4 (b::u8)) < 16" "unat (b AND 15) < 16"
proof -
  have "unat b < 2 ^ 8" using unsigned_less [of b] by simp
  moreover have "unat (drop_bit 4 b) = unat b div 2 ^ 4"
    by (metis unat_drop_bit_eq drop_bit_eq_div)
  ultimately show "unat (drop_bit 4 b) < 16" by simp
  have "unat (b AND 15) \<le> unat (15 :: u8)"
    by (rule word_and_le1 [THEN word_le_nat_alt [THEN iffD1]])
  then show "unat (b AND 15) < 16" by simp
qed

lemma length_hex_encode [simp]: "length (hex_encode bs) = 2 * length bs"
  by (induction bs) (simp_all add: hex_encode_def hex_byte_def)

lemma hex_encode_xdigits: "c \<in> set (hex_encode bs) \<Longrightarrow> c_isxdigit c"
  by (auto simp: hex_encode_def hex_byte_def intro: hex_digit_xdigit unat_nibbles)

lemma takeWhile_append_stop:
  "(\<And>x. x \<in> set xs \<Longrightarrow> P x) \<Longrightarrow> \<not> P y \<Longrightarrow> takeWhile P (xs @ y # ys) = xs"
  by (induction xs) auto

lemma dropWhile_append_stop:
  "(\<And>x. x \<in> set xs \<Longrightarrow> P x) \<Longrightarrow> \<not> P y \<Longrightarrow> dropWhile P (xs @ y # ys) = y # ys"
  by (induction xs) auto

lemma before_chr_stop [simp]: "c \<notin> set xs \<Longrightarrow> before_chr c (xs @ c # ys) = xs"
  unfolding before_chr_def by (rule takeWhile_append_stop) auto

lemma after_chr_stop [simp]: "c \<notin> set xs \<Longrightarrow> after_chr c (xs @ c # ys) = Some ys"
  unfolding after_chr_def by (subst dropWhile_append_stop) auto

lemma has_prefix_append [simp]: "has_prefix p (p @ s)"
  by (simp add: has_prefix_def)

lemma cstr_id: "(\<And>c. c \<in> set s \<Longrightarrow> code c \<noteq> 0) \<Longrightarrow> cstr s = s"
  by (simp add: cstr_def takeWhile_eq_all_conv)

lemma cstr_no_nul: "c \<in> set (cstr s) \<Longrightarrow> code c \<noteq> 0"
  by (auto simp: cstr_def dest: set_takeWhileD)

lemma concat_fgets_lines: "concat (fgets_lines n s) = s"
  by (induction n s rule: fgets_lines.induct) (simp add: fgets_lines.simps)

lemma split_on_nonempty [simp]: "split_on p s \<noteq> []"
  by (induction s) (auto split: list.splits)

lemma split_on_pieces: "w \<in> set (split_on p s) \<Longrightarrow> c \<in> set w \<Longrightarrow> c \<in> set s \<and> \<not> p c"
  by (induction s arbitrary: w) (force split: if_splits list.splits)+

lemma split_on_cover: "c \<in> set s \<Longrightarrow> p c \<or> (\<exists>w \<in> set (split_on p s). c \<in> set w)"
  by (induction s) (auto split: list.splits)

lemma hex_digit_inj: "m < 16 \<Longrightarrow> n < 16 \<Longrightarrow> hex_digit m = hex_digit n \<Longrightarrow> m = n"
proof -
  assume "m < 16" "n < 16" "hex_digit m = hex_digit n"
  moreover have "distinct (map hex_digit [0..<16])" by code_simp
  ultimately show ?thesis by (auto simp: distinct_map inj_on_def)
qed

lemma nibble_arith: "unat (c AND 15) = unat c mod 16" "unat (drop_bit 4 c) = unat c div 16" for c :: u8
proof -
  have "c AND 15 = take_bit 4 c"
    by (simp add: take_bit_eq_mask mask_eq_decr_exp)
  then show "unat (c AND 15) = unat c mod 16"
    by (simp add: take_bit_eq_mod unat_mod)
  have "unat (drop_bit 4 c) = unat c div 2 ^ 4"
    by (metis unat_drop_bit_eq drop_bit_eq_div)
  then show "unat (drop_bit 4 c) = unat c div 16" by simp
qed

lemma hex_byte_inj: "hex_byte a = hex_byte b \<Longrightarrow> a = b"
proof -
  assume "hex_byte a = hex_byte b"
  then have "unat (drop_bit 4 a) = unat (drop_bit 4 b)" "unat (a AND 15) = unat (b AND 15)"
    by (auto simp: hex_byte_def intro: hex_digit_inj unat_nibbles)
  then have "unat a = unat b" unfolding nibble_arith by (metis div_mult_mod_eq)
  then show ?thesis by (rule unsigned_word_eqI)
qed

lemma hex_val_digit: "n < 16 \<Longrightarrow> hex_val (hex_digit n) = int n"
proof -
  assume "n < 16"
  then have "n \<in> set [0..<16]" by simp
  moreover have "list_all (\<lambda>n. hex_val (hex_digit n) = int n) [0..<16]" by code_simp
  ultimately show ?thesis by (simp only: list_all_iff)
qed

lemma xdigit_not_lead: "c_isxdigit c \<Longrightarrow> \<not> c_isspace c \<and> c \<noteq> CHR ''-'' \<and> c \<noteq> CHR ''+''"
  by (auto simp: c_isxdigit_def c_isdigit_def c_isspace_def)

lemma strtol16_hex_byte: "strtol16 (hex_byte b) = int (unat b)"
proof -
  let ?h = "unat (drop_bit 4 b)" and ?l = "unat (b AND 15)"
  have x: "c_isxdigit (hex_digit ?h)" "c_isxdigit (hex_digit ?l)"
    by (rule hex_digit_xdigit, rule unat_nibbles)+
  have v: "hexs_val [hex_digit ?h, hex_digit ?l] = int (unat b)"
  proof -
    have "int (?h * 16 + ?l) = int (unat b)" by (simp only: nibble_arith div_mult_mod_eq)
    then show ?thesis
      unfolding hexs_val_def using unat_nibbles [of b] by (simp add: hex_val_digit)
  qed
  have "uint b < 256" "0 \<le> uint b" using unsigned_less [of b] by simp_all
  then have "clamp64 (uint b) = uint b" by (intro clamp64_id) linarith+
  with x v xdigit_not_lead [OF x(1)] show ?thesis
    by (simp add: strtol16_def split_sign_def hex_byte_def)
qed

lemma char_of_byte_of_char [simp]: "char_of (unat (byte_of_char c)) = c"
proof -
  have "unat (byte_of_char c) = of_char c" by (simp add: byte_of_char_def unat_of_nat)
  then show ?thesis by simp
qed

lemma hex_encode_inj: "hex_encode xs = hex_encode ys \<Longrightarrow> xs = ys"
proof (induction xs arbitrary: ys)
  case Nil
  then show ?case by (cases ys) (simp_all add: hex_encode_def hex_byte_def)
next
  case (Cons x xs)
  then obtain y ys' where ys: "ys = y # ys'"
    by (cases ys) (simp_all add: hex_encode_def hex_byte_def)
  have "hex_byte x = hex_byte y" "hex_encode xs = hex_encode ys'"
    using Cons.prems by (simp_all add: ys hex_encode_def hex_byte_def)
  then show ?case using Cons.IH by (auto simp: ys dest: hex_byte_inj)
qed

lemma dec_nat_length: "n < 10 ^ k \<Longrightarrow> 0 < k \<Longrightarrow> length (dec_nat n) \<le> k"
proof (induction n arbitrary: k rule: dec_nat.induct)
  case (1 n)
  show ?case
  proof (cases "n < 10")
    case True
    with 1 show ?thesis by (simp add: dec_nat.simps [of n])
  next
    case False
    then obtain j where j: "k = Suc j" "0 < j" using 1(2,3) by (cases k; cases "k - 1") auto
    with 1(2) have "n div 10 < 10 ^ j" by (simp add: less_mult_imp_div_less mult.commute)
    with 1(1) [OF False _ j(2)] j False show ?thesis by (simp add: dec_nat.simps [of n])
  qed
qed

lemma dec_int_length: "\<bar>x\<bar> < 10 ^ k \<Longrightarrow> 0 < k \<Longrightarrow> length (dec_int x) \<le> Suc k"
proof -
  assume x: "\<bar>x\<bar> < 10 ^ k" and k: "0 < k"
  have "length (dec_nat (nat \<bar>x\<bar>)) \<le> k" using x k by (intro dec_nat_length) (simp_all add: nat_less_iff)
  then show ?thesis by (cases "x < 0") (simp_all add: dec_int_def)
qed

end
