(* ===== verification/Ring.thy ===== *)
theory Ring
  imports Main
begin

text \<open>
  Ring buffers.  Several parts of the program keep the newest entries of a stream in an array used
  as a ring: the log viewer its matching lines, the statistics page its samples.  The contract
  \<open>ring_buffer\<close> says what such a buffer holds after any number of insertions, \<open>slot_ring\<close> how
  an array with a head and a count meets it.
\<close>

definition last_n :: "nat \<Rightarrow> 'a list \<Rightarrow> 'a list" where
  "last_n n xs = drop (length xs - n) xs"

lemma length_last_n [simp]: "length (last_n n xs) = min n (length xs)"
  by (auto simp: last_n_def)

lemma last_n_all [simp]: "length xs \<le> n \<Longrightarrow> last_n n xs = xs"
  by (simp add: last_n_def)

lemma last_n_append_last_n [simp]: "last_n n (last_n n xs @ ys) = last_n n (xs @ ys)"
proof (cases "length xs \<le> n")
  case False
  then have "length xs + length ys - (length xs - n + n) + (length xs - n) = length xs + length ys - n" by linarith
  with False show ?thesis by (simp add: last_n_def)
qed simp

lemma last_n_snoc_full: "length xs = n \<Longrightarrow> 0 < n \<Longrightarrow> last_n n (xs @ [x]) = tl xs @ [x]"
  by (cases xs) (auto simp: last_n_def)

lemma last_last_n: "xs \<noteq> [] \<Longrightarrow> 0 < n \<Longrightarrow> last (last_n n xs) = last xs"
  by (simp add: last_n_def)

section \<open>The contract\<close>

locale ring_buffer =
  fixes cap :: "'s \<Rightarrow> nat" and items :: "'s \<Rightarrow> 'a list" and ok :: "'s \<Rightarrow> bool" and put :: "'a \<Rightarrow> 's \<Rightarrow> 's"
  assumes put_ok: "ok s \<Longrightarrow> ok (put x s)"
    and put_cap: "ok s \<Longrightarrow> cap (put x s) = cap s"
    and put_items: "ok s \<Longrightarrow> items (put x s) = last_n (cap s) (items s @ [x])"
    and items_length: "ok s \<Longrightarrow> length (items s) \<le> cap s"
begin

lemma fold_ok: "ok s \<Longrightarrow> ok (fold put xs s) \<and> cap (fold put xs s) = cap s"
  by (induction xs arbitrary: s) (simp_all add: put_ok put_cap)

lemma fold_items: "ok s \<Longrightarrow> items (fold put xs s) = last_n (cap s) (items s @ xs)"
  by (induction xs arbitrary: s) (simp_all add: put_ok put_cap put_items items_length)

lemma from_empty:
  assumes "ok s" "items s = []"
  shows "items (fold put xs s) = last_n (cap s) xs"
  by (simp add: fold_items assms)

end

section \<open>Arrays used as rings\<close>

definition ring_items :: "nat \<Rightarrow> nat \<Rightarrow> nat \<Rightarrow> 'a list \<Rightarrow> 'a list" where
  "ring_items cap head n slots = map (\<lambda>i. slots ! ((head + i) mod cap)) [0..<n]"

lemma length_ring_items [simp]: "length (ring_items cap head n slots) = n"
  by (simp add: ring_items_def)

lemma nth_ring_items [simp]: "i < n \<Longrightarrow> ring_items cap head n slots ! i = slots ! ((head + i) mod cap)"
  by (simp add: ring_items_def)

lemma mod_add_inj: "i < c \<Longrightarrow> j < c \<Longrightarrow> (h + i) mod c = (h + j) mod c \<Longrightarrow> i = (j :: nat)"
proof (induction i j rule: linorder_wlog)
  case (le i j)
  then have "(h + j - (h + i)) mod c = 0"
    by (metis add_le_cancel_left mod_eq_dvd_iff_nat mod_0_imp_dvd dvd_imp_mod_0)
  with le show ?case by simp
next
  case (sym i j)
  then show ?case by simp
qed

lemma ring_put_room:
  assumes "n < cap" "cap \<le> length slots"
  shows "ring_items cap head (Suc n) (slots[(head + n) mod cap := x]) = ring_items cap head n slots @ [x]"
proof (rule nth_equalityI)
  fix i assume i: "i < length (ring_items cap head (Suc n) (slots[(head + n) mod cap := x]))"
  have b: "(head + n) mod cap < length slots"
    using assms mod_less_divisor [of cap "head + n"] by linarith
  show "ring_items cap head (Suc n) (slots[(head + n) mod cap := x]) ! i = (ring_items cap head n slots @ [x]) ! i"
  proof (cases "i = n")
    case True
    with b show ?thesis by (simp add: nth_append)
  next
    case False
    then have "(head + n) mod cap \<noteq> (head + i) mod cap"
      using mod_add_inj [of n cap i head] assms i by auto
    with False i show ?thesis by (simp add: nth_append)
  qed
qed simp

lemma ring_put_full:
  assumes "0 < cap" "cap \<le> length slots" "head < cap"
  shows "ring_items cap ((head + 1) mod cap) cap (slots[(head + cap) mod cap := x])
    = tl (ring_items cap head cap slots) @ [x]"
proof (rule nth_equalityI)
  fix i assume "i < length (ring_items cap ((head + 1) mod cap) cap (slots[(head + cap) mod cap := x]))"
  then have i: "i < cap" by simp
  have e: "((head + 1) mod cap + i) mod cap = (head + Suc i) mod cap" by (simp add: mod_simps)
  show "ring_items cap ((head + 1) mod cap) cap (slots[(head + cap) mod cap := x]) ! i
      = (tl (ring_items cap head cap slots) @ [x]) ! i"
  proof (cases "Suc i = cap")
    case True
    then have "i = length (tl (ring_items cap head cap slots))" by simp
    then have "(tl (ring_items cap head cap slots) @ [x]) ! i = x" by (metis nth_append_length)
    moreover have "(head + Suc i) mod cap = head" using True assms by simp
    ultimately show ?thesis using i assms e by simp
  next
    case False
    then have "head mod cap \<noteq> (head + Suc i) mod cap"
      using mod_add_inj [of 0 cap "Suc i" head] i by auto
    moreover have "i < cap - 1" using False i by linarith
    ultimately show ?thesis using i e assms by (simp add: nth_append nth_tl)
  qed
qed (use assms in simp)

locale slot_ring =
  fixes slots :: "'s \<Rightarrow> 'a list" and head count cap :: "'s \<Rightarrow> nat" and ok :: "'s \<Rightarrow> bool" and put :: "'a \<Rightarrow> 's \<Rightarrow> 's"
  assumes bounds: "ok s \<Longrightarrow> 0 < cap s \<and> head s < cap s \<and> count s \<le> cap s \<and> cap s \<le> length (slots s)"
    and slot_ok: "ok s \<Longrightarrow> ok (put x s)"
    and slot_cap: "ok s \<Longrightarrow> cap (put x s) = cap s"
    and slot_put: "ok s \<Longrightarrow> slots (put x s) = (slots s)[(head s + count s) mod cap s := x]"
    and slot_count: "ok s \<Longrightarrow> count (put x s) = (if count s < cap s then Suc (count s) else count s)"
    and slot_head: "ok s \<Longrightarrow> head (put x s) = (if count s < cap s then head s else (head s + 1) mod cap s)"
begin

lemma slot_items: "ok s \<Longrightarrow> ring_items (cap (put x s)) (head (put x s)) (count (put x s)) (slots (put x s))
    = last_n (cap s) (ring_items (cap s) (head s) (count s) (slots s) @ [x])"
proof (cases "count s < cap s")
  case True
  assume "ok s"
  with True bounds [of s] show ?thesis
    by (simp add: slot_cap slot_put slot_count slot_head ring_put_room)
next
  case False
  assume "ok s"
  with False bounds [of s] have c: "count s = cap s" by linarith
  with False bounds [of s] \<open>ok s\<close> show ?thesis
    by (simp add: slot_cap slot_put slot_count slot_head last_n_snoc_full
        ring_put_full [of "cap s" "slots s" "head s" x, simplified])
qed

end

sublocale slot_ring \<subseteq> ring: ring_buffer cap "\<lambda>s. ring_items (cap s) (head s) (count s) (slots s)" ok put
proof unfold_locales
  show "ok s \<Longrightarrow> length (ring_items (cap s) (head s) (count s) (slots s)) \<le> cap s" for s
    using bounds [of s] by simp
qed (rule slot_ok slot_cap slot_items, assumption)+

end
