(* ===== verification/Fips180.thy ===== *)
theory Fips180
  imports Prelude
begin

text \<open>
  The secure hash algorithm SHA-256 as the standard FIPS 180-4 states it, independent of the code: the
  constants as roots of primes (section 4.2.2 and 5.3.3), the functions as rotations (4.1.2), the
  padding (5.1.1), the blocks as big-endian words (5.2.1), the schedule as a recurrence and the 64 rounds
  (6.2.2).  \<open>Sha256\<close> proves the code equal to it.
\<close>

section \<open>Constants\<close>

definition first_primes :: "nat list" where
  "first_primes = [
    2, 3, 5, 7, 11, 13, 17, 19, 23, 29, 31, 37, 41, 43, 47, 53,
    59, 61, 67, 71, 73, 79, 83, 89, 97, 101, 103, 107, 109, 113, 127, 131,
    137, 139, 149, 151, 157, 163, 167, 173, 179, 181, 191, 193, 197, 199, 211, 223,
    227, 229, 233, 239, 241, 251, 257, 263, 269, 271, 277, 281, 283, 293, 307, 311]"

text \<open>The first 32 bits of the fractional part of the \<open>k\<close>-th root of \<open>p\<close>: the root times \<open>2^32\<close>, rounded
  down, modulo \<open>2^32\<close>.\<close>

definition root_fraction :: "nat \<Rightarrow> nat \<Rightarrow> u32" where
  "root_fraction k p = of_nat (GREATEST x. x ^ k \<le> p * 2 ^ (32 * k))"

definition fips_K :: "nat \<Rightarrow> u32" where
  "fips_K t = root_fraction 3 (first_primes ! t)"

definition fips_H0 :: "u32 list" where
  "fips_H0 = map (root_fraction 2) (take 8 first_primes)"

section \<open>Functions\<close>

definition fips_Ch :: "u32 \<Rightarrow> u32 \<Rightarrow> u32 \<Rightarrow> u32" where
  "fips_Ch x y z = (x AND y) XOR (NOT x AND z)"

definition fips_Maj :: "u32 \<Rightarrow> u32 \<Rightarrow> u32 \<Rightarrow> u32" where
  "fips_Maj x y z = (x AND y) XOR (x AND z) XOR (y AND z)"

definition Sigma0 :: "u32 \<Rightarrow> u32" where
  "Sigma0 x = word_rotr 2 x XOR word_rotr 13 x XOR word_rotr 22 x"

definition Sigma1 :: "u32 \<Rightarrow> u32" where
  "Sigma1 x = word_rotr 6 x XOR word_rotr 11 x XOR word_rotr 25 x"

definition sigma0 :: "u32 \<Rightarrow> u32" where
  "sigma0 x = word_rotr 7 x XOR word_rotr 18 x XOR drop_bit 3 x"

definition sigma1 :: "u32 \<Rightarrow> u32" where
  "sigma1 x = word_rotr 17 x XOR word_rotr 19 x XOR drop_bit 10 x"

section \<open>Padding and parsing\<close>

text \<open>The \<open>n\<close> low bytes of a word, the highest first.\<close>

definition bytes_be :: "nat \<Rightarrow> 'a::len word \<Rightarrow> bytes" where
  "bytes_be n w = map (\<lambda>i. ucast (drop_bit (8 * i) w)) (rev [0..<n])"

text \<open>A one bit, the least number of zero bits up to 448 modulo 512, and the length in bits; on whole
  bytes.\<close>

definition fips_pad :: "bytes \<Rightarrow> bytes" where
  "fips_pad m = m @ [0x80] @ replicate (LEAST k. (length m + 1 + k) mod 64 = 56) 0 @ bytes_be 8 (of_nat (8 * length m) :: u64)"

definition fips_blocks :: "bytes \<Rightarrow> bytes list" where
  "fips_blocks m = map (\<lambda>i. take 64 (drop (64 * i) m)) [0..<length m div 64]"

text \<open>Word \<open>t\<close> of a block.\<close>

definition fips_M :: "bytes \<Rightarrow> nat \<Rightarrow> u32" where
  "fips_M b t = word_rcat (take 4 (drop (4 * t) b))"

section \<open>The hash\<close>

fun fips_W :: "bytes \<Rightarrow> nat \<Rightarrow> u32" where
  "fips_W b t = (if t < 16 then fips_M b t
     else sigma1 (fips_W b (t - 2)) + fips_W b (t - 7) + sigma0 (fips_W b (t - 15)) + fips_W b (t - 16))"

declare fips_W.simps [simp del]

text \<open>The working variables \<open>a, b, c, d, e, f, g, h\<close> after \<open>n\<close> rounds.\<close>

primrec fips_vars :: "bytes \<Rightarrow> u32 list \<Rightarrow> nat \<Rightarrow> u32 \<times> u32 \<times> u32 \<times> u32 \<times> u32 \<times> u32 \<times> u32 \<times> u32" where
  "fips_vars blk H 0 = (H ! 0, H ! 1, H ! 2, H ! 3, H ! 4, H ! 5, H ! 6, H ! 7)"
| "fips_vars blk H (Suc t) = (case fips_vars blk H t of (a, b, c, d, e, f, g, h) \<Rightarrow>
     let T1 = h + Sigma1 e + fips_Ch e f g + fips_K t + fips_W blk t; T2 = Sigma0 a + fips_Maj a b c
     in (T1 + T2, a, b, c, d + T1, e, f, g))"

definition fips_step :: "u32 list \<Rightarrow> bytes \<Rightarrow> u32 list" where
  "fips_step H blk = (case fips_vars blk H 64 of (a, b, c, d, e, f, g, h) \<Rightarrow> map2 (+) [a, b, c, d, e, f, g, h] H)"

definition fips_sha256 :: "bytes \<Rightarrow> bytes" where
  "fips_sha256 m = concat (map (bytes_be 4) (foldl fips_step fips_H0 (fips_blocks (fips_pad m))))"

section \<open>The constants as numbers\<close>

lemma root_fraction_eq: "x ^ k \<le> p * 2 ^ (32 * k) \<Longrightarrow> p * 2 ^ (32 * k) < Suc x ^ k \<Longrightarrow> root_fraction k p = of_nat x"
proof -
  assume x: "x ^ k \<le> p * 2 ^ (32 * k)" "p * 2 ^ (32 * k) < Suc x ^ k"
  have "(GREATEST y. y ^ k \<le> p * 2 ^ (32 * k)) = x"
  proof (rule Greatest_equality)
    show "x ^ k \<le> p * 2 ^ (32 * k)" by (rule x)
  next
    fix y assume "y ^ k \<le> p * 2 ^ (32 * k)"
    then have "y ^ k < Suc x ^ k" using x(2) by simp
    then have "y < Suc x" by (rule power_less_imp_less_base) simp
    then show "y \<le> x" by simp
  qed
  then show ?thesis by (simp add: root_fraction_def)
qed

lemma root_fractions:
  "list_all2 (\<lambda>p x. x ^ k \<le> p * 2 ^ (32 * k) \<and> p * 2 ^ (32 * k) < Suc x ^ k) ps xs \<Longrightarrow> map (root_fraction k) ps = map of_nat xs"
  by (induction ps xs rule: list_all2_induct) (simp_all add: root_fraction_eq)

lemma fips_K_numbers: "map (root_fraction 3) first_primes = map of_nat [
    5411319704, 6194414737, 7344290767, 8215976869, 9551921755, 10098905585, 11043570340, 11460697813,
    12214315672, 13195500289, 13492127166, 14311783875, 14809980276, 15046980094, 15499789991, 16133124468,
    16720292289, 16907126662, 17444216262, 17784676812, 17950125167, 18429019306, 18734950876, 19175934170,
    19734090066, 20001703533, 20132865992, 20390182855, 20516441075, 20764397895, 21588763473, 21813078375,
    22141143685, 22248366392, 22769593852, 22871018771, 23170020180, 23461497531, 23651862830, 23931792517,
    24205322401, 24295138891, 24734567280, 24820601251, 24990902297, 25075189284, 25569408389, 26045227120,
    26200031510, 26276752392, 26428864332, 26653801653, 26727943347, 27092625994, 27306805839, 27517677555,
    27725365998, 27793908591, 27997534228, 28131656200, 28198240250, 28526537963, 28973835255, 29099129074]"
  by (rule root_fractions) (simp add: first_primes_def)

lemma fips_H0_numbers: "fips_H0 = map of_nat [
    6074000999, 7439101573, 9603838834, 11363415354, 14244795007, 15485724812, 17708603819, 18721328409]"
  unfolding fips_H0_def by (rule root_fractions) (simp add: first_primes_def)

end
