(* ===== verification/Sha256.thy ===== *)
theory Sha256
  imports Fips180
begin

text \<open>
  The hash of \<open>src/sha256.c\<close>: the context \<open>sha256_ctx\<close>, the compression function
  \<open>sha256_transform\<close>, and the streaming interface \<open>sha256_init\<close>, \<open>sha256_update\<close>,
  \<open>sha256_final\<close>, at the widths of the C code (32-bit words, a 64-bit byte counter).
  The lemmas show the compression function equal to that of \<open>Fips180\<close> and the streaming interface to
  the hash of the padded message.
\<close>

section \<open>The code\<close>

record sha256_ctx =
  ctx_state :: "u32 list"
  ctx_count :: u64
  ctx_buf :: bytes

definition ROR :: "u32 \<Rightarrow> nat \<Rightarrow> u32" where
  "ROR x n = drop_bit n x OR push_bit (32 - n) x"

definition CH :: "u32 \<Rightarrow> u32 \<Rightarrow> u32 \<Rightarrow> u32" where
  "CH x y z = (x AND y) XOR (NOT x AND z)"

definition MAJ :: "u32 \<Rightarrow> u32 \<Rightarrow> u32 \<Rightarrow> u32" where
  "MAJ x y z = (x AND y) XOR (x AND z) XOR (y AND z)"

definition EP0 :: "u32 \<Rightarrow> u32" where
  "EP0 x = ROR x 2 XOR ROR x 13 XOR ROR x 22"

definition EP1 :: "u32 \<Rightarrow> u32" where
  "EP1 x = ROR x 6 XOR ROR x 11 XOR ROR x 25"

definition SIG0 :: "u32 \<Rightarrow> u32" where
  "SIG0 x = ROR x 7 XOR ROR x 18 XOR drop_bit 3 x"

definition SIG1 :: "u32 \<Rightarrow> u32" where
  "SIG1 x = ROR x 17 XOR ROR x 19 XOR drop_bit 10 x"

definition K :: "u32 list" where
  "K = concat [
    [0x428a2f98, 0x71374491, 0xb5c0fbcf, 0xe9b5dba5],
    [0x3956c25b, 0x59f111f1, 0x923f82a4, 0xab1c5ed5],
    [0xd807aa98, 0x12835b01, 0x243185be, 0x550c7dc3],
    [0x72be5d74, 0x80deb1fe, 0x9bdc06a7, 0xc19bf174],
    [0xe49b69c1, 0xefbe4786, 0x0fc19dc6, 0x240ca1cc],
    [0x2de92c6f, 0x4a7484aa, 0x5cb0a9dc, 0x76f988da],
    [0x983e5152, 0xa831c66d, 0xb00327c8, 0xbf597fc7],
    [0xc6e00bf3, 0xd5a79147, 0x06ca6351, 0x14292967],
    [0x27b70a85, 0x2e1b2138, 0x4d2c6dfc, 0x53380d13],
    [0x650a7354, 0x766a0abb, 0x81c2c92e, 0x92722c85],
    [0xa2bfe8a1, 0xa81a664b, 0xc24b8b70, 0xc76c51a3],
    [0xd192e819, 0xd6990624, 0xf40e3585, 0x106aa070],
    [0x19a4c116, 0x1e376c08, 0x2748774c, 0x34b0bcb5],
    [0x391c0cb3, 0x4ed8aa4a, 0x5b9cca4f, 0x682e6ff3],
    [0x748f82ee, 0x78a5636f, 0x84c87814, 0x8cc70208],
    [0x90befffa, 0xa4506ceb, 0xbef9a3f7, 0xc67178f2]]"

text \<open>The message schedule: the first loop loads 16 big-endian words, the second extends
  them to 64.\<close>

definition load_be :: "bytes \<Rightarrow> nat \<Rightarrow> u32" where
  "load_be dat i = push_bit 24 (ucast (dat ! (i * 4))) OR push_bit 16 (ucast (dat ! (i * 4 + 1)))
     OR push_bit 8 (ucast (dat ! (i * 4 + 2))) OR ucast (dat ! (i * 4 + 3))"

definition schedule_step :: "u32 list \<Rightarrow> nat \<Rightarrow> u32 list" where
  "schedule_step W i = W @ [SIG1 (W ! (i - 2)) + W ! (i - 7) + SIG0 (W ! (i - 15)) + W ! (i - 16)]"

definition schedule :: "bytes \<Rightarrow> u32 list" where
  "schedule dat = foldl schedule_step (map (load_be dat) [0..<16]) [16..<64]"

type_synonym work = "u32 \<times> u32 \<times> u32 \<times> u32 \<times> u32 \<times> u32 \<times> u32 \<times> u32"

definition round_step :: "u32 list \<Rightarrow> work \<Rightarrow> nat \<Rightarrow> work" where
  "round_step W s i = (case s of (a, b, c, d, e, f, g, h) \<Rightarrow>
     let t1 = h + EP1 e + CH e f g + K ! i + W ! i;
         t2 = EP0 a + MAJ a b c
     in (t1 + t2, a, b, c, d + t1, e, f, g))"

text \<open>The eight chaining words after the 64 rounds are added to the state.\<close>

definition compress :: "u32 list \<Rightarrow> bytes \<Rightarrow> u32 list" where
  "compress st dat =
    (let (a, b, c, d, e, f, g, h) = foldl (round_step (schedule dat))
           (st ! 0, st ! 1, st ! 2, st ! 3, st ! 4, st ! 5, st ! 6, st ! 7) [0..<64]
     in [st ! 0 + a, st ! 1 + b, st ! 2 + c, st ! 3 + d,
         st ! 4 + e, st ! 5 + f, st ! 6 + g, st ! 7 + h])"

definition sha256_transform :: "sha256_ctx \<Rightarrow> bytes \<Rightarrow> sha256_ctx" where
  "sha256_transform ctx dat = ctx\<lparr>ctx_state := compress (ctx_state ctx) dat\<rparr>"

definition H0 :: "u32 list" where
  "H0 = [0x6a09e667, 0xbb67ae85, 0x3c6ef372, 0xa54ff53a,
         0x510e527f, 0x9b05688c, 0x1f83d9ab, 0x5be0cd19]"

text \<open>\<open>sha256_init\<close> leaves \<open>buf\<close> as it is: the argument is the uninitialised block.\<close>

definition sha256_init :: "bytes \<Rightarrow> sha256_ctx" where
  "sha256_init junk = \<lparr>ctx_state = H0, ctx_count = 0, ctx_buf = junk\<rparr>"

definition update_byte :: "sha256_ctx \<Rightarrow> u8 \<Rightarrow> sha256_ctx" where
  "update_byte ctx b =
    (let ctx1 = ctx\<lparr>ctx_buf := (ctx_buf ctx)[unat (ctx_count ctx) mod 64 := b],
                     ctx_count := ctx_count ctx + 1\<rparr>
     in if unat (ctx_count ctx1) mod 64 = 0 then sha256_transform ctx1 (ctx_buf ctx1) else ctx1)"

definition sha256_update :: "sha256_ctx \<Rightarrow> bytes \<Rightarrow> sha256_ctx" where
  "sha256_update ctx dat = foldl update_byte ctx dat"

lemma unat_count_Suc: "unat (w + 1 :: u64) mod 64 = Suc (unat w) mod 64"
proof -
  have "unat (w + 1) = (unat w + 1) mod 2 ^ 64"
    by (simp add: unat_word_ariths)
  then show ?thesis by (simp add: mod_mod_cancel)
qed

lemma ctx_count_update_byte [simp]: "ctx_count (update_byte ctx b) = ctx_count ctx + 1"
  by (simp add: update_byte_def Let_def sha256_transform_def)

text \<open>The padding loop \<open>while ((ctx->count % 64) != 56)\<close>.\<close>

function pad_zeros :: "sha256_ctx \<Rightarrow> sha256_ctx" where
  "pad_zeros ctx = (if unat (ctx_count ctx) mod 64 \<noteq> 56
     then pad_zeros (sha256_update ctx [0]) else ctx)"
  by pat_completeness auto
termination
proof (relation "measure (\<lambda>ctx. let r = unat (ctx_count ctx) mod 64
                                in if r \<le> 56 then 56 - r else 120 - r)", goal_cases)
  case (2 ctx)
  define r where "r = unat (ctx_count ctx) mod 64"
  have r: "r < 64" "r \<noteq> 56" using 2 by (simp_all add: r_def)
  have "unat (ctx_count ctx + 1) mod 64 = (if r = 63 then 0 else Suc r)"
    using r by (simp add: unat_count_Suc r_def mod_Suc)
  then show ?case
    using r by (simp add: sha256_update_def Let_def flip: r_def) arith
qed simp

declare pad_zeros.simps [simp del]

definition be64 :: "u64 \<Rightarrow> bytes" where
  "be64 bits = map (\<lambda>i. ucast (drop_bit (56 - i * 8) bits)) [0..<8]"

definition be32 :: "u32 \<Rightarrow> bytes" where
  "be32 w = [ucast (drop_bit 24 w), ucast (drop_bit 16 w), ucast (drop_bit 8 w), ucast w]"

definition sha256_final :: "sha256_ctx \<Rightarrow> bytes" where
  "sha256_final ctx =
    (let bits = ctx_count ctx * 8;
         c1 = sha256_update ctx [0x80];
         c2 = pad_zeros c1;
         c3 = sha256_update c2 (be64 bits)
     in concat (map (\<lambda>i. be32 (ctx_state c3 ! i)) [0..<8]))"

text \<open>\<open>sha256_hex\<close>: the one-shot interface.\<close>

definition sha256_hex :: "bytes \<Rightarrow> bytes \<Rightarrow> string" where
  "sha256_hex junk dat = hex_encode (sha256_final (sha256_update (sha256_init junk) dat))"

section \<open>The compression function is that of the standard\<close>

lemma ROR_rotr: "0 < n \<Longrightarrow> n < 32 \<Longrightarrow> ROR x n = word_rotr n x"
proof (rule bit_word_eqI)
  fix i assume n: "0 < n" "n < 32" and i: "i < LENGTH(32)"
  show "bit (ROR x n) i \<longleftrightarrow> bit (word_rotr n x) i"
  proof (cases "i + n < 32")
    case True
    then have "\<not> 32 - n \<le> i" by simp
    with True n i show ?thesis by (simp add: ROR_def bit_simps add.commute)
  next
    case False
    then have "(i + n) mod 32 = i - (32 - n)" using n i by (simp add: mod_if)
    with False n i show ?thesis by (auto simp: ROR_def bit_simps add.commute dest: bit_imp_le_length)
  qed
qed

lemma functions_eq: "EP0 x = Sigma0 x" "EP1 x = Sigma1 x" "SIG0 x = sigma0 x" "SIG1 x = sigma1 x"
  "CH x y z = fips_Ch x y z" "MAJ x y z = fips_Maj x y z"
  by (simp_all add: EP0_def EP1_def SIG0_def SIG1_def CH_def MAJ_def Sigma0_def Sigma1_def sigma0_def sigma1_def
      fips_Ch_def fips_Maj_def ROR_rotr)

lemma K_eq: "i < 64 \<Longrightarrow> K ! i = fips_K i"
proof -
  assume i: "i < 64"
  have "K = map (root_fraction 3) first_primes" unfolding fips_K_numbers by (simp add: K_def)
  moreover have "length first_primes = 64" by (simp add: first_primes_def)
  ultimately show ?thesis using i unfolding fips_K_def by (metis nth_map)
qed

lemma H0_eq: "H0 = fips_H0"
  unfolding fips_H0_numbers by (simp add: H0_def)

lemma bit_rcat4: "bit (word_rcat [a, b, c, d] :: u32) n \<longleftrightarrow> n < 32 \<and> bit ([d, c, b, a :: u8] ! (n div 8)) (n mod 8)"
proof (cases "n < 32")
  case True
  then have "n div 8 < 4" by linarith
  then show ?thesis
    using True bit_horner_sum_uint_exp_iff [of "[d, c, b, a]" n]
    by (simp add: word_rcat_def bit_word_of_int_iff del: horner_sum_simps)
qed (use bit_imp_le_length [of "word_rcat [a, b, c, d] :: u32" n] in auto)

lemma load_be_eq:
  assumes "i < 16" "length dat = 64"
  shows "load_be dat i = fips_M dat i"
proof -
  have t: "take 4 (drop (4 * i) dat) = [dat ! (i * 4), dat ! (i * 4 + 1), dat ! (i * 4 + 2), dat ! (i * 4 + 3)]"
    using assms by (intro nth_equalityI) (auto simp: less_Suc_eq numeral_eq_Suc mult.commute)
  show ?thesis
  proof (rule bit_word_eqI)
    fix n assume "n < LENGTH(32)"
    then consider "n < 8" | "8 \<le> n" "n < 16" | "16 \<le> n" "n < 24" | "24 \<le> n" "n < 32" by fastforce
    then show "bit (load_be dat i) n \<longleftrightarrow> bit (fips_M dat i) n"
    proof cases
      case 1
      then show ?thesis unfolding fips_M_def t bit_rcat4 by (simp add: load_be_def bit_simps)
    next
      case 2
      then have "n div 8 = 1" "n mod 8 = n - 8" by (auto simp: div_nat_eqI mod_if)
      with 2 show ?thesis unfolding fips_M_def t bit_rcat4
        by (auto simp: load_be_def bit_simps dest: bit_imp_le_length)
    next
      case 3
      then have "n div 8 = 2" "n mod 8 = n - 16" by (auto simp: div_nat_eqI mod_if)
      with 3 show ?thesis unfolding fips_M_def t bit_rcat4
        by (auto simp: load_be_def bit_simps dest: bit_imp_le_length)
    next
      case 4
      then have "n div 8 = 3" "n mod 8 = n - 24" by (auto simp: div_nat_eqI mod_if)
      with 4 show ?thesis unfolding fips_M_def t bit_rcat4
        by (auto simp: load_be_def bit_simps dest: bit_imp_le_length)
    qed
  qed
qed

lemma schedule_prefix: "n \<le> 48 \<Longrightarrow> length dat = 64 \<Longrightarrow>
    foldl schedule_step (map (load_be dat) [0..<16]) [16..<16 + n] = map (fips_W dat) [0..<16 + n]"
proof (induction n)
  case 0
  then show ?case by (simp add: fips_W.simps load_be_eq)
next
  case (Suc n)
  have "fips_W dat (16 + n) = sigma1 (fips_W dat (14 + n)) + fips_W dat (9 + n) + sigma0 (fips_W dat (1 + n)) + fips_W dat n"
    by (subst fips_W.simps) (simp add: numeral_eq_Suc)
  with Suc show ?case by (simp add: schedule_step_def functions_eq nth_append numeral_eq_Suc)
qed

lemma schedule_eq: "length dat = 64 \<Longrightarrow> schedule dat = map (fips_W dat) [0..<64]"
  using schedule_prefix [of 48 dat] by (simp add: schedule_def)

lemma rounds_eq: "n \<le> 64 \<Longrightarrow> length dat = 64 \<Longrightarrow>
    foldl (round_step (schedule dat)) (st ! 0, st ! 1, st ! 2, st ! 3, st ! 4, st ! 5, st ! 6, st ! 7) [0..<n] = fips_vars dat st n"
proof (induction n)
  case (Suc n)
  then have "schedule dat ! n = fips_W dat n" by (simp add: schedule_eq del: upt_Suc)
  with Suc show ?case by (simp add: round_step_def functions_eq K_eq Let_def split: prod.split)
qed simp

lemma compress_eq: "length dat = 64 \<Longrightarrow> length st = 8 \<Longrightarrow> compress st dat = fips_step st dat"
proof -
  assume d: "length dat = 64" and "length st = 8"
  then have st: "st = [st ! 0, st ! 1, st ! 2, st ! 3, st ! 4, st ! 5, st ! 6, st ! 7]"
    by (intro nth_equalityI) (auto simp: less_Suc_eq numeral_eq_Suc)
  have "map2 (+) [a, b, c, d', e, f, g, h] st = [st ! 0 + a, st ! 1 + b, st ! 2 + c, st ! 3 + d', st ! 4 + e, st ! 5 + f, st ! 6 + g, st ! 7 + h]"
    for a b c d' e f g h by (subst st) (simp add: add.commute)
  note m = this
  obtain a b c d' e f r where "fips_vars dat st 64 = (a, b, c, d', e, f, r)" by (rule prod_cases7)
  moreover obtain g h where "r = (g, h)" by (rule prod.exhaust)
  ultimately show ?thesis unfolding compress_def fips_step_def rounds_eq [OF order_refl d] by (simp only: prod.case Let_def m)
qed

section \<open>Padding\<close>

definition pad_len :: "nat \<Rightarrow> nat" where
  "pad_len n = (if n mod 64 \<le> 56 then 56 - n mod 64 else 120 - n mod 64)"

lemma pad_len_least: "(LEAST k. (n + k) mod 64 = 56) = pad_len n"
proof (rule Least_equality)
  have q: "n mod 64 < 64" by simp
  have "(n mod 64 + pad_len n) mod 64 = 56" using q by (auto simp: pad_len_def)
  then show "(n + pad_len n) mod 64 = 56" by (simp add: mod_add_left_eq)
  fix k assume "(n + k) mod 64 = 56"
  then have k: "(n mod 64 + k) mod 64 = 56" by (simp add: mod_add_left_eq)
  show "pad_len n \<le> k"
  proof (rule ccontr)
    assume "\<not> pad_len n \<le> k"
    then have "n mod 64 + k < 56 \<or> 56 < n mod 64 + k \<and> n mod 64 + k < 120"
      using q by (auto simp: pad_len_def split: if_splits)
    moreover have "n mod 64 + k = 64 * ((n mod 64 + k) div 64) + 56" using k mult_div_mod_eq [of 64 "n mod 64 + k"] by simp
    ultimately show False by (cases "(n mod 64 + k) div 64") simp_all
  qed
qed

lemma bytes_be_eq: "be32 w = bytes_be 4 w" "be64 x = bytes_be 8 x"
  by (simp_all add: be32_def be64_def bytes_be_def upt_rec numeral_eq_Suc)

lemma fips_pad_eq: "fips_pad m = m @ [0x80] @ replicate (pad_len (length m + 1)) 0 @ be64 (of_nat (8 * length m))"
  unfolding fips_pad_def pad_len_least bytes_be_eq ..

lemma fips_blocks_length: "blk \<in> set (fips_blocks m) \<Longrightarrow> length blk = 64"
proof -
  assume "blk \<in> set (fips_blocks m)"
  then obtain i where "i < length m div 64" "blk = take 64 (drop (64 * i) m)" by (auto simp: fips_blocks_def)
  then show ?thesis by simp
qed

text \<open>What the context knows of the bytes fed to it so far.\<close>

definition repr :: "sha256_ctx \<Rightarrow> bytes \<Rightarrow> bool" where
  "repr ctx m \<longleftrightarrow> ctx_count ctx = of_nat (length m) \<and> length (ctx_buf ctx) = 64
     \<and> ctx_state ctx = foldl compress H0 (fips_blocks m)
     \<and> take (length m mod 64) (ctx_buf ctx) = drop (64 * (length m div 64)) m"

section \<open>Streaming agrees with the reference\<close>

lemma unat_of_nat_mod64: "unat (of_nat n :: u64) mod 64 = n mod 64"
  by (simp add: unat_of_nat mod_mod_cancel)

lemma drop_mult_div: "length (drop (64 * (length m div 64)) m) = length m mod 64"
  by (simp add: minus_mult_div_eq_mod)

lemma fips_blocks_snoc:
  "fips_blocks (m @ [b]) = fips_blocks m @
     (if Suc (length m) mod 64 = 0 then [drop (64 * (length m div 64)) m @ [b]] else [])"
proof -
  let ?q = "length m div 64"
  have pre: "map (\<lambda>i. take 64 (drop (64 * i) (m @ [b]))) [0..<?q]
           = map (\<lambda>i. take 64 (drop (64 * i) m)) [0..<?q]"
    by (rule map_cong) auto
  show ?thesis
  proof (cases "Suc (length m) mod 64 = 0")
    case True
    then have q: "Suc (length m) div 64 = Suc ?q" and r: "length m mod 64 = 63"
      by (simp_all add: div_Suc mod_Suc split: if_splits)
    from r have len: "length m = 64 * ?q + 63"
      by (metis mult_div_mod_eq)
    from True q len show ?thesis
      by (simp add: fips_blocks_def pre del: upt_Suc)
        (simp add: fips_blocks_def pre)
  next
    case False
    then have "Suc (length m) div 64 = ?q" by (simp add: div_Suc)
    with False show ?thesis by (simp add: fips_blocks_def pre)
  qed
qed

lemma repr_init: "length junk = 64 \<Longrightarrow> repr (sha256_init junk) []"
  by (simp add: repr_def sha256_init_def fips_blocks_def)

lemma repr_update_byte:
  assumes "repr ctx m"
  shows "repr (update_byte ctx b) (m @ [b])"
proof -
  let ?r = "length m mod 64" and ?q = "length m div 64"
  have cnt: "ctx_count ctx = of_nat (length m)" and buf: "length (ctx_buf ctx) = 64"
    and st: "ctx_state ctx = foldl compress H0 (fips_blocks m)"
    and tk: "take ?r (ctx_buf ctx) = drop (64 * ?q) m"
    using assms by (simp_all add: repr_def)
  have r: "?r < 64" by simp
  have idx: "unat (ctx_count ctx) mod 64 = ?r"
    by (simp add: cnt unat_of_nat_mod64)
  have idx': "unat (ctx_count ctx + 1) mod 64 = Suc (length m) mod 64"
    by (metis cnt unat_count_Suc unat_of_nat_mod64 mod_Suc_eq)
  have tk': "take (Suc ?r) ((ctx_buf ctx)[?r := b]) = drop (64 * ?q) m @ [b]"
    using r buf tk by (simp add: take_Suc_conv_app_nth)
  have upd: "update_byte ctx b =
      (let c = ctx\<lparr>ctx_buf := (ctx_buf ctx)[?r := b], ctx_count := of_nat (Suc (length m))\<rparr>
       in if Suc (length m) mod 64 = 0 then sha256_transform c (ctx_buf c) else c)"
    unfolding update_byte_def Let_def by (simp add: idx idx') (simp add: cnt add.commute)
  show ?thesis
  proof (cases "Suc (length m) mod 64 = 0")
    case True
    then have r63: "?r = 63" by (simp add: mod_Suc split: if_splits)
    have "(ctx_buf ctx)[?r := b] = drop (64 * ?q) m @ [b]"
      using tk' buf by (simp add: r63)
    moreover have "Suc (length m) div 64 = Suc ?q" "64 * Suc ?q = Suc (length m)"
      using True r63 mult_div_mod_eq [of 64 "length m"] by (simp_all add: div_Suc)
    ultimately show ?thesis
      using True buf st
      by (simp add: repr_def upd sha256_transform_def fips_blocks_snoc)
  next
    case False
    then have "Suc (length m) div 64 = ?q" "Suc (length m) mod 64 = Suc ?r"
      by (simp_all add: div_Suc mod_Suc split: if_splits)
    with False show ?thesis
      using buf st tk'
      by (simp add: repr_def upd fips_blocks_snoc)
  qed
qed

lemma repr_update: "repr ctx m \<Longrightarrow> repr (sha256_update ctx dat) (m @ dat)"
proof (induction dat arbitrary: ctx m)
  case Nil
  then show ?case by (simp add: sha256_update_def)
next
  case (Cons b dat)
  from Cons.IH [OF repr_update_byte [OF Cons.prems]] show ?case
    by (simp add: sha256_update_def)
qed

lemma pad_len_step: "n mod 64 \<noteq> 56 \<Longrightarrow> pad_len n = Suc (pad_len (Suc n))"
  by (auto simp: pad_len_def mod_Suc Suc_diff_le split: if_splits)

lemma repr_pad_zeros: "repr ctx m \<Longrightarrow> repr (pad_zeros ctx) (m @ replicate (pad_len (length m)) 0)"
proof (induction ctx arbitrary: m rule: pad_zeros.induct)
  case (1 ctx)
  have idx: "unat (ctx_count ctx) mod 64 = length m mod 64"
    using "1.prems" by (simp add: repr_def unat_of_nat_mod64)
  show ?case
  proof (cases "length m mod 64 = 56")
    case True
    with "1.prems" idx show ?thesis
      by (simp add: pad_zeros.simps [of ctx] pad_len_def)
  next
    case False
    have "repr (sha256_update ctx [0]) (m @ [0])"
      by (rule repr_update [OF "1.prems"])
    from "1.IH" [OF _ this] False idx show ?thesis
      by (simp add: pad_zeros.simps [of ctx] pad_len_step replicate_app_Cons_same)
  qed
qed

lemma length_compress [simp]: "length (compress st dat) = 8"
  by (simp add: compress_def split: prod.splits)

lemma length_foldl_compress: "length st = 8 \<Longrightarrow> length (foldl compress st bs) = 8"
  by (induction bs arbitrary: st) simp_all

lemma length_H0 [simp]: "length H0 = 8"
  by (simp add: H0_def)

lemma length_be32 [simp]: "length (be32 w) = 4"
  by (simp add: be32_def)

lemma compress_blocks: "length st = 8 \<Longrightarrow> (\<And>blk. blk \<in> set bs \<Longrightarrow> length blk = 64) \<Longrightarrow> foldl compress st bs = foldl fips_step st bs"
proof (induction bs arbitrary: st)
  case (Cons blk bs)
  have c: "compress st blk = fips_step st blk" using Cons.prems by (intro compress_eq) simp_all
  have "foldl compress (compress st blk) bs = foldl fips_step (compress st blk) bs"
    by (rule Cons.IH) (simp_all add: Cons.prems(2))
  then show ?case by (simp add: c)
qed simp

lemma repr_final:
  assumes "repr ctx m"
  shows "sha256_final ctx = fips_sha256 m"
proof -
  let ?c1 = "sha256_update ctx [0x80]"
  let ?c3 = "sha256_update (pad_zeros ?c1) (be64 (ctx_count ctx * 8))"
  have cnt: "ctx_count ctx * 8 = of_nat (8 * length m)"
    using assms by (simp add: repr_def mult.commute)
  have "repr ?c3 (((m @ [0x80]) @ replicate (pad_len (length (m @ [0x80]))) 0)
                  @ be64 (ctx_count ctx * 8))"
    by (intro repr_update repr_pad_zeros assms)
  then have st: "ctx_state ?c3 = foldl compress H0 (fips_blocks (fips_pad m))"
    by (simp add: repr_def fips_pad_eq cnt)
  then have "length (ctx_state ?c3) = 8"
    by (simp add: length_foldl_compress)
  then have "map (\<lambda>i. be32 (ctx_state ?c3 ! i)) [0..<8] = map be32 (ctx_state ?c3)"
    by (simp only: list_eq_iff_nth_eq) simp
  moreover have "foldl compress H0 (fips_blocks (fips_pad m)) = foldl fips_step fips_H0 (fips_blocks (fips_pad m))"
    unfolding H0_eq [symmetric] by (rule compress_blocks [OF length_H0 fips_blocks_length])
  ultimately show ?thesis
    by (simp add: sha256_final_def Let_def fips_sha256_def st bytes_be_eq(1) [abs_def])
qed

lemma length_fips_sha256 [simp]: "length (fips_sha256 m) = 32"
proof -
  have "length (concat (map (bytes_be 4) ws)) = 4 * length ws" for ws :: "u32 list"
    by (induction ws) (simp_all add: bytes_be_def)
  moreover have "length (foldl fips_step st bs) = 8" if "length st = 8" for st bs
    using that by (induction bs arbitrary: st) (simp_all add: fips_step_def split: prod.split)
  ultimately show ?thesis by (simp add: fips_sha256_def fips_H0_def first_primes_def)
qed

section \<open>Properties\<close>

lemma repr_updates: "repr ctx m \<Longrightarrow> repr (foldl sha256_update ctx chunks) (m @ concat chunks)"
proof (induction chunks arbitrary: ctx m)
  case (Cons c cs)
  from Cons.IH [OF repr_update [OF Cons.prems]] show ?case by simp
qed simp

text \<open>C12: the streaming interface computes SHA-256.  However a message is cut into calls of
  \<open>sha256_update\<close>, and whatever the buffer of the context held before \<open>sha256_init\<close>,
  \<open>sha256_final\<close> returns the digest of the whole message as FIPS 180-4 defines it, from the constants
  as roots of primes to the order of the bytes.\<close>

theorem sha256_streaming:
  assumes "length junk = 64"
  shows "sha256_final (foldl sha256_update (sha256_init junk) chunks) = fips_sha256 (concat chunks)"
  using repr_final [OF repr_updates [OF repr_init [OF assms]]] by simp

theorem sha256_streaming_witness:
  "sha256_final (foldl sha256_update (sha256_init (replicate 64 7)) [[97], [98, 99]])
   = fips_sha256 [97, 98, 99]"
  using sha256_streaming [of "replicate 64 7" "[[97], [98, 99]]"] by simp

end
