(* ===== verification/Database.thy ===== *)
theory Database
  imports Prelude
begin

text \<open>
  The tables of the account database, as \<open>auth_init\<close> of \<open>src/auth.c\<close> declares them, and the
  effect of the SQL statements the sources run on them.  A table is the list of its rows in
  \<open>rowid\<close> order.  A statement that violates a constraint of the schema (UNIQUE, CHECK,
  PRIMARY KEY, FOREIGN KEY with \<open>PRAGMA foreign_keys=ON\<close>) has no effect and yields \<open>None\<close>,
  as \<open>sqlite3_step\<close> then returns something other than \<open>SQLITE_DONE\<close>.  The delete actions of
  the foreign keys are part of the database, because the migration of \<open>auth.c\<close> inspects and
  replaces them.  SQLite itself is not modelled; \<open>engine\<close> says which statements it fails to
  prepare or to run for reasons outside the schema (busy, I/O error, out of memory).
\<close>

section \<open>Tables\<close>

record user_row =
  u_id :: int
  u_username :: string
  u_password_hash :: string
  u_role :: string
  u_enabled :: int
  u_created_at :: int
  u_updated_at :: int
  u_last_login_at :: "int option"
  u_created_by :: "int option"
  u_password_changed_at :: int

record session_row =
  s_sid :: string
  s_user_id :: int
  s_csrf_token :: string
  s_created_at :: int
  s_expires_at :: int
  s_client_ip :: string

record audit_row =
  a_id :: int
  a_operator_id :: "int option"
  a_action :: string
  a_target_user_id :: "int option"
  a_detail :: string
  a_client_ip :: string
  a_created_at :: int

datatype fk_action = NoAction | SetNull | Cascade

record database =
  t_users :: "user_row list"
  t_sessions :: "session_row list"
  t_audit :: "audit_row list"
  users_seq :: int
  audit_seq :: int
  fk_operator :: fk_action
  fk_target :: fk_action
  fk_session :: fk_action
  has_changed_at :: bool

definition empty_db :: database where
  "empty_db = \<lparr>t_users = [], t_sessions = [], t_audit = [], users_seq = 0, audit_seq = 0,
               fk_operator = SetNull, fk_target = SetNull, fk_session = Cascade,
               has_changed_at = True\<rparr>"

definition user_ids :: "database \<Rightarrow> int set" where
  "user_ids d = u_id ` set (t_users d)"

definition lookup_user :: "int \<Rightarrow> database \<Rightarrow> user_row option" where
  "lookup_user i d = find (\<lambda>u. u_id u = i) (t_users d)"

definition lookup_name :: "string \<Rightarrow> database \<Rightarrow> user_row option" where
  "lookup_name n d = find (\<lambda>u. u_username u = n) (t_users d)"

definition lookup_session :: "string \<Rightarrow> database \<Rightarrow> session_row option" where
  "lookup_session k d = find (\<lambda>s. s_sid s = k) (t_sessions d)"

definition max_rowid :: int where
  "max_rowid = 9223372036854775807"

section \<open>Statements\<close>

text \<open>\<open>INSERT INTO users\<close>: AUTOINCREMENT takes the successor of the largest id ever used.\<close>

definition sql_insert_user :: "user_row \<Rightarrow> database \<Rightarrow> (database \<times> int) option" where
  "sql_insert_user u d =
    (let i = users_seq d + 1 in
     if users_seq d \<ge> max_rowid then None
     else if u_username u \<in> u_username ` set (t_users d) then None
     else if u_role u \<noteq> ''root'' \<and> u_role u \<noteq> ''admin'' then None
     else if (case u_created_by u of None \<Rightarrow> False | Some k \<Rightarrow> k \<notin> user_ids d \<and> k \<noteq> i) then None
     else Some (d\<lparr>t_users := t_users d @ [u\<lparr>u_id := i\<rparr>], users_seq := i\<rparr>, i))"

definition sql_update_users :: "(user_row \<Rightarrow> bool) \<Rightarrow> (user_row \<Rightarrow> user_row) \<Rightarrow> database \<Rightarrow> database" where
  "sql_update_users p f d = d\<lparr>t_users := map (\<lambda>u. if p u then f u else u) (t_users d)\<rparr>"

definition count_users :: "(user_row \<Rightarrow> bool) \<Rightarrow> database \<Rightarrow> int" where
  "count_users p d = int (length (filter p (t_users d)))"

text \<open>\<open>DELETE FROM users WHERE id = ?\<close>, with the delete actions of the three tables that
  refer to \<open>users\<close>; the result carries \<open>sqlite3_changes\<close>.\<close>

definition null_ref :: "fk_action \<Rightarrow> int \<Rightarrow> int option \<Rightarrow> int option" where
  "null_ref act i r = (if act = SetNull \<and> r = Some i then None else r)"

definition delete_blocked :: "int \<Rightarrow> database \<Rightarrow> bool" where
  "delete_blocked i d \<longleftrightarrow>
     (\<exists>u \<in> set (t_users d). u_id u \<noteq> i \<and> u_created_by u = Some i)
     \<or> fk_operator d = NoAction \<and> (\<exists>a \<in> set (t_audit d). a_operator_id a = Some i)
     \<or> fk_target d = NoAction \<and> (\<exists>a \<in> set (t_audit d). a_target_user_id a = Some i)
     \<or> fk_session d = NoAction \<and> (\<exists>s \<in> set (t_sessions d). s_user_id s = i)"

definition sql_delete_user :: "int \<Rightarrow> database \<Rightarrow> (database \<times> int) option" where
  "sql_delete_user i d =
    (if i \<notin> user_ids d then Some (d, 0)
     else if delete_blocked i d then None
     else Some (d\<lparr>t_users := filter (\<lambda>u. u_id u \<noteq> i) (t_users d),
                  t_sessions := filter (\<lambda>s. s_user_id s \<noteq> i) (t_sessions d),
                  t_audit := map (\<lambda>a. a\<lparr>a_operator_id := null_ref (fk_operator d) i (a_operator_id a),
                                       a_target_user_id := null_ref (fk_target d) i (a_target_user_id a)\<rparr>)
                               (t_audit d)\<rparr>, 1))"

definition sql_insert_session :: "session_row \<Rightarrow> database \<Rightarrow> database option" where
  "sql_insert_session s d =
    (if s_sid s \<in> s_sid ` set (t_sessions d) \<or> s_user_id s \<notin> user_ids d then None
     else Some (d\<lparr>t_sessions := t_sessions d @ [s]\<rparr>))"

definition sql_delete_sessions :: "(session_row \<Rightarrow> bool) \<Rightarrow> database \<Rightarrow> database" where
  "sql_delete_sessions p d = d\<lparr>t_sessions := filter (\<lambda>s. \<not> p s) (t_sessions d)\<rparr>"

definition ref_ok :: "int set \<Rightarrow> int option \<Rightarrow> bool" where
  "ref_ok ids r = (case r of None \<Rightarrow> True | Some i \<Rightarrow> i \<in> ids)"

definition sql_insert_audit :: "audit_row \<Rightarrow> database \<Rightarrow> database option" where
  "sql_insert_audit a d =
    (if audit_seq d \<ge> max_rowid then None
     else if \<not> ref_ok (user_ids d) (a_operator_id a) \<or> \<not> ref_ok (user_ids d) (a_target_user_id a) then None
     else Some (d\<lparr>t_audit := t_audit d @ [a\<lparr>a_id := audit_seq d + 1\<rparr>], audit_seq := audit_seq d + 1\<rparr>))"

section \<open>What the engine may refuse\<close>

datatype sql_stmt =
    Q_session_insert | Q_last_login | Q_session_select | Q_session_delete | Q_session_cleanup
  | Q_login_select | Q_changed_at | Q_kick | Q_audit_insert | Q_user_insert | Q_role_select
  | Q_user_delete | Q_root_count | Q_user_enable | Q_user_passwd | Q_name_select
  | Q_hash_select | Q_users_count | Q_users_select | Q_fk_audit | Q_fk_sessions | Q_table_info
  | Q_migrate_audit | Q_migrate_sessions | Q_add_column | Q_root_exists | Q_root_update
  | Q_root_insert

record engine =
  open_ok :: "string \<Rightarrow> bool"
  create_ok :: bool
  prepare_ok :: "sql_stmt \<Rightarrow> bool"
  step_ok :: "sql_stmt \<Rightarrow> bool"

definition runs :: "engine \<Rightarrow> sql_stmt \<Rightarrow> bool" where
  "runs e q \<longleftrightarrow> prepare_ok e q \<and> step_ok e q"

definition healthy :: engine where
  "healthy = \<lparr>open_ok = (\<lambda>_. True), create_ok = True,
              prepare_ok = (\<lambda>_. True), step_ok = (\<lambda>_. True)\<rparr>"

section \<open>Well-formed databases\<close>

definition db_wf :: "database \<Rightarrow> bool" where
  "db_wf d \<longleftrightarrow> sorted_wrt (<) (map u_id (t_users d)) \<and> distinct (map u_username (t_users d))
     \<and> (\<forall>u \<in> set (t_users d). (u_role u = ''root'' \<or> u_role u = ''admin'')
           \<and> 1 \<le> u_id u \<and> u_id u \<le> users_seq d \<and> ref_ok (user_ids d) (u_created_by u))
     \<and> distinct (map s_sid (t_sessions d))
     \<and> (\<forall>s \<in> set (t_sessions d). s_user_id s \<in> user_ids d)
     \<and> distinct (map a_id (t_audit d))
     \<and> (\<forall>a \<in> set (t_audit d). a_id a \<le> audit_seq d
           \<and> ref_ok (user_ids d) (a_operator_id a) \<and> ref_ok (user_ids d) (a_target_user_id a))
     \<and> 0 \<le> users_seq d \<and> 0 \<le> audit_seq d"

definition schema_current :: "database \<Rightarrow> bool" where
  "schema_current d \<longleftrightarrow> fk_operator d = SetNull \<and> fk_target d = SetNull
     \<and> fk_session d = Cascade \<and> has_changed_at d"

section \<open>Lemmas\<close>

lemma find_unique:
  assumes "distinct (map f xs)" and "x \<in> set xs"
  shows "find (\<lambda>y. f y = f x) xs = Some x"
  using assms
proof (induction xs)
  case (Cons y ys)
  then show ?case by (auto simp: rev_image_eqI)
qed simp

lemma find_SomeD: "find P xs = Some x \<Longrightarrow> x \<in> set xs \<and> P x"
  by (metis find_Some_iff nth_mem)

lemma find_appendI: "find P xs = None \<Longrightarrow> P y \<Longrightarrow> find P (xs @ [y]) = Some y"
  by (induction xs) (auto split: if_splits)

lemma find_append_other: "\<not> P y \<Longrightarrow> find P (xs @ [y]) = find P xs"
  by (induction xs) auto

lemma lookup_userD: "lookup_user i d = Some u \<Longrightarrow> u \<in> set (t_users d) \<and> u_id u = i"
  unfolding lookup_user_def by (drule find_SomeD) simp

lemma lookup_nameD: "lookup_name n d = Some u \<Longrightarrow> u \<in> set (t_users d) \<and> u_username u = n"
  unfolding lookup_name_def by (drule find_SomeD) simp

lemma lookup_sessionD: "lookup_session k d = Some s \<Longrightarrow> s \<in> set (t_sessions d) \<and> s_sid s = k"
  unfolding lookup_session_def by (drule find_SomeD) simp

lemma lookup_user_None: "lookup_user i d = None \<longleftrightarrow> i \<notin> user_ids d"
  by (auto simp: lookup_user_def user_ids_def find_None_iff)

lemma wf_distinct_ids: "db_wf d \<Longrightarrow> distinct (map u_id (t_users d))"
  by (simp add: db_wf_def strict_sorted_iff)

lemma lookup_user_in: "db_wf d \<Longrightarrow> u \<in> set (t_users d) \<Longrightarrow> lookup_user (u_id u) d = Some u"
  unfolding lookup_user_def by (rule find_unique [OF wf_distinct_ids])

lemma lookup_name_in: "db_wf d \<Longrightarrow> u \<in> set (t_users d) \<Longrightarrow> lookup_name (u_username u) d = Some u"
  unfolding lookup_name_def by (rule find_unique) (simp_all add: db_wf_def)

lemma lookup_session_in: "db_wf d \<Longrightarrow> s \<in> set (t_sessions d) \<Longrightarrow> lookup_session (s_sid s) d = Some s"
  unfolding lookup_session_def by (rule find_unique) (simp_all add: db_wf_def)

lemma user_ids_update [simp]:
  "(\<And>u. u_id (f u) = u_id u) \<Longrightarrow> user_ids (sql_update_users p f d) = user_ids d"
proof -
  assume "\<And>u. u_id (f u) = u_id u"
  then have "map u_id (t_users (sql_update_users p f d)) = map u_id (t_users d)"
    by (simp add: sql_update_users_def)
  then show ?thesis unfolding user_ids_def by (metis set_map)
qed

lemma user_ids_frame [simp]: "user_ids (d\<lparr>t_sessions := x\<rparr>) = user_ids d"
  "user_ids (d\<lparr>t_audit := y\<rparr>) = user_ids d" "user_ids (d\<lparr>audit_seq := z\<rparr>) = user_ids d"
  "user_ids (d\<lparr>users_seq := z\<rparr>) = user_ids d"
  by (simp_all add: user_ids_def)

lemma user_ids_delete_sessions [simp]: "user_ids (sql_delete_sessions p d) = user_ids d"
  by (simp add: sql_delete_sessions_def)

lemma ref_ok_simps [simp]: "ref_ok S None" "ref_ok S (Some i) \<longleftrightarrow> i \<in> S"
  by (simp_all add: ref_ok_def)

lemma ref_ok_mono: "ref_ok S r \<Longrightarrow> S \<subseteq> S' \<Longrightarrow> ref_ok S' r"
  by (cases r) auto

lemma wf_empty [wf_intros]: "db_wf empty_db"
  by (simp add: db_wf_def empty_db_def)

lemma wf_insert_user [wf_intros]:
  assumes "db_wf d" "sql_insert_user u d = Some (d', i)"
  shows "db_wf d'"
proof -
  have d': "d' = d\<lparr>t_users := t_users d @ [u\<lparr>u_id := i\<rparr>], users_seq := i\<rparr>" and i: "i = users_seq d + 1"
    and n: "u_username u \<notin> u_username ` set (t_users d)"
    and r: "u_role u = ''root'' \<or> u_role u = ''admin''"
    and c: "ref_ok (insert i (user_ids d)) (u_created_by u)"
    using assms(2) by (auto simp: sql_insert_user_def Let_def split: if_splits option.splits)
  have ids: "user_ids d' = insert i (user_ids d)"
    by (simp add: d' user_ids_def)
  have fresh: "i \<notin> u_id ` set (t_users d)"
    using assms(1) by (auto simp: db_wf_def i)
  show ?thesis
    using assms(1) fresh n r c i unfolding db_wf_def ids
    by (auto simp: d' sorted_wrt_append intro: ref_ok_mono)
qed

lemma wf_update_users [wf_intros]:
  assumes "db_wf d" and "\<And>u. u_id (f u) = u_id u" and "\<And>u. u_username (f u) = u_username u"
    and "\<And>u. u_role (f u) = u_role u" and "\<And>u. u_created_by (f u) = u_created_by u"
  shows "db_wf (sql_update_users p f d)"
proof -
  have ids: "user_ids (sql_update_users p f d) = user_ids d"
    by (simp add: assms(2))
  have m: "map u_id (t_users (sql_update_users p f d)) = map u_id (t_users d)"
    "map u_username (t_users (sql_update_users p f d)) = map u_username (t_users d)"
    by (simp_all add: sql_update_users_def assms comp_def if_distrib cong: if_cong)
  show ?thesis
    using assms(1) unfolding db_wf_def ids m
    by (auto simp: sql_update_users_def assms)
qed

lemma wf_delete_sessions [wf_intros]: "db_wf d \<Longrightarrow> db_wf (sql_delete_sessions p d)"
  unfolding db_wf_def by (auto simp: sql_delete_sessions_def distinct_map_filter)

lemma wf_insert_session [wf_intros]:
  "db_wf d \<Longrightarrow> sql_insert_session s d = Some d' \<Longrightarrow> db_wf d'"
  by (auto simp: db_wf_def sql_insert_session_def split: if_splits)

lemma wf_insert_audit [wf_intros]:
  assumes "db_wf d" "sql_insert_audit a d = Some d'"
  shows "db_wf d'"
proof -
  have d': "d' = d\<lparr>t_audit := t_audit d @ [a\<lparr>a_id := audit_seq d + 1\<rparr>], audit_seq := audit_seq d + 1\<rparr>"
    and r: "ref_ok (user_ids d) (a_operator_id a)" "ref_ok (user_ids d) (a_target_user_id a)"
    using assms(2) by (auto simp: sql_insert_audit_def split: if_splits)
  have "audit_seq d + 1 \<notin> a_id ` set (t_audit d)" "\<forall>b \<in> set (t_audit d). a_id b \<le> audit_seq d + 1"
    using assms(1) by (auto simp: db_wf_def intro: order_trans)
  with assms(1) r show ?thesis by (simp add: db_wf_def d')
qed

lemma user_ids_filter: "user_ids (d\<lparr>t_users := filter (\<lambda>u. u_id u \<noteq> i) (t_users d)\<rparr>) = user_ids d - {i}"
  by (auto simp: user_ids_def)

lemma sql_delete_userD:
  assumes "sql_delete_user i d = Some (d', n)" "0 < n"
  shows "i \<in> user_ids d" "\<not> delete_blocked i d" "user_ids d' = user_ids d - {i}"
    "t_users d' = filter (\<lambda>u. u_id u \<noteq> i) (t_users d)"
    "t_sessions d' = filter (\<lambda>s. s_user_id s \<noteq> i) (t_sessions d)"
    "users_seq d' = users_seq d" "audit_seq d' = audit_seq d"
    "t_audit d' = map (\<lambda>a. a\<lparr>a_operator_id := null_ref (fk_operator d) i (a_operator_id a),
                            a_target_user_id := null_ref (fk_target d) i (a_target_user_id a)\<rparr>) (t_audit d)"
  using assms by (auto simp: sql_delete_user_def user_ids_def split: if_splits)

lemma null_ref_ok:
  "ref_ok S r \<Longrightarrow> act = SetNull \<or> r \<noteq> Some i \<Longrightarrow> ref_ok (S - {i}) (null_ref act i r)"
  by (cases r) (auto simp: null_ref_def)

text \<open>The foreign keys of a table declare the actions SET NULL or CASCADE, or none.\<close>

definition fks_wf :: "database \<Rightarrow> bool" where
  "fks_wf d \<longleftrightarrow> fk_operator d \<noteq> Cascade \<and> fk_target d \<noteq> Cascade \<and> fk_session d \<noteq> SetNull"

lemma schema_current_fks: "schema_current d \<Longrightarrow> fks_wf d"
  by (simp add: schema_current_def fks_wf_def)

lemma wf_delete_user [wf_intros]:
  assumes wf: "db_wf d" and fks: "fks_wf d" and del: "sql_delete_user i d = Some (d', n)"
  shows "db_wf d'"
proof (cases "0 < n")
  case True
  note D = sql_delete_userD [OF del True]
  let ?S = "user_ids d - {i}"
  have op: "ref_ok ?S (null_ref (fk_operator d) i (a_operator_id a))"
    and tg: "ref_ok ?S (null_ref (fk_target d) i (a_target_user_id a))" if "a \<in> set (t_audit d)" for a
  proof -
    have "ref_ok (user_ids d) (a_operator_id a)" "ref_ok (user_ids d) (a_target_user_id a)"
      using wf that by (simp_all add: db_wf_def)
    moreover have "fk_operator d = SetNull \<or> a_operator_id a \<noteq> Some i"
      "fk_target d = SetNull \<or> a_target_user_id a \<noteq> Some i"
      using D(2) fks that by (cases "fk_operator d"; cases "fk_target d";
          auto simp: delete_blocked_def fks_wf_def)+
    ultimately show "ref_ok ?S (null_ref (fk_operator d) i (a_operator_id a))"
      "ref_ok ?S (null_ref (fk_target d) i (a_target_user_id a))"
      by (blast intro: null_ref_ok)+
  qed
  have cb: "ref_ok ?S (u_created_by u)" if "u \<in> set (t_users d)" "u_id u \<noteq> i" for u
    using wf D(2) that by (cases "u_created_by u") (auto simp: db_wf_def delete_blocked_def)
  have "sorted_wrt (<) (map u_id (filter (\<lambda>u. u_id u \<noteq> i) (t_users d)))"
    using wf by (simp add: db_wf_def sorted_wrt_map sorted_wrt_filter)
  then show ?thesis
    using wf op tg cb unfolding db_wf_def D(3-8)
    by (auto simp: distinct_map_filter comp_def)
next
  case False
  with del have "d' = d" by (auto simp: sql_delete_user_def split: if_splits)
  with wf show ?thesis by simp
qed

end
