(* ===== verification/Auth.thy ===== *)
theory Auth
  imports Database Sha256
begin

text \<open>
  The authentication library \<open>src/auth.c\<close>: opening the database and migrating old schemas,
  random tokens, sessions, the salted and iterated password hash, login, the password policy
  and its expiry, roles, CSRF tokens and the audit trail.

  The module's globals \<open>g_db\<close> and \<open>g_db_path\<close> and the files they may refer to are the record
  \<open>auth_state\<close>; everything the process reads from outside (environment, standard input,
  clock, random source, health of the database engine) is the record \<open>env\<close>.  The clock is
  read as one instant per request.
\<close>

section \<open>State and environment\<close>

text \<open>\<open>Urandom bs\<close>: \<open>/dev/urandom\<close> was opened and \<open>read\<close> delivered \<open>bs\<close>;
  \<open>NoUrandom r\<close>: it could not be opened, \<open>r\<close> are the values of \<open>rand()\<close>.\<close>

datatype entropy = Urandom bytes | NoUrandom "nat \<Rightarrow> int"

record env =
  getenv :: "string \<Rightarrow> string option"
  stdin_data :: string
  time_now :: int
  eng :: engine
  ent_sid :: entropy
  ent_csrf :: entropy
  ent_salt :: entropy

record auth_state =
  g_db :: "string option"
  g_db_path :: string
  disk :: "string \<Rightarrow> database option"

definition cur :: "'a auth_state_scheme \<Rightarrow> database option" where
  "cur st = (case g_db st of None \<Rightarrow> None | Some p \<Rightarrow> disk st p)"

definition set_cur :: "database \<Rightarrow> 'a auth_state_scheme \<Rightarrow> 'a auth_state_scheme" where
  "set_cur d st = (case g_db st of None \<Rightarrow> st | Some p \<Rightarrow> st\<lparr>disk := (disk st)(p := Some d)\<rparr>)"

section \<open>Tokens\<close>

definition fill_random :: "entropy \<Rightarrow> int \<Rightarrow> nat \<Rightarrow> bytes" where
  "fill_random e t n = (case e of
      NoUrandom r \<Rightarrow> map (\<lambda>i. word_of_int (r i XOR t)) [0..<n]
    | Urandom bs \<Rightarrow> take n bs @ replicate (n - length bs) 0)"

definition auth_generate_token :: "entropy \<Rightarrow> int \<Rightarrow> nat \<Rightarrow> string" where
  "auth_generate_token e t len = hex_encode (fill_random e t (len div 2))"

abbreviation (input) SESSION_ID_LEN :: nat where "SESSION_ID_LEN \<equiv> 64"
abbreviation (input) CSRF_TOKEN_LEN :: nat where "CSRF_TOKEN_LEN \<equiv> 32"
abbreviation (input) SESSION_EXPIRE :: int where "SESSION_EXPIRE \<equiv> 3600"

section \<open>Sessions\<close>

definition auth_session_cleanup :: "env \<Rightarrow> 'a auth_state_scheme \<Rightarrow> 'a auth_state_scheme" where
  "auth_session_cleanup e st = (case cur st of None \<Rightarrow> st
     | Some d \<Rightarrow> if runs (eng e) Q_session_cleanup
                 then set_cur (sql_delete_sessions (\<lambda>s. s_expires_at s < time_now e) d) st else st)"

definition auth_cleanup :: "env \<Rightarrow> 'a auth_state_scheme \<Rightarrow> 'a auth_state_scheme" where
  "auth_cleanup e st = (if g_db st = None then st
     else (auth_session_cleanup e st)\<lparr>g_db := None, g_db_path := []\<rparr>)"

definition auth_session_create ::
  "env \<Rightarrow> int \<Rightarrow> string option \<Rightarrow> 'a auth_state_scheme \<Rightarrow> 'a auth_state_scheme \<times> (string \<times> string) option" where
  "auth_session_create e user_id client_ip st = (case cur st of None \<Rightarrow> (st, None)
     | Some d \<Rightarrow>
       let now = time_now e;
           sid = auth_generate_token (ent_sid e) now SESSION_ID_LEN;
           csrf = auth_generate_token (ent_csrf e) now CSRF_TOKEN_LEN;
           row = \<lparr>s_sid = sid, s_user_id = user_id, s_csrf_token = csrf, s_created_at = now,
                  s_expires_at = now + SESSION_EXPIRE,
                  s_client_ip = (case client_ip of None \<Rightarrow> [] | Some a \<Rightarrow> a)\<rparr>
       in if \<not> runs (eng e) Q_session_insert then (st, None)
          else (case sql_insert_session row d of None \<Rightarrow> (st, None)
            | Some d1 \<Rightarrow>
              let d2 = (if runs (eng e) Q_last_login
                        then sql_update_users (\<lambda>u. u_id u = user_id)
                               (\<lambda>u. u\<lparr>u_last_login_at := Some now\<rparr>) d1
                        else d1)
              in (set_cur d2 st, Some (sid, csrf))))"

record SessionInfo =
  si_user_id :: int
  si_username :: string
  si_role :: string
  si_csrf_token :: string

definition auth_session_verify :: "env \<Rightarrow> string option \<Rightarrow> 'a auth_state_scheme \<Rightarrow> SessionInfo option" where
  "auth_session_verify e sid st = (case (cur st, sid) of
     (Some d, Some k) \<Rightarrow>
       if length k \<noteq> SESSION_ID_LEN \<or> \<not> runs (eng e) Q_session_select then None
       else (case find (\<lambda>s. s_sid s = k \<and> s_expires_at s > time_now e) (t_sessions d) of
           None \<Rightarrow> None
         | Some s \<Rightarrow> (case lookup_user (s_user_id s) d of
             None \<Rightarrow> None
           | Some u \<Rightarrow> if to_int32 (u_enabled u) = 0 then None
               else Some \<lparr>si_user_id = to_int32 (s_user_id s),
                          si_username = snprintf_s 64 (u_username u),
                          si_role = snprintf_s 16 (u_role u),
                          si_csrf_token = snprintf_s (CSRF_TOKEN_LEN + 1) (s_csrf_token s)\<rparr>))
   | _ \<Rightarrow> None)"

definition auth_session_destroy :: "env \<Rightarrow> string option \<Rightarrow> 'a auth_state_scheme \<Rightarrow> 'a auth_state_scheme" where
  "auth_session_destroy e sid st = (case (cur st, sid) of
     (Some d, Some k) \<Rightarrow> if runs (eng e) Q_session_delete
        then set_cur (sql_delete_sessions (\<lambda>s. s_sid s = k) d) st else st
   | _ \<Rightarrow> st)"

definition auth_kick_user_sessions ::
  "env \<Rightarrow> int \<Rightarrow> string option \<Rightarrow> 'a auth_state_scheme \<Rightarrow> 'a auth_state_scheme" where
  "auth_kick_user_sessions e user_id keep_sid st = (case cur st of None \<Rightarrow> st
     | Some d \<Rightarrow> if user_id \<le> 0 \<or> \<not> runs (eng e) Q_kick then st
         else set_cur (sql_delete_sessions (\<lambda>s. s_user_id s = user_id \<and>
                (case keep_sid of None \<Rightarrow> True | Some k \<Rightarrow> s_sid s \<noteq> k)) d) st)"

section \<open>Audit trail\<close>

definition auth_audit_log ::
  "env \<Rightarrow> int \<Rightarrow> string \<Rightarrow> int \<Rightarrow> string option \<Rightarrow> string option \<Rightarrow> 'a auth_state_scheme \<Rightarrow> 'a auth_state_scheme" where
  "auth_audit_log e operator_id action target_user_id detail client_ip st =
    (case cur st of None \<Rightarrow> st
     | Some d \<Rightarrow> if \<not> runs (eng e) Q_audit_insert then st
         else (case sql_insert_audit
                 \<lparr>a_id = 0, a_operator_id = Some operator_id, a_action = action,
                  a_target_user_id = Some target_user_id,
                  a_detail = (case detail of None \<Rightarrow> [] | Some x \<Rightarrow> x),
                  a_client_ip = (case client_ip of None \<Rightarrow> [] | Some x \<Rightarrow> x),
                  a_created_at = time_now e\<rparr> d of
               None \<Rightarrow> st | Some d' \<Rightarrow> set_cur d' st))"

section \<open>Opening the database and migrating it\<close>

text \<open>\<open>migrate_delete_fks\<close> rebuilds \<open>audit_log\<close> and \<open>sessions\<close> when one of their foreign keys
  to \<open>users\<close> has another delete action than the current schema.  Copying the rows into the
  rebuilt table re-checks the foreign keys; any error rolls the transaction back.\<close>

definition migrate_audit :: "engine \<Rightarrow> database \<Rightarrow> database" where
  "migrate_audit e d =
    (if prepare_ok e Q_fk_audit \<and> step_ok e Q_fk_audit
        \<and> (fk_operator d \<noteq> SetNull \<or> fk_target d \<noteq> SetNull)
     then if step_ok e Q_migrate_audit
             \<and> (\<forall>a \<in> set (t_audit d). ref_ok (user_ids d) (a_operator_id a)
                                     \<and> ref_ok (user_ids d) (a_target_user_id a))
          then d\<lparr>fk_operator := SetNull, fk_target := SetNull,
                 audit_seq := foldr max (map a_id (t_audit d)) 0\<rparr>
          else d
     else d)"

definition migrate_sessions :: "engine \<Rightarrow> database \<Rightarrow> database" where
  "migrate_sessions e d =
    (if prepare_ok e Q_fk_sessions \<and> step_ok e Q_fk_sessions \<and> fk_session d \<noteq> Cascade
     then if step_ok e Q_migrate_sessions
             \<and> (\<forall>s \<in> set (t_sessions d). s_user_id s \<in> user_ids d)
          then d\<lparr>fk_session := Cascade\<rparr> else d
     else d)"

definition migrate_delete_fks :: "engine \<Rightarrow> database \<Rightarrow> database" where
  "migrate_delete_fks e d = migrate_sessions e (migrate_audit e d)"

text \<open>\<open>migrate_password_policy\<close>: the column is looked for with \<open>PRAGMA table_info\<close>; when the
  probe does not show it, \<open>ALTER TABLE\<close> adds it with default 0 (and fails when it is there).\<close>

definition migrate_password_policy :: "engine \<Rightarrow> database \<Rightarrow> database" where
  "migrate_password_policy e d =
    (let found = prepare_ok e Q_table_info \<and> step_ok e Q_table_info \<and> has_changed_at d
     in if \<not> found \<and> step_ok e Q_add_column \<and> \<not> has_changed_at d
        then d\<lparr>t_users := map (\<lambda>u. u\<lparr>u_password_changed_at := 0\<rparr>) (t_users d),
               has_changed_at := True\<rparr>
        else d)"

definition auth_init :: "env \<Rightarrow> string \<Rightarrow> 'a auth_state_scheme \<Rightarrow> 'a auth_state_scheme \<times> int" where
  "auth_init e db_path st =
    (if g_db st \<noteq> None \<and> g_db_path st = db_path then (st, 0)
     else
       let st1 = auth_cleanup e st in
       if \<not> open_ok (eng e) db_path then (st1\<lparr>g_db := None\<rparr>, -1)
       else
         let st2 = st1\<lparr>g_db := Some db_path, g_db_path := snprintf_s 256 db_path\<rparr> in
         if \<not> create_ok (eng e) then (auth_cleanup e st2, -1)
         else
           let d = (case disk st2 db_path of None \<Rightarrow> empty_db | Some d \<Rightarrow> d) in
           (set_cur (migrate_password_policy (eng e) (migrate_delete_fks (eng e) d)) st2, 0))"

section \<open>Password hash\<close>

abbreviation (input) PASSWORD_ROUNDS :: int where "PASSWORD_ROUNDS \<equiv> 100000"
abbreviation (input) PASSWORD_SALT_LEN :: nat where "PASSWORD_SALT_LEN \<equiv> 16"

text \<open>The context lives on the stack and its buffer starts with whatever was there; the lemma
  \<open>hash1_spec\<close> below shows that it does not matter.\<close>

definition fresh_ctx :: sha256_ctx where
  "fresh_ctx = sha256_init (replicate 64 0)"

definition le32 :: "int \<Rightarrow> bytes" where
  "le32 r = (let w = word_of_int r :: u32
             in [ucast w, ucast (drop_bit 8 w), ucast (drop_bit 16 w), ucast (drop_bit 24 w)])"

definition first_hash :: "string \<Rightarrow> string \<Rightarrow> bytes" where
  "first_hash salt_hex password =
     sha256_final (sha256_update fresh_ctx (map byte_of_char (salt_hex @ '':'' @ password)))"

definition hash_round :: "bytes \<Rightarrow> int \<Rightarrow> bytes" where
  "hash_round digest round =
     sha256_final (sha256_update (sha256_update fresh_ctx digest) (le32 round))"

text \<open>\<open>for (round = 1; round < rounds; round++)\<close>.\<close>

definition hash_rounds :: "bytes \<Rightarrow> int \<Rightarrow> bytes" where
  "hash_rounds digest rounds = foldl hash_round digest (map int [1..<nat rounds])"

definition auth_hash_password :: "env \<Rightarrow> string option \<Rightarrow> nat \<Rightarrow> string option" where
  "auth_hash_password e password max_hash = (case password of None \<Rightarrow> None
     | Some pw \<Rightarrow>
       if max_hash < 128 then None
       else if length pw < 1 \<or> length pw > 64 then None
       else
         let salt_hex = hex_encode (fill_random (ent_salt e) (time_now e) PASSWORD_SALT_LEN);
             digest = hash_rounds (first_hash salt_hex pw) PASSWORD_ROUNDS;
             text = ''$5$rounds='' @ dec_int PASSWORD_ROUNDS @ ''$'' @ salt_hex @ ''$'' @ hex_encode digest
         in if length text < max_hash then Some text else None)"

definition auth_verify_password :: "string option \<Rightarrow> string option \<Rightarrow> bool" where
  "auth_verify_password password stored_hash = (case (password, stored_hash) of
     (Some pw, Some h) \<Rightarrow>
       if length pw < 1 \<or> length pw > 64 then False
       else if \<not> has_prefix ''$5$rounds='' h then False
       else
         let p = drop 10 h; rounds = atoi p in
         (case after_chr (CHR ''$'') p of None \<Rightarrow> False
          | Some q \<Rightarrow> (case after_chr (CHR ''$'') q of None \<Rightarrow> False
            | Some stored_digest \<Rightarrow>
              let salt_hex = before_chr (CHR ''$'') q in
              if length salt_hex \<noteq> PASSWORD_SALT_LEN * 2 then False
              else hex_encode (hash_rounds (first_hash salt_hex pw) rounds) = stored_digest))
   | _ \<Rightarrow> False)"

section \<open>Login\<close>

definition auth_user_login :: "env \<Rightarrow> string option \<Rightarrow> string option \<Rightarrow> 'a auth_state_scheme \<Rightarrow> int" where
  "auth_user_login e username password st = (case (cur st, username, password) of
     (Some d, Some n, Some pw) \<Rightarrow>
       if \<not> runs (eng e) Q_login_select then -1
       else (case find (\<lambda>u. u_username u = n \<and> u_enabled u = 1) (t_users d) of
           None \<Rightarrow> -1
         | Some u \<Rightarrow> if auth_verify_password (Some pw) (Some (u_password_hash u))
                     then to_int32 (u_id u) else -1)
   | _ \<Rightarrow> -1)"

section \<open>Password policy\<close>

abbreviation (input) PASSWORD_MIN_LEN :: nat where "PASSWORD_MIN_LEN \<equiv> 10"
abbreviation (input) PASSWORD_MAX_LEN :: nat where "PASSWORD_MAX_LEN \<equiv> 64"
abbreviation (input) PASSWORD_EXPIRE_DAYS :: int where "PASSWORD_EXPIRE_DAYS \<equiv> 90"

definition msg_policy_length :: string where
  "msg_policy_length = (utf8 [0xE5, 0xAF, 0x86, 0xE7, 0xA0, 0x81, 0xE9, 0x95, 0xBF, 0xE5, 0xBA, 0xA6, 0xE9, 0x9C, 0x80, 0xE4, 0xB8, 0xBA] @ '' 10-64 '' @ utf8 [0xE4, 0xB8, 0xAA, 0xE5, 0xAD, 0x97, 0xE7, 0xAC, 0xA6])"

definition msg_policy_charset :: string where
  "msg_policy_charset = (utf8 [0xE5, 0xAF, 0x86, 0xE7, 0xA0, 0x81, 0xE5, 0x8F, 0xAA, 0xE8, 0x83, 0xBD, 0xE5, 0x8C, 0x85, 0xE5, 0x90, 0xAB] @ '' ASCII '' @ utf8 [0xE5, 0x8F, 0xAF, 0xE8, 0xA7, 0x81, 0xE5, 0xAD, 0x97, 0xE7, 0xAC, 0xA6] @ ''('' @ utf8 [0xE4, 0xB8, 0x8D, 0xE5, 0x85, 0x81, 0xE8, 0xAE, 0xB8, 0xE4, 0xB8, 0xAD, 0xE6, 0x96, 0x87, 0xE3, 0x80, 0x81, 0xE7, 0xA9, 0xBA, 0xE6, 0xA0, 0xBC] @ '')'')"

definition msg_policy_classes :: string where
  "msg_policy_classes = (utf8 [0xE5, 0xAF, 0x86, 0xE7, 0xA0, 0x81, 0xE9, 0x9C, 0x80, 0xE5, 0x8C, 0x85, 0xE5, 0x90, 0xAB, 0xE5, 0xA4, 0xA7, 0xE5, 0x86, 0x99, 0xE5, 0xAD, 0x97, 0xE6, 0xAF, 0x8D, 0xE3, 0x80, 0x81, 0xE5, 0xB0, 0x8F, 0xE5, 0x86, 0x99, 0xE5, 0xAD, 0x97, 0xE6, 0xAF, 0x8D, 0xE3, 0x80, 0x81, 0xE6, 0x95, 0xB0, 0xE5, 0xAD, 0x97, 0xE5, 0x92, 0x8C, 0xE7, 0x89, 0xB9, 0xE6, 0xAE, 0x8A, 0xE7, 0xAC, 0xA6, 0xE5, 0x8F, 0xB7])"

text \<open>The scan of \<open>auth_password_policy_ok\<close> with its four flags; \<open>None\<close> when a byte is outside
  0x21..0x7E.\<close>

fun policy_scan :: "bool \<Rightarrow> bool \<Rightarrow> bool \<Rightarrow> bool \<Rightarrow> string \<Rightarrow> (bool \<times> bool \<times> bool \<times> bool) option" where
  "policy_scan up lo dg pu [] = Some (up, lo, dg, pu)"
| "policy_scan up lo dg pu (c # cs) =
     (if code c < 0x21 \<or> code c > 0x7E then None
      else if c_isupper c then policy_scan True lo dg pu cs
      else if c_islower c then policy_scan up True dg pu cs
      else if c_isdigit c then policy_scan up lo True pu cs
      else policy_scan up lo dg True cs)"

text \<open>\<open>None\<close>: accepted; \<open>Some m\<close>: refused with message \<open>m\<close>.\<close>

definition auth_password_policy_ok :: "string \<Rightarrow> string option" where
  "auth_password_policy_ok password =
    (if length password < PASSWORD_MIN_LEN \<or> length password > PASSWORD_MAX_LEN
     then Some msg_policy_length
     else (case policy_scan False False False False password of
         None \<Rightarrow> Some msg_policy_charset
       | Some (up, lo, dg, pu) \<Rightarrow>
           if \<not> up \<or> \<not> lo \<or> \<not> dg \<or> \<not> pu then Some msg_policy_classes else None))"

definition auth_user_password_changed_at :: "env \<Rightarrow> int \<Rightarrow> 'a auth_state_scheme \<Rightarrow> int option" where
  "auth_user_password_changed_at e user_id st = (case cur st of None \<Rightarrow> None
     | Some d \<Rightarrow> if user_id \<le> 0 \<or> \<not> runs (eng e) Q_changed_at \<or> \<not> has_changed_at d then None
                 else map_option u_password_changed_at (lookup_user user_id d))"

definition auth_user_must_change_password :: "env \<Rightarrow> int \<Rightarrow> 'a auth_state_scheme \<Rightarrow> bool" where
  "auth_user_must_change_password e user_id st =
    (case auth_user_password_changed_at e user_id st of None \<Rightarrow> False
     | Some changed_at \<Rightarrow> changed_at = 0
         \<or> time_now e - changed_at \<ge> PASSWORD_EXPIRE_DAYS * 86400)"

definition auth_user_days_left :: "env \<Rightarrow> int \<Rightarrow> 'a auth_state_scheme \<Rightarrow> int" where
  "auth_user_days_left e user_id st =
    (case auth_user_password_changed_at e user_id st of None \<Rightarrow> -1
     | Some changed_at \<Rightarrow>
         if changed_at = 0 then 0
         else let days = cdiv (PASSWORD_EXPIRE_DAYS * 86400 - (time_now e - changed_at)) 86400
              in if days < 0 then 0 else to_int32 days)"

section \<open>Roles and CSRF\<close>

definition auth_require_role :: "SessionInfo \<Rightarrow> string \<Rightarrow> bool" where
  "auth_require_role s role \<longleftrightarrow> si_role s = ''root'' \<or> si_role s = role"

definition auth_csrf_verify :: "SessionInfo \<Rightarrow> string option \<Rightarrow> bool" where
  "auth_csrf_verify s token = (case token of None \<Rightarrow> False | Some t \<Rightarrow> si_csrf_token s = t)"

section \<open>The current database\<close>

lemma cur_SomeD: "cur st = Some d \<Longrightarrow> g_db st \<noteq> None"
  by (auto simp: cur_def split: option.splits)

lemma g_db_set_cur [simp]: "g_db (set_cur d st) = g_db st" "g_db_path (set_cur d st) = g_db_path st"
  by (simp_all add: set_cur_def split: option.splits)

lemma cur_set_cur: "g_db st \<noteq> None \<Longrightarrow> cur (set_cur d st) = Some d"
  by (auto simp: set_cur_def cur_def)

lemma cur_set_cur' [simp]: "cur st = Some d \<Longrightarrow> cur (set_cur d' st) = Some d'"
  by (rule cur_set_cur) (rule cur_SomeD)

lemma runs_healthy [simp]: "runs healthy q" "prepare_ok healthy q" "step_ok healthy q"
  "create_ok healthy" "open_ok healthy p"
  by (simp_all add: runs_def healthy_def)

text \<open>The audit entry as a function of the database.\<close>

lemma cur_audit_log:
  assumes "cur st = Some d"
  obtains d' where "cur (auth_audit_log e op act tg det ip st) = Some d'"
    "t_users d' = t_users d" "t_sessions d' = t_sessions d" "db_wf d \<Longrightarrow> db_wf d'"
    "fks_wf d' = fks_wf d" "schema_current d' = schema_current d" "users_seq d' = users_seq d"
proof (cases "\<not> runs (eng e) Q_audit_insert")
  case True
  then show ?thesis using assms that by (auto simp: auth_audit_log_def)
next
  case False
  let ?row = "\<lparr>a_id = 0, a_operator_id = Some op, a_action = act, a_target_user_id = Some tg,
               a_detail = (case det of None \<Rightarrow> [] | Some x \<Rightarrow> x),
               a_client_ip = (case ip of None \<Rightarrow> [] | Some x \<Rightarrow> x), a_created_at = time_now e\<rparr>"
  show ?thesis
  proof (cases "sql_insert_audit ?row d")
    case None
    then show ?thesis using assms False that by (auto simp: auth_audit_log_def)
  next
    case (Some d')
    then have "cur (auth_audit_log e op act tg det ip st) = Some d'"
      using assms False by (simp add: auth_audit_log_def)
    moreover have "t_users d' = t_users d" "t_sessions d' = t_sessions d"
      "fks_wf d' = fks_wf d" "schema_current d' = schema_current d" "users_seq d' = users_seq d"
      using Some by (auto simp: sql_insert_audit_def fks_wf_def schema_current_def split: if_splits)
    moreover have "db_wf d \<Longrightarrow> db_wf d'"
      using Some by (auto intro: wf_insert_audit)
    ultimately show ?thesis using that by blast
  qed
qed

lemma g_db_audit_log [simp]: "g_db (auth_audit_log e op act tg det ip st) = g_db st"
  by (simp add: auth_audit_log_def split: option.splits)

lemma g_db_kick [simp]: "g_db (auth_kick_user_sessions e i k st) = g_db st"
  by (simp add: auth_kick_user_sessions_def split: option.splits)

lemma length_fill_random [simp]: "length (fill_random e t n) = n"
  by (auto simp: fill_random_def split: entropy.split)

section \<open>Password hash\<close>

lemma hash1_spec: "length junk = 64 \<Longrightarrow>
    sha256_final (sha256_update (sha256_init junk) m) = fips_sha256 m"
  using repr_final [OF repr_update [OF repr_init], of junk m] by simp

lemma first_hash_spec: "first_hash salt pw = fips_sha256 (map byte_of_char (salt @ '':'' @ pw))"
  unfolding first_hash_def fresh_ctx_def by (rule hash1_spec) simp

lemma hash_round_spec: "hash_round dg r = fips_sha256 (dg @ le32 r)"
proof -
  have "repr (sha256_update (sha256_update fresh_ctx dg) (le32 r)) (([] @ dg) @ le32 r)"
    unfolding fresh_ctx_def by (intro repr_update repr_init) simp
  then show ?thesis unfolding hash_round_def by (simp add: repr_final)
qed

lemma length_hash_rounds: "length dg = 32 \<Longrightarrow> length (hash_rounds dg n) = 32"
proof -
  assume "length dg = 32"
  then have "length (foldl hash_round dg rs) = 32" for rs
    by (induction rs arbitrary: dg) (simp_all add: hash_round_spec)
  then show ?thesis by (simp add: hash_rounds_def)
qed

text \<open>The stored form of a hash, and what verification does with it.\<close>

definition stored_form :: "string \<Rightarrow> string \<Rightarrow> string" where
  "stored_form salt_hex hash_hex =
     ''$5$rounds='' @ ''100000'' @ CHR ''$'' # salt_hex @ CHR ''$'' # hash_hex"

lemma dec_rounds: "dec_int 100000 = ''100000''"
  by (simp add: dec_int_def dec_nat.simps)

lemma atoi_rounds: "atoi (''100000'' @ CHR ''$'' # s) = 100000"
  by (simp add: atoi_def strtol10_def split_sign_def c_isspace_def c_isdigit_def dec_val_def
      digit_val_def Let_def)

lemma dollar_not_xdigit: "(\<And>c. c \<in> set s \<Longrightarrow> c_isxdigit c) \<Longrightarrow> CHR ''$'' \<notin> set s"
  by (force simp: c_isxdigit_def c_isdigit_def)

lemma verify_stored_form:
  assumes "length pw \<in> {1..64}" and "length salt = 32" and "\<And>c. c \<in> set salt \<Longrightarrow> c_isxdigit c"
  shows "auth_verify_password (Some pw) (Some (stored_form salt hh)) \<longleftrightarrow>
         hex_encode (hash_rounds (first_hash salt pw) 100000) = hh"
proof -
  have d: "CHR ''$'' \<notin> set salt" by (rule dollar_not_xdigit) (rule assms(3))
  have p: "drop 10 (stored_form salt hh) = ''100000'' @ CHR ''$'' # (salt @ CHR ''$'' # hh)"
    by (simp add: stored_form_def)
  have "after_chr (CHR ''$'') (''100000'' @ CHR ''$'' # (salt @ CHR ''$'' # hh))
        = Some (salt @ CHR ''$'' # hh)"
    by (rule after_chr_stop) simp
  moreover have "has_prefix ''$5$rounds='' (stored_form salt hh)"
    by (simp add: stored_form_def has_prefix_def)
  moreover have "atoi (''100000'' @ CHR ''$'' # (salt @ CHR ''$'' # hh)) = 100000"
    by (rule atoi_rounds)
  ultimately show ?thesis
    using assms d by (auto simp: auth_verify_password_def p Let_def)
qed

lemma hash_password_form:
  assumes "auth_hash_password e (Some pw) n = Some h"
  obtains salt where "length salt = 32" "\<And>c. c \<in> set salt \<Longrightarrow> c_isxdigit c"
    "length pw \<in> {1..64}"
    "h = stored_form salt (hex_encode (hash_rounds (first_hash salt pw) 100000))"
proof -
  let ?salt = "hex_encode (fill_random (ent_salt e) (time_now e) 16)"
  have "length ?salt = 32" by simp
  moreover have "length pw \<in> {1..64}"
    "h = stored_form ?salt (hex_encode (hash_rounds (first_hash ?salt pw) 100000))"
    using assms by (cases pw; auto simp: auth_hash_password_def stored_form_def Let_def dec_rounds
        split: if_splits)+
  moreover have "\<And>c. c \<in> set ?salt \<Longrightarrow> c_isxdigit c" by (rule hex_encode_xdigits)
  ultimately show ?thesis using that by blast
qed

lemma hash_password_length: "auth_hash_password e (Some pw) n = Some h \<Longrightarrow> length h < n"
  by (auto simp: auth_hash_password_def Let_def split: if_splits)

lemma hash_password_Some:
  assumes "length pw \<in> {1..64}" "128 \<le> n"
  obtains h where "auth_hash_password e (Some pw) n = Some h"
proof -
  let ?salt = "hex_encode (fill_random (ent_salt e) (time_now e) 16)"
  have "length ?salt = 32" by simp
  moreover have "length (hex_encode (hash_rounds (first_hash ?salt pw) 100000)) = 64"
    by (simp add: length_hash_rounds first_hash_spec)
  ultimately have "auth_hash_password e (Some pw) n \<noteq> None"
    using assms by (cases pw) (simp_all add: auth_hash_password_def Let_def dec_rounds)
  then show ?thesis using that by blast
qed

text \<open>The contract the user-management code relies on: what is hashed verifies.\<close>

locale password_scheme =
  fixes hash :: "'e \<Rightarrow> string \<Rightarrow> string option"
    and verify :: "string \<Rightarrow> string \<Rightarrow> bool"
    and acceptable :: "string \<Rightarrow> bool"
  assumes verify_hash: "hash e pw = Some h \<Longrightarrow> verify pw h"
    and hash_total: "acceptable pw \<Longrightarrow> \<exists>h. hash e pw = Some h"
begin

lemma change_then_login:
  assumes "acceptable new"
  shows "\<exists>h. hash e new = Some h \<and> verify new h"
  using hash_total [OF assms] verify_hash by blast

lemma no_reuse_changes_hash: "\<not> verify new old_hash \<Longrightarrow> hash e new = Some h \<Longrightarrow> h \<noteq> old_hash"
  using verify_hash by blast

end

interpretation sha_scheme: password_scheme
  "\<lambda>e pw. auth_hash_password e (Some pw) 256"
  "\<lambda>pw h. auth_verify_password (Some pw) (Some h)"
  "\<lambda>pw. 1 \<le> length pw \<and> length pw \<le> 64"
proof unfold_locales
  fix e :: env and pw h
  assume "auth_hash_password e (Some pw) 256 = Some h"
  then show "auth_verify_password (Some pw) (Some h)"
    by (rule hash_password_form) (simp add: verify_stored_form)
next
  fix pw :: string and e :: env
  assume "1 \<le> length pw \<and> length pw \<le> 64"
  then show "\<exists>h. auth_hash_password e (Some pw) 256 = Some h"
    using hash_password_Some [of pw 256 e] by auto
qed

section \<open>Password policy\<close>

definition visible :: "char \<Rightarrow> bool" where
  "visible c \<longleftrightarrow> 0x21 \<le> code c \<and> code c \<le> 0x7E"

definition punct :: "char \<Rightarrow> bool" where
  "punct c \<longleftrightarrow> \<not> c_isupper c \<and> \<not> c_islower c \<and> \<not> c_isdigit c"

lemma policy_scan_eq:
  "policy_scan up lo dg pu s =
    (if list_all visible s
     then Some (up \<or> list_ex c_isupper s, lo \<or> list_ex c_islower s,
                dg \<or> list_ex c_isdigit s, pu \<or> list_ex punct s)
     else None)"
proof (induction s arbitrary: up lo dg pu)
  case (Cons c s)
  have "c_isupper c \<Longrightarrow> \<not> c_islower c \<and> \<not> c_isdigit c" "c_islower c \<Longrightarrow> \<not> c_isdigit c"
    by (auto simp: c_isupper_def c_islower_def c_isdigit_def)
  moreover have "visible c \<longleftrightarrow> \<not> (code c < 0x21 \<or> code c > 0x7E)"
    "punct c \<longleftrightarrow> \<not> c_isupper c \<and> \<not> c_islower c \<and> \<not> c_isdigit c"
    by (auto simp: visible_def punct_def)
  ultimately show ?case
    by (auto simp: Cons.IH)
qed simp

lemma policy_ok_iff:
  "auth_password_policy_ok p = None \<longleftrightarrow>
     10 \<le> length p \<and> length p \<le> 64 \<and> list_all visible p \<and> list_ex c_isupper p
     \<and> list_ex c_islower p \<and> list_ex c_isdigit p \<and> list_ex punct p"
  by (auto simp: auth_password_policy_ok_def policy_scan_eq split: if_splits)

section \<open>Migration\<close>

lemma foldr_max_ge: "x \<in> set xs \<Longrightarrow> x \<le> foldr max xs (a::int)"
  by (induction xs) auto

lemma foldr_max_base: "a \<le> foldr max xs (a::int)"
  by (induction xs) auto

lemma wf_migrate [wf_intros]:
  assumes "db_wf d"
  shows "db_wf (migrate_password_policy e (migrate_delete_fks e d))"
proof -
  have a: "db_wf (migrate_audit e d)"
    using assms foldr_max_ge [of _ "map a_id (t_audit d)" 0] foldr_max_base [of 0 "map a_id (t_audit d)"]
    by (auto simp: migrate_audit_def db_wf_def user_ids_def)
  then have b: "db_wf (migrate_delete_fks e d)"
    by (auto simp: migrate_delete_fks_def migrate_sessions_def db_wf_def user_ids_def)
  have "map u_id (map (\<lambda>u. u\<lparr>u_password_changed_at := 0\<rparr>) us) = map u_id us"
    "map u_username (map (\<lambda>u. u\<lparr>u_password_changed_at := 0\<rparr>) us) = map u_username us" for us
    by simp_all
  with b show ?thesis
    by (auto simp: migrate_password_policy_def Let_def db_wf_def user_ids_def image_image comp_def)
qed

lemma schema_current_migrate:
  assumes "db_wf d"
  shows "schema_current (migrate_password_policy healthy (migrate_delete_fks healthy d))"
  using assms
  by (auto simp: schema_current_def migrate_password_policy_def migrate_delete_fks_def
      migrate_audit_def migrate_sessions_def db_wf_def Let_def user_ids_def)

lemma migrate_current: "schema_current d \<Longrightarrow> migrate_password_policy e (migrate_delete_fks e d) = d"
  by (simp add: schema_current_def migrate_password_policy_def migrate_delete_fks_def
      migrate_audit_def migrate_sessions_def Let_def)

end
