(* ===== verification/Users.thy ===== *)
theory Users
  imports Auth
begin

text \<open>
  The user-management module \<open>src/users.c\<close>.  Every operation takes the acting user and yields
  the new state and either \<open>None\<close> (return value 0) or the message \<open>fail\<close> leaves in \<open>err\<close>
  (return value -1).  \<open>toggle_check\<close> and \<open>toggle_apply\<close> are the two halves of
  \<open>users_toggle\<close>, which run as separate SQL statements without a transaction.
\<close>

section \<open>The operations\<close>

definition msg_wrong_password :: string where
  "msg_wrong_password = (utf8 [0xE5, 0xBD, 0x93, 0xE5, 0x89, 0x8D, 0xE5, 0xAF, 0x86, 0xE7, 0xA0, 0x81, 0xE4, 0xB8, 0x8D, 0xE6, 0xAD, 0xA3, 0xE7, 0xA1, 0xAE])"

definition msg_same_password :: string where
  "msg_same_password = (utf8 [0xE6, 0x96, 0xB0, 0xE5, 0xAF, 0x86, 0xE7, 0xA0, 0x81, 0xE4, 0xB8, 0x8D, 0xE8, 0x83, 0xBD, 0xE4, 0xB8, 0x8E, 0xE5, 0xBD, 0x93, 0xE5, 0x89, 0x8D, 0xE5, 0xAF, 0x86, 0xE7, 0xA0, 0x81, 0xE7, 0x9B, 0xB8, 0xE5, 0x90, 0x8C])"

definition remote_addr :: "env \<Rightarrow> string option" where
  "remote_addr e = getenv e ''REMOTE_ADDR''"

definition users_create ::
  "env \<Rightarrow> int \<Rightarrow> string option \<Rightarrow> string option \<Rightarrow> 'a auth_state_scheme
   \<Rightarrow> 'a auth_state_scheme \<times> string option" where
  "users_create e actor_id username password st =
    (let uname = (case username of None \<Rightarrow> [] | Some n \<Rightarrow> n) in
     if length uname < 3 \<or> length uname > 32
     then (st, Some ''Invalid parameters (username: 3-32 chars)'')
     else (case password of None \<Rightarrow> (st, Some ''Invalid parameters'')
       | Some pw \<Rightarrow> (case auth_password_policy_ok pw of Some m \<Rightarrow> (st, Some m)
         | None \<Rightarrow> (case auth_hash_password e (Some pw) 256 of
             None \<Rightarrow> (st, Some ''Password hashing failed'')
           | Some hash \<Rightarrow>
             if g_db st = None then (st, Some ''Database not open'')
             else (case cur st of None \<Rightarrow> (st, Some ''Database error'')
               | Some d \<Rightarrow>
                 if \<not> prepare_ok (eng e) Q_user_insert \<or> \<not> has_changed_at d
                 then (st, Some ''Database error'')
                 else
                   let now = time_now e;
                       row = \<lparr>u_id = 0, u_username = uname, u_password_hash = hash,
                              u_role = ''admin'', u_enabled = 1, u_created_at = now,
                              u_updated_at = now, u_last_login_at = None,
                              u_created_by = Some actor_id, u_password_changed_at = now\<rparr>
                   in (case (if step_ok (eng e) Q_user_insert then sql_insert_user row d else None) of
                         None \<Rightarrow> (st, Some ''Username may already exist'')
                       | Some (d', rowid) \<Rightarrow>
                         (auth_audit_log e actor_id ''create_user'' (to_int32 rowid) (Some uname)
                            (remote_addr e) (set_cur d' st), None)))))))"

definition users_delete ::
  "env \<Rightarrow> int \<Rightarrow> int \<Rightarrow> 'a auth_state_scheme \<Rightarrow> 'a auth_state_scheme \<times> string option" where
  "users_delete e actor_id target_id st =
    (if target_id = actor_id then (st, Some ''Cannot delete yourself'')
     else if g_db st = None then (st, Some ''Database not open'')
     else (case (case cur st of None \<Rightarrow> None
                 | Some d \<Rightarrow> if runs (eng e) Q_role_select then lookup_user target_id d else None) of
         None \<Rightarrow> (st, Some ''User not found or cannot be deleted'')
       | Some u \<Rightarrow>
         if u_role u = ''root'' then (st, Some ''Cannot delete root user'')
         else
           let st1 = auth_audit_log e actor_id ''delete_user'' target_id
                       (Some (snprintf_s 64 (u_username u))) (remote_addr e) st
           in if \<not> prepare_ok (eng e) Q_user_delete then (st1, Some ''Database error'')
              else (case (case cur st1 of None \<Rightarrow> None
                     | Some d1 \<Rightarrow> if step_ok (eng e) Q_user_delete then sql_delete_user target_id d1 else None) of
                  None \<Rightarrow> (st1, Some ''User not found or cannot be deleted'')
                | Some (d2, changes) \<Rightarrow>
                  if changes \<le> 0 then (set_cur d2 st1, Some ''User not found or cannot be deleted'')
                  else (set_cur d2 st1, None))))"

text \<open>\<open>users_toggle\<close>, first half: the refusals.  When the COUNT query cannot be prepared or
  does not deliver a row, the last-root check is passed over.\<close>

definition toggle_check :: "env \<Rightarrow> int \<Rightarrow> int \<Rightarrow> int \<Rightarrow> 'a auth_state_scheme \<Rightarrow> string option" where
  "toggle_check e actor_id target_id enabled st =
    (if target_id = actor_id then Some ''Cannot disable yourself''
     else if g_db st = None then Some ''Database not open''
     else (case cur st of None \<Rightarrow> Some ''User not found''
       | Some d \<Rightarrow> (case (if runs (eng e) Q_role_select then lookup_user target_id d else None) of
           None \<Rightarrow> Some ''User not found''
         | Some u \<Rightarrow>
           if enabled = 0 \<and> u_role u = ''root'' \<and> runs (eng e) Q_root_count
              \<and> count_users (\<lambda>v. u_role v = ''root'' \<and> u_enabled v = 1 \<and> u_id v \<noteq> target_id) d \<le> 0
           then Some ''Cannot disable last root user''
           else None)))"

text \<open>Second half: the UPDATE and the audit row.\<close>

definition toggle_apply ::
  "env \<Rightarrow> int \<Rightarrow> int \<Rightarrow> int \<Rightarrow> 'a auth_state_scheme \<Rightarrow> 'a auth_state_scheme \<times> string option" where
  "toggle_apply e actor_id target_id enabled st =
    (case cur st of None \<Rightarrow> (st, Some ''Database error'')
     | Some d \<Rightarrow>
       if \<not> prepare_ok (eng e) Q_user_enable then (st, Some ''Database error'')
       else if \<not> step_ok (eng e) Q_user_enable \<or> count_users (\<lambda>u. u_id u = target_id) d \<le> 0
       then (st, Some ''User not found'')
       else (auth_audit_log e actor_id (if enabled \<noteq> 0 then ''enable_user'' else ''disable_user'')
               target_id (Some []) (remote_addr e)
               (set_cur (sql_update_users (\<lambda>u. u_id u = target_id)
                  (\<lambda>u. u\<lparr>u_enabled := enabled, u_updated_at := time_now e\<rparr>) d) st), None))"

definition users_toggle ::
  "env \<Rightarrow> int \<Rightarrow> int \<Rightarrow> int \<Rightarrow> 'a auth_state_scheme \<Rightarrow> 'a auth_state_scheme \<times> string option" where
  "users_toggle e actor_id target_id enabled st =
    (case toggle_check e actor_id target_id enabled st of
       Some m \<Rightarrow> (st, Some m)
     | None \<Rightarrow> toggle_apply e actor_id target_id enabled st)"

definition set_password :: "env \<Rightarrow> int \<Rightarrow> string \<Rightarrow> database \<Rightarrow> database" where
  "set_password e target_id hash d =
     sql_update_users (\<lambda>u. u_id u = target_id)
       (\<lambda>u. u\<lparr>u_password_hash := hash, u_password_changed_at := time_now e,
              u_updated_at := time_now e\<rparr>) d"

definition users_passwd ::
  "env \<Rightarrow> int \<Rightarrow> int \<Rightarrow> string option \<Rightarrow> 'a auth_state_scheme \<Rightarrow> 'a auth_state_scheme \<times> string option" where
  "users_passwd e actor_id target_id password st =
    (case password of None \<Rightarrow> (st, Some ''Invalid parameters'')
     | Some pw \<Rightarrow> (case auth_password_policy_ok pw of Some m \<Rightarrow> (st, Some m)
       | None \<Rightarrow> (case auth_hash_password e (Some pw) 256 of
           None \<Rightarrow> (st, Some ''Password hashing failed'')
         | Some hash \<Rightarrow>
           if g_db st = None then (st, Some ''Database not open'')
           else (case cur st of None \<Rightarrow> (st, Some ''Database error'')
             | Some d \<Rightarrow>
               if \<not> prepare_ok (eng e) Q_user_passwd \<or> \<not> has_changed_at d
               then (st, Some ''Database error'')
               else if \<not> step_ok (eng e) Q_user_passwd \<or> count_users (\<lambda>u. u_id u = target_id) d \<le> 0
               then (st, Some ''User not found'')
               else
                 let st1 = set_cur (set_password e target_id hash d) st;
                     st2 = auth_kick_user_sessions e target_id None st1
                 in (auth_audit_log e actor_id ''reset_password'' target_id (Some [])
                       (remote_addr e) st2, None)))))"

definition users_change_password ::
  "env \<Rightarrow> int \<Rightarrow> string option \<Rightarrow> string option \<Rightarrow> string option \<Rightarrow> 'a auth_state_scheme
   \<Rightarrow> 'a auth_state_scheme \<times> string option" where
  "users_change_password e actor_id old_pass new_pass keep_sid st =
    (case (old_pass, new_pass) of
       (Some old, Some new) \<Rightarrow>
         if actor_id \<le> 0 then (st, Some ''Invalid parameters'')
         else if g_db st = None then (st, Some ''Database not open'')
         else (case cur st of None \<Rightarrow> (st, Some ''Database error'')
           | Some d \<Rightarrow>
             if \<not> prepare_ok (eng e) Q_name_select then (st, Some ''Database error'')
             else
               let uname = (case (if step_ok (eng e) Q_name_select then lookup_user actor_id d else None) of
                              None \<Rightarrow> [] | Some u \<Rightarrow> snprintf_s 64 (u_username u))
               in if uname = [] then (st, Some ''User not found'')
                  else if auth_user_login e (Some uname) (Some old) st < 0
                  then (st, Some msg_wrong_password)
                  else (case auth_password_policy_ok new of Some m \<Rightarrow> (st, Some m)
                    | None \<Rightarrow>
                      if \<not> prepare_ok (eng e) Q_hash_select then (st, Some ''Database error'')
                      else
                        let old_hash = (case (if step_ok (eng e) Q_hash_select then lookup_user actor_id d else None) of
                                          None \<Rightarrow> [] | Some u \<Rightarrow> snprintf_s 256 (u_password_hash u))
                        in if auth_verify_password (Some new) (Some old_hash)
                           then (st, Some msg_same_password)
                           else (case auth_hash_password e (Some new) 256 of
                               None \<Rightarrow> (st, Some ''Password hashing failed'')
                             | Some hash \<Rightarrow>
                               if \<not> prepare_ok (eng e) Q_user_passwd \<or> \<not> has_changed_at d
                               then (st, Some ''Database error'')
                               else if \<not> step_ok (eng e) Q_user_passwd then (st, Some ''Database error'')
                               else
                                 let st1 = set_cur (set_password e actor_id hash d) st;
                                     st2 = auth_kick_user_sessions e actor_id keep_sid st1
                                 in (auth_audit_log e actor_id ''change_password'' actor_id (Some [])
                                       (remote_addr e) st2, None))))
     | _ \<Rightarrow> (st, Some ''Invalid parameters''))"

record UserRow =
  r_id :: int
  r_username :: string
  r_role :: string
  r_enabled :: int
  r_created_at :: int
  r_last_login_at :: int

text \<open>\<open>users_fetch_all\<close> counts the rows, allocates that many entries (at least one) and then
  writes one entry per row of a second query; \<open>FetchOverflow\<close> is a write past the array.\<close>

datatype fetch_result = FetchError | FetchOverflow | FetchOk "UserRow list"

definition user_row_out :: "user_row \<Rightarrow> UserRow" where
  "user_row_out u = \<lparr>r_id = to_int32 (u_id u), r_username = snprintf_s 64 (u_username u),
     r_role = snprintf_s 16 (u_role u), r_enabled = to_int32 (u_enabled u),
     r_created_at = u_created_at u,
     r_last_login_at = (case u_last_login_at u of None \<Rightarrow> 0 | Some t \<Rightarrow> t)\<rparr>"

definition users_fetch_all :: "env \<Rightarrow> 'a auth_state_scheme \<Rightarrow> fetch_result" where
  "users_fetch_all e st = (case cur st of None \<Rightarrow> FetchError
     | Some d \<Rightarrow>
       let n = (if runs (eng e) Q_users_count then to_int32 (count_users (\<lambda>_. True) d) else 0);
           capacity = (if n > 0 then nat n else 1)
       in if \<not> prepare_ok (eng e) Q_users_select then FetchError
          else
            let rows = (if step_ok (eng e) Q_users_select then map user_row_out (t_users d) else [])
            in if length rows > capacity then FetchOverflow else FetchOk rows)"

section \<open>Well-formedness is kept\<close>

definition st_ok :: "'a auth_state_scheme \<Rightarrow> bool" where
  "st_ok st \<longleftrightarrow> (\<exists>d. cur st = Some d \<and> db_wf d \<and> schema_current d)"

text \<open>The account that can always let somebody back in.\<close>

definition enabled_root :: "database \<Rightarrow> bool" where
  "enabled_root d \<longleftrightarrow> (\<exists>u \<in> set (t_users d). u_role u = ''root'' \<and> u_enabled u = 1)"

definition st_inv :: "'a auth_state_scheme \<Rightarrow> bool" where
  "st_inv st \<longleftrightarrow> (\<exists>d. cur st = Some d \<and> db_wf d \<and> schema_current d \<and> enabled_root d)"

lemma schema_current_frame [simp]:
  "schema_current (sql_update_users p f d) = schema_current d"
  "schema_current (sql_delete_sessions q d) = schema_current d"
  by (simp_all add: schema_current_def sql_update_users_def sql_delete_sessions_def)

lemma schema_current_delete:
  "sql_delete_user i d = Some (d', n) \<Longrightarrow> schema_current d' = schema_current d"
  by (auto simp: schema_current_def sql_delete_user_def split: if_splits)

lemma schema_current_insert:
  "sql_insert_user u d = Some (d', n) \<Longrightarrow> schema_current d' = schema_current d"
  by (auto simp: schema_current_def sql_insert_user_def Let_def split: if_splits option.splits)

lemma enabled_root_users: "t_users d = t_users d' \<Longrightarrow> enabled_root d = enabled_root d'"
  by (simp add: enabled_root_def)

lemma st_inv_audit:
  assumes "st_inv st"
  shows "st_inv (auth_audit_log e op act tg det ip st)"
proof -
  from assms obtain d where d: "cur st = Some d" "db_wf d" "schema_current d" "enabled_root d"
    by (auto simp: st_inv_def)
  then obtain d' where "cur (auth_audit_log e op act tg det ip st) = Some d'"
    "t_users d' = t_users d" "db_wf d \<Longrightarrow> db_wf d'" "schema_current d' = schema_current d"
    using cur_audit_log by blast
  with d show ?thesis by (auto simp: st_inv_def enabled_root_def)
qed

lemma st_inv_set_cur:
  "cur st = Some d0 \<Longrightarrow> db_wf d \<Longrightarrow> schema_current d \<Longrightarrow> enabled_root d \<Longrightarrow> st_inv (set_cur d st)"
  by (simp add: st_inv_def)

lemma st_inv_delete_sessions:
  "st_inv st \<Longrightarrow> cur st = Some d \<Longrightarrow> st_inv (set_cur (sql_delete_sessions p d) st)"
  by (auto simp: st_inv_def intro: wf_intros) (simp add: enabled_root_def sql_delete_sessions_def)

lemma st_inv_kick: "st_inv st \<Longrightarrow> st_inv (auth_kick_user_sessions e i k st)"
  by (auto simp: auth_kick_user_sessions_def intro: st_inv_delete_sessions split: option.splits)

lemma mem_update_users:
  "u \<in> set (t_users d) \<Longrightarrow> (if p u then f u else u) \<in> set (t_users (sql_update_users p f d))"
  unfolding sql_update_users_def by simp

lemma enabled_root_updateI:
  assumes "u \<in> set (t_users d)" "u_role (if p u then f u else u) = ''root''"
    "u_enabled (if p u then f u else u) = 1"
  shows "enabled_root (sql_update_users p f d)"
  using mem_update_users [OF assms(1), of p f] assms(2,3) unfolding enabled_root_def by blast

lemma enabled_root_update:
  assumes "enabled_root d" "\<And>u. u_role (f u) = u_role u" "\<And>u. u_enabled (f u) = u_enabled u"
  shows "enabled_root (sql_update_users p f d)"
proof -
  obtain u where "u \<in> set (t_users d)" "u_role u = ''root''" "u_enabled u = 1"
    using assms(1) by (auto simp: enabled_root_def)
  then show ?thesis by (intro enabled_root_updateI [of u]) (simp_all add: assms)
qed

lemma st_inv_set_password:
  assumes "st_inv st" "cur st = Some d"
  shows "st_inv (set_cur (set_password e i h d) st)"
proof -
  have "db_wf d" "schema_current d" "enabled_root d"
    using assms by (auto simp: st_inv_def)
  then have "db_wf (set_password e i h d)" "enabled_root (set_password e i h d)"
    "schema_current (set_password e i h d)"
    unfolding set_password_def by (auto intro: wf_update_users enabled_root_update)
  then show ?thesis using assms(2) by (auto intro: st_inv_set_cur)
qed

lemma users_create_inv:
  assumes "st_inv st"
  shows "st_inv (fst (users_create e a n p st))"
proof -
  have step: "st_inv (auth_audit_log e a act (to_int32 i) det ip (set_cur d' st))"
    if "cur st = Some d" "sql_insert_user row d = Some (d', i)" for d d' i row act det ip
  proof (rule st_inv_audit, rule st_inv_set_cur [OF that(1)])
    have "db_wf d" "schema_current d" "enabled_root d"
      using assms that(1) by (auto simp: st_inv_def)
    with that(2) show "db_wf d'" "schema_current d'"
      by (auto intro: wf_insert_user simp: schema_current_insert)
    from that(2) have "set (t_users d) \<subseteq> set (t_users d')"
      by (auto simp: sql_insert_user_def Let_def split: if_splits option.splits)
    with \<open>enabled_root d\<close> show "enabled_root d'" by (auto simp: enabled_root_def)
  qed
  show ?thesis
    using assms step
    by (auto simp: users_create_def Let_def split: option.splits if_splits)
qed

lemma users_delete_inv:
  assumes "st_inv st"
  shows "st_inv (fst (users_delete e a t st))"
proof -
  obtain d where d: "cur st = Some d" "db_wf d" "schema_current d" "enabled_root d"
    using assms by (auto simp: st_inv_def)
  define A where "A nm = auth_audit_log e a ''delete_user'' t (Some nm) (remote_addr e) st" for nm
  have A: "st_inv (A nm)" for nm unfolding A_def by (rule st_inv_audit [OF assms])
  have step: "st_inv (set_cur d2 (A nm))"
    if u: "lookup_user t d = Some u" "u_role u \<noteq> ''root''"
      and d1: "cur (A nm) = Some d1" "sql_delete_user t d1 = Some (d2, n)" for u nm d1 d2 n
  proof -
    have us: "t_users d1 = t_users d"
      using cur_audit_log [OF d(1), of e a "''delete_user''" t "Some nm" "remote_addr e"] d1(1)
      by (metis A_def option.inject)
    have ok: "db_wf d1" "schema_current d1" "enabled_root d1"
      using A [of nm] d1(1) by (auto simp: st_inv_def)
    then have "db_wf d2" "schema_current d2"
      using d1(2) wf_delete_user schema_current_fks schema_current_delete by blast+
    moreover have "enabled_root d2"
    proof -
      obtain r where r: "r \<in> set (t_users d1)" "u_role r = ''root''" "u_enabled r = 1"
        using ok(3) by (auto simp: enabled_root_def)
      have "u_id r \<noteq> t"
        using u r us d(2) lookup_user_in by (metis option.inject)
      with r d1(2) show ?thesis
        by (auto simp: enabled_root_def sql_delete_user_def split: if_splits)
    qed
    ultimately show ?thesis by (rule st_inv_set_cur [OF d1(1)])
  qed
  show ?thesis
    using assms A step d(1)
    by (auto simp: users_delete_def Let_def A_def [symmetric] split: option.splits if_splits)
qed

lemma count_usersD: "\<not> count_users p d \<le> 0 \<Longrightarrow> \<exists>u \<in> set (t_users d). p u"
  by (cases "filter p (t_users d)") (auto simp: count_users_def filter_eq_Cons_iff)

lemma toggle_check_inv:
  assumes "toggle_check e a t en st = None" "runs (eng e) Q_root_count" "cur st = Some d"
    "db_wf d" "enabled_root d" "en = 0 \<or> en = 1"
  shows "enabled_root (sql_update_users (\<lambda>u. u_id u = t) (\<lambda>u. u\<lparr>u_enabled := en, u_updated_at := n\<rparr>) d)"
proof -
  obtain u where u: "lookup_user t d = Some u"
    using assms(1,3) by (auto simp: toggle_check_def split: if_splits option.splits)
  have "\<exists>r \<in> set (t_users d). u_role r = ''root'' \<and> u_enabled r = 1 \<and> (en = 1 \<or> u_id r \<noteq> t)"
  proof (cases "en = 0 \<and> u_role u = ''root''")
    case True
    with assms(1-3) u have "\<not> count_users (\<lambda>v. u_role v = ''root'' \<and> u_enabled v = 1 \<and> u_id v \<noteq> t) d \<le> 0"
      by (auto simp: toggle_check_def split: if_splits)
    from count_usersD [OF this] show ?thesis by blast
  next
    case False
    obtain r where r: "r \<in> set (t_users d)" "u_role r = ''root''" "u_enabled r = 1"
      using assms(5) by (auto simp: enabled_root_def)
    have "en = 1 \<or> u_id r \<noteq> t"
      using False r u assms(4,6) lookup_user_in by (metis option.inject)
    with r show ?thesis by blast
  qed
  then obtain r where "r \<in> set (t_users d)" "u_role r = ''root''" "u_enabled r = 1" "en = 1 \<or> u_id r \<noteq> t"
    by blast
  then show ?thesis by (intro enabled_root_updateI [of r]) auto
qed

lemma users_toggle_inv:
  assumes "st_inv st" "runs (eng e) Q_root_count" "en = 0 \<or> en = 1"
  shows "st_inv (fst (users_toggle e a t en st))"
proof -
  obtain d where d: "cur st = Some d" "db_wf d" "schema_current d" "enabled_root d"
    using assms(1) by (auto simp: st_inv_def)
  let ?d = "sql_update_users (\<lambda>u. u_id u = t) (\<lambda>u. u\<lparr>u_enabled := en, u_updated_at := time_now e\<rparr>) d"
  have "st_inv (auth_audit_log e a act t det ip (set_cur ?d st))"
    if "toggle_check e a t en st = None" for act det ip
    using that d assms(2,3)
    by (intro st_inv_audit st_inv_set_cur [OF d(1)]) (auto intro: wf_update_users toggle_check_inv)
  then show ?thesis
    using assms(1) d(1)
    by (auto simp: users_toggle_def toggle_apply_def split: option.splits)
qed

lemma users_passwd_inv: "st_inv st \<Longrightarrow> st_inv (fst (users_passwd e a t p st))"
  by (auto simp: users_passwd_def Let_def split: option.splits
      intro!: st_inv_audit st_inv_kick st_inv_set_password)

lemma users_change_password_inv: "st_inv st \<Longrightarrow> st_inv (fst (users_change_password e a old new k st))"
  by (auto simp: users_change_password_def Let_def split: option.splits
      intro!: st_inv_audit st_inv_kick st_inv_set_password)

section \<open>Logging in\<close>

lemma find_unique_conj:
  assumes "distinct (map f xs)" "x \<in> set xs" "Q x"
  shows "find (\<lambda>y. f y = f x \<and> Q y) xs = Some x"
  using assms
proof (induction xs)
  case (Cons y ys)
  then show ?case by (auto simp: rev_image_eqI)
qed simp

lemma login_ok:
  assumes "cur st = Some d" "db_wf d" "u \<in> set (t_users d)" "u_enabled u = 1"
    "runs (eng e) Q_login_select" "auth_verify_password (Some pw) (Some (u_password_hash u))"
  shows "auth_user_login e (Some (u_username u)) (Some pw) st = to_int32 (u_id u)"
proof -
  have "find (\<lambda>v. u_username v = u_username u \<and> u_enabled v = 1) (t_users d) = Some u"
    using assms(2-4) by (intro find_unique_conj) (simp_all add: db_wf_def)
  then show ?thesis using assms by (simp add: auth_user_login_def)
qed

lemma login_sound:
  assumes "auth_user_login e (Some n) (Some pw) st = i" "0 \<le> i"
  obtains d u where "cur st = Some d" "u \<in> set (t_users d)" "u_username u = n" "u_enabled u = 1"
    "i = to_int32 (u_id u)" "auth_verify_password (Some pw) (Some (u_password_hash u))"
  using assms
  by (auto simp: auth_user_login_def split: option.splits if_splits dest!: find_SomeD)

lemma find_map_same:
  "(\<And>x. P (g x) = P x) \<Longrightarrow> find P (map g xs) = map_option g (find P xs)"
  by (induction xs) auto

lemma lookup_user_update:
  "(\<And>u. u_id (f u) = u_id u) \<Longrightarrow> lookup_user i (sql_update_users p f d)
     = map_option (\<lambda>u. if p u then f u else u) (lookup_user i d)"
  unfolding lookup_user_def sql_update_users_def by (simp add: find_map_same)

section \<open>Reachable account databases\<close>

text \<open>One step: any operation of \<open>users.c\<close> or \<open>auth.c\<close> that a CGI program runs on the open
  database, for any actor, any arguments and any environment.  \<open>toggle\<close> is called with 0 or 1
  (\<open>user_toggle.cgi\<close> normalises its parameter) and is taken with a COUNT query that runs.\<close>

inductive um_step :: "'a auth_state_scheme \<Rightarrow> 'a auth_state_scheme \<Rightarrow> bool" where
  create: "um_step st (fst (users_create e a n p st))"
| delete: "um_step st (fst (users_delete e a t st))"
| toggle: "runs (eng e) Q_root_count \<Longrightarrow> en = 0 \<or> en = 1 \<Longrightarrow> um_step st (fst (users_toggle e a t en st))"
| passwd: "um_step st (fst (users_passwd e a t p' st))"
| change: "um_step st (fst (users_change_password e a old new k st))"
| login: "um_step st (fst (auth_session_create e i ip st))"
| logout: "um_step st (auth_session_destroy e sid st)"
| expire: "um_step st (auth_session_cleanup e st)"
| audit: "um_step st (auth_audit_log e op act tg det ip st)"

inductive um_reach :: "'a auth_state_scheme \<Rightarrow> 'a auth_state_scheme \<Rightarrow> bool" where
  start: "um_reach st st"
| more: "um_reach st st' \<Longrightarrow> um_step st' st'' \<Longrightarrow> um_reach st st''"

lemma session_create_inv:
  assumes "st_inv st"
  shows "st_inv (fst (auth_session_create e i ip st))"
proof -
  have step: "st_inv (set_cur (sql_update_users p f d') st)" "st_inv (set_cur d' st)"
    if "cur st = Some d" "sql_insert_session row d = Some d'"
      "f = (\<lambda>u. u\<lparr>u_last_login_at := x\<rparr>)" for d d' row p f x
  proof -
    have "db_wf d" "schema_current d" "enabled_root d"
      using assms that(1) by (auto simp: st_inv_def)
    moreover have "t_users d' = t_users d"
      using that(2) by (auto simp: sql_insert_session_def split: if_splits)
    moreover have "schema_current d' = schema_current d"
      using that(2) by (auto simp: sql_insert_session_def schema_current_def split: if_splits)
    ultimately have d': "db_wf d'" "schema_current d'" "enabled_root d'"
      using that(2) by (auto intro: wf_insert_session simp: enabled_root_def)
    then show "st_inv (set_cur d' st)" by (rule st_inv_set_cur [OF that(1)])
    show "st_inv (set_cur (sql_update_users p f d') st)"
      using d' by (intro st_inv_set_cur [OF that(1)] wf_update_users enabled_root_update)
        (simp_all add: that(3))
  qed
  show ?thesis
    using assms by (auto simp: auth_session_create_def Let_def intro: step split: option.splits)
qed

lemma um_step_inv: "um_step st st' \<Longrightarrow> st_inv st \<Longrightarrow> st_inv st'"
proof (induction rule: um_step.induct)
  case (logout st e sid)
  then show ?case
    by (auto simp: auth_session_destroy_def intro: st_inv_delete_sessions split: option.splits)
next
  case (expire st e)
  then show ?case
    by (auto simp: auth_session_cleanup_def intro: st_inv_delete_sessions split: option.splits)
qed (auto intro: users_create_inv users_delete_inv users_toggle_inv users_passwd_inv
     users_change_password_inv session_create_inv st_inv_audit)

text \<open>Starting from a well-formed database with an enabled root account, no sequence of
  account operations by any actors ever leaves the system without an enabled root account, and
  the integrity constraints (unique ids and names, valid roles, foreign keys) hold throughout.\<close>

theorem reachable_keeps_enabled_root:
  assumes "um_reach st st'" and "st_inv st"
  shows "st_inv st'"
  using assms by (induction rule: um_reach.induct) (auto intro: um_step_inv)

section \<open>Sample states\<close>

text \<open>A healthy environment and a database with the root account 1, the administrators 2 and 3
  and one session each for 1 and 2; used to instantiate the theorems.\<close>

definition sample_pw :: string where "sample_pw = ''Abcdefgh1!''"
definition sample_pw2 :: string where "sample_pw2 = ''Zyxwvuts9?''"

definition sample_env :: env where
  "sample_env = \<lparr>getenv = (\<lambda>_. None), stdin_data = [], time_now = 1000, eng = healthy,
     ent_sid = Urandom (replicate 32 7), ent_csrf = Urandom (replicate 16 9),
     ent_salt = Urandom (replicate 16 3)\<rparr>"

definition sample_hash :: string where
  "sample_hash = the (auth_hash_password sample_env (Some sample_pw) 256)"

definition sample_user :: "int \<Rightarrow> string \<Rightarrow> string \<Rightarrow> user_row" where
  "sample_user i n r = \<lparr>u_id = i, u_username = n, u_password_hash = sample_hash, u_role = r,
     u_enabled = 1, u_created_at = 1, u_updated_at = 1, u_last_login_at = None,
     u_created_by = None, u_password_changed_at = 500\<rparr>"

definition sample_session :: "string \<Rightarrow> int \<Rightarrow> session_row" where
  "sample_session k i = \<lparr>s_sid = k, s_user_id = i, s_csrf_token = ''tok'', s_created_at = 900,
     s_expires_at = 4500, s_client_ip = []\<rparr>"

definition sample_db :: database where
  "sample_db = empty_db\<lparr>t_users := [sample_user 1 ''root'' ''root'', sample_user 2 ''alice'' ''admin'',
       sample_user 3 ''bob'' ''admin''], users_seq := 3,
     t_sessions := [sample_session ''s1'' 1, sample_session ''s2'' 2, sample_session ''s3'' 2]\<rparr>"

definition sample_state :: auth_state where
  "sample_state = \<lparr>g_db = Some ''db'', g_db_path = ''db'', disk = (\<lambda>p. Some sample_db)\<rparr>"

lemmas sample_defs = sample_db_def sample_user_def sample_session_def empty_db_def

lemma sample_cur [simp]: "cur sample_state = Some sample_db"
  by (simp add: cur_def sample_state_def)

lemma sample_wf [simp]: "db_wf sample_db" "schema_current sample_db" "enabled_root sample_db"
  by (simp_all add: db_wf_def schema_current_def enabled_root_def user_ids_def sample_defs)

lemma sample_inv [simp]: "st_inv sample_state"
  by (simp add: st_inv_def)

lemma sample_env_simps [simp]: "eng sample_env = healthy" "time_now sample_env = 1000"
  by (simp_all add: sample_env_def)

lemma sample_hash_eq [simp]: "auth_hash_password sample_env (Some sample_pw) 256 = Some sample_hash"
proof -
  obtain h where "auth_hash_password sample_env (Some sample_pw) 256 = Some h"
    using hash_password_Some [of sample_pw 256 sample_env] by (auto simp: sample_pw_def)
  then show ?thesis by (simp add: sample_hash_def)
qed

lemma sample_verify [simp]: "auth_verify_password (Some sample_pw) (Some sample_hash)"
  by (rule sha_scheme.verify_hash [OF sample_hash_eq])

lemma sample_policy [simp]: "auth_password_policy_ok sample_pw = None" "auth_password_policy_ok sample_pw2 = None"
  by (simp_all add: policy_ok_iff sample_pw_def sample_pw2_def visible_def punct_def c_isupper_def
      c_islower_def c_isdigit_def)

theorem reachable_keeps_enabled_root_witness:
  "st_inv (fst (users_delete sample_env 1 2 sample_state))"
  by (rule reachable_keeps_enabled_root
      [OF um_reach.more [OF um_reach.start um_step.delete] sample_inv])

section \<open>Deleting a user\<close>

lemma audit_log_row:
  assumes "cur st = Some d" "eng e = healthy" "op \<in> user_ids d" "tg \<in> user_ids d" "audit_seq d < max_rowid"
  shows "cur (auth_audit_log e op act tg (Some det) ip st) =
    Some (d\<lparr>t_audit := t_audit d @ [\<lparr>a_id = audit_seq d + 1, a_operator_id = Some op, a_action = act,
              a_target_user_id = Some tg, a_detail = det,
              a_client_ip = (case ip of None \<Rightarrow> [] | Some x \<Rightarrow> x), a_created_at = time_now e\<rparr>],
            audit_seq := audit_seq d + 1\<rparr>)"
  using assms by (simp add: auth_audit_log_def sql_insert_audit_def)

text \<open>Deleting an administrator (by another existing user, nobody having been created by the
  target) succeeds: exactly that row is gone from \<open>users\<close>, all and only the sessions of that
  user are gone, and the audit trail ends with a \<open>delete_user\<close> entry that names the operator and
  keeps the deleted user's name while its target reference is set to NULL.\<close>

theorem users_delete_effect:
  assumes "cur st = Some d" "schema_current d" "eng e = healthy" "lookup_user t d = Some u"
    "u_role u \<noteq> ''root''" "t \<noteq> a" "a \<in> user_ids d" "audit_seq d < max_rowid"
    "\<forall>v \<in> set (t_users d). u_created_by v \<noteq> Some t"
  shows "\<exists>d'. snd (users_delete e a t st) = None \<and> cur (fst (users_delete e a t st)) = Some d'
    \<and> t_users d' = filter (\<lambda>v. u_id v \<noteq> t) (t_users d)
    \<and> t_sessions d' = filter (\<lambda>s. s_user_id s \<noteq> t) (t_sessions d)
    \<and> length (t_audit d') = Suc (length (t_audit d))
    \<and> a_action (last (t_audit d')) = ''delete_user'' \<and> a_operator_id (last (t_audit d')) = Some a
    \<and> a_target_user_id (last (t_audit d')) = None
    \<and> a_detail (last (t_audit d')) = snprintf_s 64 (u_username u)"
proof -
  have t: "t \<in> user_ids d" using assms(4) lookup_user_None by force
  let ?nm = "snprintf_s 64 (u_username u)"
  define st1 where "st1 = auth_audit_log e a ''delete_user'' t (Some ?nm) (remote_addr e) st"
  define row where "row = \<lparr>a_id = audit_seq d + 1, a_operator_id = Some a, a_action = ''delete_user'',
              a_target_user_id = Some t, a_detail = ?nm,
              a_client_ip = (case remote_addr e of None \<Rightarrow> [] | Some x \<Rightarrow> x), a_created_at = time_now e\<rparr>"
  define d1 where "d1 = d\<lparr>t_audit := t_audit d @ [row], audit_seq := audit_seq d + 1\<rparr>"
  have c1: "cur st1 = Some d1"
    unfolding st1_def d1_def row_def by (rule audit_log_row) (use assms t in auto)
  have nb: "\<not> delete_blocked t d1"
    using assms(2,9) by (auto simp: delete_blocked_def schema_current_def d1_def)
  have "t \<in> user_ids d1" using t by (simp add: d1_def)
  then obtain d2 where d2: "sql_delete_user t d1 = Some (d2, 1)" using nb by (simp add: sql_delete_user_def)
  have eq: "users_delete e a t st = (set_cur d2 st1, None)"
    using assms c1 d2 cur_SomeD [OF assms(1)]
    by (simp add: users_delete_def Let_def flip: st1_def)
  note D = sql_delete_userD [OF d2, simplified]
  have fk: "fk_operator d1 = SetNull" "fk_target d1 = SetNull"
    using assms(2) by (simp_all add: d1_def schema_current_def)
  show ?thesis
    using D c1 fk assms(6) by (simp add: eq d1_def row_def null_ref_def)
qed

theorem users_delete_effect_witness:
  "\<exists>d'. snd (users_delete sample_env 1 2 sample_state) = None
    \<and> cur (fst (users_delete sample_env 1 2 sample_state)) = Some d'
    \<and> map u_id (t_users d') = [1, 3] \<and> map s_sid (t_sessions d') = [''s1'']"
proof -
  have "lookup_user 2 sample_db = Some (sample_user 2 ''alice'' ''admin'')"
    by (simp add: lookup_user_def sample_defs)
  moreover have "u_role (sample_user 2 ''alice'' ''admin'') \<noteq> ''root''"
    "1 \<in> user_ids sample_db" "audit_seq sample_db < max_rowid"
    "\<forall>v \<in> set (t_users sample_db). u_created_by v \<noteq> Some 2"
    by (simp_all add: sample_defs user_ids_def max_rowid_def)
  ultimately have "\<exists>d'. snd (users_delete sample_env 1 2 sample_state) = None
    \<and> cur (fst (users_delete sample_env 1 2 sample_state)) = Some d'
    \<and> t_users d' = filter (\<lambda>v. u_id v \<noteq> 2) (t_users sample_db)
    \<and> t_sessions d' = filter (\<lambda>s. s_user_id s \<noteq> 2) (t_sessions sample_db)"
    using users_delete_effect [OF sample_cur sample_wf(2) sample_env_simps(1), of 2 _ 1] by fastforce
  then show ?thesis by (auto simp: sample_defs)
qed

text \<open>Whatever the environment does (database errors included), \<open>users_delete\<close> only ever
  removes the target's row from \<open>users\<close>, and only when the target is neither a root account nor
  the acting user; every other account and every session of another user stays as it was.\<close>

theorem users_delete_only_target:
  assumes "cur st = Some d" "cur (fst (users_delete e a t st)) = Some d'"
  shows "(t_users d' = t_users d \<and> t_sessions d' = t_sessions d)
    \<or> (t \<noteq> a \<and> (\<exists>u. lookup_user t d = Some u \<and> u_role u \<noteq> ''root'')
       \<and> t_users d' = filter (\<lambda>v. u_id v \<noteq> t) (t_users d)
       \<and> t_sessions d' = filter (\<lambda>s. s_user_id s \<noteq> t) (t_sessions d))"
proof -
  define A where "A nm = auth_audit_log e a ''delete_user'' t (Some nm) (remote_addr e) st" for nm
  have A: "t_users d1 = t_users d \<and> t_sessions d1 = t_sessions d" if "cur (A nm) = Some d1" for nm d1
    using that cur_audit_log [OF assms(1)] unfolding A_def by (metis option.inject)
  have del: "t_users d2 = t_users d1 \<and> t_sessions d2 = t_sessions d1 \<or>
      t_users d2 = filter (\<lambda>v. u_id v \<noteq> t) (t_users d1)
        \<and> t_sessions d2 = filter (\<lambda>s. s_user_id s \<noteq> t) (t_sessions d1)"
    if "sql_delete_user t d1 = Some (d2, n)" for d1 d2 n
    using that by (auto simp: sql_delete_user_def split: if_splits)
  show ?thesis
    using assms
    by (auto simp: users_delete_def Let_def A_def [symmetric] split: option.splits if_splits
        dest: A del) (metis A del)+
qed

theorem users_delete_only_target_witness:
  "\<exists>d'. cur (fst (users_delete sample_env 2 1 sample_state)) = Some d'
     \<and> t_users d' = t_users sample_db"
proof -
  have c: "cur (fst (users_delete sample_env 2 1 sample_state)) = Some sample_db"
    by (simp add: users_delete_def lookup_user_def sample_state_def cur_def sample_defs)
  have "\<not> (\<exists>u. lookup_user 1 sample_db = Some u \<and> u_role u \<noteq> ''root'')"
    by (simp add: lookup_user_def sample_defs)
  with users_delete_only_target [OF sample_cur c] c show ?thesis by blast
qed

section \<open>Creating a user, resetting and changing passwords\<close>

lemma policy_ok_acceptable: "auth_password_policy_ok p = None \<Longrightarrow> 1 \<le> length p \<and> length p \<le> 64"
  by (simp add: policy_ok_iff)

text \<open>When \<open>users_create\<close> reports success, the users table has gained exactly one row: a new
  id, the given name, role admin, enabled, password clock started now; nothing else of the
  table changed, and the new user can log in with the given password (while the id fits a C
  int and the login query runs).\<close>

theorem users_create_effect:
  assumes "cur st = Some d" "db_wf d" "users_create e a (Some n) (Some pw) st = (st', None)"
    "users_seq d < 2147483647" "runs (eng e') Q_login_select"
  shows "\<exists>d' u. cur st' = Some d' \<and> t_users d' = t_users d @ [u] \<and> u_id u = users_seq d + 1
    \<and> u_username u = n \<and> u_role u = ''admin'' \<and> u_enabled u = 1
    \<and> u_password_changed_at u = time_now e \<and> t_sessions d' = t_sessions d
    \<and> auth_user_login e' (Some n) (Some pw) st' = users_seq d + 1"
proof -
  obtain h d1 i row where h: "auth_hash_password e (Some pw) 256 = Some h"
    and row: "row = \<lparr>u_id = 0, u_username = n, u_password_hash = h,
                u_role = ''admin'', u_enabled = 1, u_created_at = time_now e,
                u_updated_at = time_now e, u_last_login_at = None,
                u_created_by = Some a, u_password_changed_at = time_now e\<rparr>"
    and ins: "sql_insert_user row d = Some (d1, i)"
    and st': "st' = auth_audit_log e a ''create_user'' (to_int32 i) (Some n) (remote_addr e) (set_cur d1 st)"
    using assms(1,3)
    by (auto simp: users_create_def Let_def split: option.splits if_splits prod.splits)
  have d1: "d1 = d\<lparr>t_users := t_users d @ [row\<lparr>u_id := i\<rparr>], users_seq := i\<rparr>" and i: "i = users_seq d + 1"
    using ins by (auto simp: sql_insert_user_def Let_def split: if_splits option.splits)
  have wf1: "db_wf d1" by (rule wf_insert_user [OF assms(2) ins])
  have c1: "cur (set_cur d1 st) = Some d1" using assms(1) by simp
  obtain d' where d': "cur st' = Some d'" "t_users d' = t_users d1" "t_sessions d' = t_sessions d1"
    "db_wf d'"
    using cur_audit_log [OF c1] wf1 unfolding st' by metis
  have u: "row\<lparr>u_id := i\<rparr> \<in> set (t_users d')" using d' d1 by simp
  have "auth_user_login e' (Some (u_username (row\<lparr>u_id := i\<rparr>))) (Some pw) st' = to_int32 (u_id (row\<lparr>u_id := i\<rparr>))"
    using assms(5) sha_scheme.verify_hash [OF h]
    by (intro login_ok [OF d'(1) d'(4) u]) (simp_all add: row)
  moreover have "0 \<le> users_seq d" using assms(2) by (simp add: db_wf_def)
  ultimately have "auth_user_login e' (Some n) (Some pw) st' = users_seq d + 1"
    using assms(4) by (simp add: row i)
  with d' show ?thesis
    by (intro exI [of _ d'] exI [of _ "row\<lparr>u_id := i\<rparr>"]) (simp add: d1 i row)
qed

theorem users_create_effect_witness:
  "\<exists>st'. users_create sample_env 1 (Some ''carol'') (Some sample_pw) sample_state = (st', None)
    \<and> auth_user_login sample_env (Some ''carol'') (Some sample_pw) st' = 4"
proof -
  obtain st' where st': "users_create sample_env 1 (Some ''carol'') (Some sample_pw) sample_state = (st', None)"
    by (simp add: users_create_def Let_def sql_insert_user_def max_rowid_def user_ids_def sample_defs
        sample_state_def cur_def)
  from users_create_effect [OF sample_cur sample_wf(1) st', of sample_env]
  have "auth_user_login sample_env (Some ''carol'') (Some sample_pw) st' = 4"
    by (auto simp: sample_db_def)
  with st' show ?thesis by blast
qed

lemma kick_cur:
  assumes "cur st = Some d" "0 < i" "runs (eng e) Q_kick"
  shows "cur (auth_kick_user_sessions e i k st) = Some (sql_delete_sessions
    (\<lambda>s. s_user_id s = i \<and> (case k of None \<Rightarrow> True | Some x \<Rightarrow> s_sid s \<noteq> x)) d)"
  using assms by (simp add: auth_kick_user_sessions_def)

lemma set_password_user:
  assumes "db_wf d" "lookup_user i d = Some u"
  shows "u\<lparr>u_password_hash := h, u_password_changed_at := time_now e, u_updated_at := time_now e\<rparr>
         \<in> set (t_users (set_password e i h d))"
  unfolding set_password_def
  using lookup_userD [OF assms(2)]
    mem_update_users [of u d "\<lambda>v. u_id v = i"
      "\<lambda>v. v\<lparr>u_password_hash := h, u_password_changed_at := time_now e, u_updated_at := time_now e\<rparr>"]
  by simp

lemma wf_set_password [wf_intros]: "db_wf d \<Longrightarrow> db_wf (set_password e i h d)"
  unfolding set_password_def by (rule wf_update_users) simp_all

text \<open>What a password write, the kick and the audit entry leave behind.\<close>

lemma password_written:
  assumes "cur st = Some d" "db_wf d" "lookup_user i d = Some u" "0 < i" "i < 2147483648"
    "u_enabled u = 1" "runs (eng e) Q_kick" "runs (eng e') Q_login_select"
    "auth_hash_password e (Some pw) 256 = Some h"
    "st' = auth_audit_log e a act i det ip (auth_kick_user_sessions e i k (set_cur (set_password e i h d) st))"
  shows "\<exists>d'. cur st' = Some d'
    \<and> t_sessions d' = filter (\<lambda>s. s_user_id s = i \<longrightarrow> Some (s_sid s) = k) (t_sessions d)
    \<and> auth_user_login e' (Some (u_username u)) (Some pw) st' = i
    \<and> map_option u_password_changed_at (lookup_user i d') = Some (time_now e)"
proof -
  let ?d1 = "set_password e i h d"
  let ?p = "\<lambda>s. s_user_id s = i \<and> (case k of None \<Rightarrow> True | Some x \<Rightarrow> s_sid s \<noteq> x)"
  have c: "cur (auth_kick_user_sessions e i k (set_cur ?d1 st)) = Some (sql_delete_sessions ?p ?d1)"
    using assms by (intro kick_cur) simp_all
  have wf: "db_wf (sql_delete_sessions ?p ?d1)" by (intro wf_delete_sessions wf_set_password assms(2))
  obtain d' where d': "cur st' = Some d'" "t_users d' = t_users (sql_delete_sessions ?p ?d1)"
    "t_sessions d' = t_sessions (sql_delete_sessions ?p ?d1)" "db_wf d'"
    using cur_audit_log [OF c, of e a act i det ip thesis] wf unfolding assms(10) by blast
  let ?u = "u\<lparr>u_password_hash := h, u_password_changed_at := time_now e, u_updated_at := time_now e\<rparr>"
  have u: "?u \<in> set (t_users d')"
    using set_password_user [OF assms(2,3)] d'(2) by (simp add: sql_delete_sessions_def)
  have id: "u_id ?u = i" using lookup_userD [OF assms(3)] by simp
  have "auth_user_login e' (Some (u_username ?u)) (Some pw) st' = to_int32 (u_id ?u)"
    using assms(6,8) sha_scheme.verify_hash [OF assms(9)]
    by (intro login_ok [OF d'(1) d'(4) u]) simp_all
  moreover have "lookup_user i d' = Some ?u" using lookup_user_in [OF d'(4) u] id by simp
  moreover have "t_sessions d' = filter (\<lambda>s. s_user_id s = i \<longrightarrow> Some (s_sid s) = k) (t_sessions d)"
    unfolding d'(3)
    by (auto simp: sql_delete_sessions_def set_password_def sql_update_users_def
        intro!: filter_cong split: option.splits)
  ultimately show ?thesis using d' id assms(4,5) by simp
qed

text \<open>An administrative password reset that reports success passed the policy, ends every
  session of the target and no other session, restarts its password clock, and lets the target
  log in with the new password (target enabled, the session delete and the login query run).\<close>

theorem users_passwd_effect:
  assumes "cur st = Some d" "db_wf d" "lookup_user t d = Some u" "u_enabled u = 1" "t < 2147483648"
    "runs (eng e) Q_kick" "runs (eng e') Q_login_select"
    "users_passwd e a t (Some pw) st = (st', None)"
  shows "auth_password_policy_ok pw = None \<and> (\<exists>d'. cur st' = Some d'
    \<and> t_sessions d' = filter (\<lambda>s. s_user_id s \<noteq> t) (t_sessions d)
    \<and> auth_user_login e' (Some (u_username u)) (Some pw) st' = t
    \<and> map_option u_password_changed_at (lookup_user t d') = Some (time_now e))"
proof -
  obtain h where h: "auth_hash_password e (Some pw) 256 = Some h" "auth_password_policy_ok pw = None"
    and st': "st' = auth_audit_log e a ''reset_password'' t (Some []) (remote_addr e)
      (auth_kick_user_sessions e t None (set_cur (set_password e t h d) st))"
    using assms(1,8) by (auto simp: users_passwd_def Let_def split: option.splits if_splits)
  have "0 < t" using assms(2) lookup_userD [OF assms(3)] by (force simp: db_wf_def)
  from password_written [OF assms(1-3) this assms(5,4,6,7) h(1) st'] h(2) show ?thesis by simp
qed

theorem users_passwd_effect_witness:
  "\<exists>st' d'. users_passwd sample_env 1 2 (Some sample_pw) sample_state = (st', None)
    \<and> cur st' = Some d' \<and> map s_sid (t_sessions d') = [''s1'']
    \<and> auth_user_login sample_env (Some ''alice'') (Some sample_pw) st' = 2"
proof -
  obtain st' where st': "users_passwd sample_env 1 2 (Some sample_pw) sample_state = (st', None)"
    by (simp add: users_passwd_def Let_def count_users_def sample_defs sample_state_def cur_def)
  have u: "lookup_user 2 sample_db = Some (sample_user 2 ''alice'' ''admin'')"
    "u_enabled (sample_user 2 ''alice'' ''admin'') = 1"
    by (simp_all add: lookup_user_def sample_defs)
  from users_passwd_effect [OF sample_cur sample_wf(1) u _ _ _ st', of sample_env] st'
  show ?thesis by (auto simp: sample_defs)
qed

text \<open>The two ways out of \<open>users_change_password\<close>: refused with the state as it was, or done
  with every check passed.\<close>

lemma change_password_cases:
  assumes c: "cur st = Some d" and u: "lookup_user i d = Some u"
    and b: "length (u_username u) < 64" "length (u_password_hash u) < 256"
    and q: "runs (eng e) Q_hash_select"
  obtains (refused) m where "users_change_password e i (Some old) (Some new) k st = (st, Some m)"
  | (success) h where "users_change_password e i (Some old) (Some new) k st =
        (auth_audit_log e i ''change_password'' i (Some []) (remote_addr e)
          (auth_kick_user_sessions e i k (set_cur (set_password e i h d) st)), None)"
      "0 < i" "0 \<le> auth_user_login e (Some (u_username u)) (Some old) st"
      "auth_password_policy_ok new = None"
      "\<not> auth_verify_password (Some new) (Some (u_password_hash u))"
      "auth_hash_password e (Some new) 256 = Some h"
proof -
  have nm: "snprintf_s 64 (u_username u) = u_username u" "snprintf_s 256 (u_password_hash u) = u_password_hash u"
    using b by (simp_all add: snprintf_s_def)
  note eq = users_change_password_def Let_def c u nm cur_SomeD [OF c] q [unfolded runs_def]
  define ok where "ok \<longleftrightarrow> 0 < i \<and> runs (eng e) Q_name_select \<and> u_username u \<noteq> []
      \<and> 0 \<le> auth_user_login e (Some (u_username u)) (Some old) st
      \<and> auth_password_policy_ok new = None \<and> \<not> auth_verify_password (Some new) (Some (u_password_hash u))
      \<and> runs (eng e) Q_user_passwd \<and> has_changed_at d"
  consider h where ok "auth_hash_password e (Some new) 256 = Some h"
    | "\<not> ok \<or> auth_hash_password e (Some new) 256 = None" by blast
  then show thesis
  proof cases
    case (1 h)
    show thesis
      by (rule success [OF _ _ _ _ _ 1(2)]) (use 1 in \<open>simp_all add: eq ok_def runs_def\<close>)
  next
    case 2
    have "\<exists>m. users_change_password e i (Some old) (Some new) k st = (st, Some m)"
      using 2 by (simp add: eq ok_def runs_def not_less not_le split: option.split) auto
    then show thesis using refused by blast
  qed
qed

text \<open>C17: a self-service password change either is refused and leaves everything as it was, or
  it verified the old password, got a new one that satisfies the policy and is not the current
  one, ended every session of the user except the one named by \<open>keep_sid\<close> and no session of
  anybody else, restarted the password clock, and lets the user log in with the new password.
  (Names and stored hashes fit the buffers, as \<open>users_create\<close> and \<open>auth_hash_password\<close> ensure.)\<close>

theorem users_change_password_effect:
  assumes "cur st = Some d" "db_wf d" "lookup_user i d = Some u" "i < 2147483648"
    "length (u_username u) < 64" "length (u_password_hash u) < 256"
    "runs (eng e) Q_kick" "runs (eng e) Q_hash_select" "runs (eng e') Q_login_select"
  shows "case users_change_password e i (Some old) (Some new) k st of
      (st', Some _) \<Rightarrow> st' = st
    | (st', None) \<Rightarrow> auth_verify_password (Some old) (Some (u_password_hash u))
        \<and> \<not> auth_verify_password (Some new) (Some (u_password_hash u))
        \<and> auth_password_policy_ok new = None \<and> (\<exists>d'. cur st' = Some d'
          \<and> t_sessions d' = filter (\<lambda>s. s_user_id s \<noteq> i \<or> Some (s_sid s) = k) (t_sessions d)
          \<and> auth_user_login e' (Some (u_username u)) (Some new) st' = i
          \<and> map_option u_password_changed_at (lookup_user i d') = Some (time_now e))"
  using assms(1,3,5,6,8)
proof (cases rule: change_password_cases [where old = old and new = new and k = k])
  case (success h)
  obtain v where v: "v \<in> set (t_users d)" "u_username v = u_username u" "u_enabled v = 1"
      "auth_verify_password (Some old) (Some (u_password_hash v))"
    using login_sound [OF refl success(3)] assms(1) by auto
  have "v = u"
    using lookup_name_in [OF assms(2) v(1)] lookup_name_in [OF assms(2) lookup_userD [OF assms(3), THEN conjunct1]]
    unfolding v(2) by (metis option.inject)
  with v have en: "u_enabled u = 1" "auth_verify_password (Some old) (Some (u_password_hash u))"
    by simp_all
  note w = password_written [OF assms(1-3) success(2) assms(4) en(1) assms(7,9) success(6) refl,
      of i "''change_password''" "Some []" "remote_addr e" k, unfolded imp_conv_disj]
  show ?thesis
    unfolding success(1) prod.case option.case using w en(2) success(4,5) by blast
qed simp

theorem users_change_password_effect_witness:
  "case users_change_password sample_env 2 (Some sample_pw) (Some sample_pw2) (Some ''s3'') sample_state of
      (st', Some _) \<Rightarrow> st' = sample_state
    | (st', None) \<Rightarrow> auth_user_login sample_env (Some ''alice'') (Some sample_pw2) st' = 2"
proof -
  have u: "lookup_user 2 sample_db = Some (sample_user 2 ''alice'' ''admin'')"
    by (simp add: lookup_user_def sample_defs)
  have "length sample_hash < 256"
    by (rule hash_password_length [OF sample_hash_eq])
  then show ?thesis
    using users_change_password_effect [OF sample_cur sample_wf(1) u, of sample_env sample_env
        sample_pw sample_pw2 "Some ''s3''"]
    by (auto simp: sample_user_def split: prod.splits option.splits)
qed

section \<open>Disabling a user\<close>

text \<open>C35: a user whose account is disabled can neither log in nor use a session: whatever
  password is tried and whatever session of that user is presented, \<open>auth_user_login\<close> does not
  return that user and \<open>auth_session_verify\<close> refuses.\<close>

theorem disabled_user_locked_out:
  assumes "cur st = Some d" "db_wf d" "u \<in> set (t_users d)" "u_enabled u = 0"
  shows "auth_user_login e (Some (u_username u)) pw st = -1
    \<and> (\<forall>s \<in> set (t_sessions d). s_user_id s = u_id u \<longrightarrow> auth_session_verify e (Some (s_sid s)) st = None)"
proof -
  have "find (\<lambda>v. u_username v = u_username u \<and> u_enabled v = 1) (t_users d) = None"
    using lookup_name_in [OF assms(2)] assms(3,4) by (auto simp: find_None_iff) (metis option.inject zero_neq_one)
  then have "auth_user_login e (Some (u_username u)) pw st = -1"
    using assms(1) by (simp add: auth_user_login_def split: option.splits)
  moreover have "auth_session_verify e (Some (s_sid s)) st = None"
    if s: "s \<in> set (t_sessions d)" "s_user_id s = u_id u" for s
  proof (cases "find (\<lambda>x. s_sid x = s_sid s \<and> s_expires_at x > time_now e) (t_sessions d)")
    case None
    then show ?thesis using assms(1) by (simp add: auth_session_verify_def)
  next
    case (Some s')
    then have "s' = s"
      using find_SomeD [OF Some] lookup_session_in [OF assms(2)] s(1) by (metis option.inject)
    with Some show ?thesis
      using assms(1,4) lookup_user_in [OF assms(2,3)] s(2) by (simp add: auth_session_verify_def)
  qed
  ultimately show ?thesis by blast
qed

theorem disabled_user_locked_out_witness:
  "auth_user_login sample_env (Some ''x'') (Some sample_pw)
     (sample_state\<lparr>disk := \<lambda>_. Some (empty_db\<lparr>t_users := [(sample_user 1 ''x'' ''admin'')\<lparr>u_enabled := 0\<rparr>], users_seq := 1\<rparr>)\<rparr>) = -1"
proof -
  let ?u = "(sample_user 1 ''x'' ''admin'')\<lparr>u_enabled := 0\<rparr>"
  let ?d = "empty_db\<lparr>t_users := [?u], users_seq := 1\<rparr>"
  have "db_wf ?d" by (simp add: db_wf_def user_ids_def sample_defs)
  from disabled_user_locked_out [OF _ this, of "sample_state\<lparr>disk := \<lambda>_. Some ?d\<rparr>" ?u sample_env "Some sample_pw"]
  show ?thesis by (simp add: cur_def sample_state_def sample_user_def)
qed

section \<open>The two halves of a toggle, and the listing\<close>

definition race_db :: database where
  "race_db = sample_db\<lparr>t_users := [sample_user 1 ''root'' ''root'', sample_user 2 ''alice'' ''root''],
     t_sessions := []\<rparr>"

definition race_state :: auth_state where
  "race_state = sample_state\<lparr>disk := \<lambda>_. Some race_db\<rparr>"

lemmas race_defs = race_state_def race_db_def sample_defs sample_state_def cur_def set_cur_def

lemma race_inv: "st_inv race_state"
  by (simp add: st_inv_def db_wf_def schema_current_def enabled_root_def user_ids_def race_defs)

lemma toggle_apply_users:
  assumes "cur st = Some d" "runs (eng e) Q_user_enable" "t \<in> user_ids d"
  obtains d' where "cur (fst (toggle_apply e a t en st)) = Some d'" "snd (toggle_apply e a t en st) = None"
    "t_users d' = map (\<lambda>u. if u_id u = t then u\<lparr>u_enabled := en, u_updated_at := time_now e\<rparr> else u) (t_users d)"
proof -
  let ?d = "sql_update_users (\<lambda>u. u_id u = t) (\<lambda>u. u\<lparr>u_enabled := en, u_updated_at := time_now e\<rparr>) d"
  have "filter (\<lambda>u. u_id u = t) (t_users d) \<noteq> []"
    using assms(3) by (auto simp: user_ids_def filter_empty_conv)
  moreover obtain d2 where "cur (auth_audit_log e a (if en \<noteq> 0 then ''enable_user'' else ''disable_user'')
      t (Some []) (remote_addr e) (set_cur ?d st)) = Some d2" "t_users d2 = t_users ?d"
    by (rule cur_audit_log [OF cur_set_cur' [OF assms(1)]])
  ultimately show ?thesis
    using that [of d2] assms by (simp add: toggle_apply_def count_users_def sql_update_users_def runs_def)
qed

lemma count_none: "count_users p d \<le> 0 \<longleftrightarrow> (\<forall>u\<in>set (t_users d). \<not> p u)"
  by (auto simp: count_users_def filter_empty_conv)

lemma toggle_check_root:
  assumes "cur st = Some d" "eng e = healthy" "lookup_user t d = Some u" "u_role u = ''root''" "t \<noteq> a"
  shows "toggle_check e a t 0 st = (if \<exists>v\<in>set (t_users d). u_role v = ''root'' \<and> u_enabled v = 1 \<and> u_id v \<noteq> t then None
    else Some ''Cannot disable last root user'')"
proof -
  have "g_db st \<noteq> None" using assms(1) by (auto simp: cur_def split: option.splits)
  then show ?thesis using assms unfolding toggle_check_def count_none by auto
qed

text \<open>C36: the last-root check holds one after the other and not side by side.  Take any database
  whose enabled root accounts are exactly two, each of which asks to disable the other, with all
  statements running.  When one request runs after the other, the second is refused and changes
  nothing.  When each has done its SELECT and COUNT before the UPDATE of either, both succeed, and no
  enabled root account is left.\<close>

theorem toggle_race:
  assumes "cur st = Some d" "db_wf d" "eng e1 = healthy" "eng e2 = healthy" "a \<noteq> b"
    "ra \<in> set (t_users d)" "rb \<in> set (t_users d)" "u_id ra = a" "u_id rb = b"
    "\<And>u. u \<in> set (t_users d) \<Longrightarrow> u_role u = ''root'' \<and> u_enabled u = 1 \<longleftrightarrow> u = ra \<or> u = rb"
  shows "(let (s1, m1) = users_toggle e1 a b 0 st in
      m1 = None \<and> users_toggle e2 b a 0 s1 = (s1, Some ''Cannot disable last root user''))
    \<and> toggle_check e1 a b 0 st = None \<and> toggle_check e2 b a 0 st = None
    \<and> (let (s1, m1) = toggle_apply e1 a b 0 st; (s2, m2) = toggle_apply e2 b a 0 s1 in
        m1 = None \<and> m2 = None \<and> (\<exists>d2. cur s2 = Some d2 \<and> \<not> enabled_root d2))"
proof -
  have root: "u_role ra = ''root''" "u_enabled ra = 1" "u_role rb = ''root''" "u_enabled rb = 1" using assms(6,7,10) by blast+
  have lk: "lookup_user a d = Some ra" "lookup_user b d = Some rb"
    using lookup_user_in [OF assms(2,6)] lookup_user_in [OF assms(2,7)] assms(8,9) by simp_all
  have c: "toggle_check e1 a b 0 st = None" "toggle_check e2 b a 0 st = None"
    using toggle_check_root [OF assms(1,3) lk(2) root(3)] toggle_check_root [OF assms(1,4) lk(1) root(1)] assms(5-9) root by auto
  obtain s1 where s1: "toggle_apply e1 a b 0 st = (s1, snd (toggle_apply e1 a b 0 st))" by (metis prod.collapse)
  define f :: "user_row \<Rightarrow> user_row" where "f = (\<lambda>u. if u_id u = b then u\<lparr>u_enabled := 0, u_updated_at := time_now e1\<rparr> else u)"
  have fid: "u_id (f u) = u_id u" for u by (simp add: f_def)
  obtain d1 where d1: "cur s1 = Some d1" "snd (toggle_apply e1 a b 0 st) = None" "t_users d1 = map f (t_users d)"
  proof (rule toggle_apply_users [OF assms(1), where e = e1 and a = a and en = 0 and t = b])
    show "b \<in> user_ids d" using assms(7,9) by (auto simp: user_ids_def)
  qed (use s1 assms(3) in \<open>auto simp: f_def prod_eq_iff\<close>)
  have none1: "\<not> (u_role v = ''root'' \<and> u_enabled v = 1 \<and> u_id v \<noteq> a)" if v: "v \<in> set (t_users d1)" for v
  proof -
    obtain u where u: "u \<in> set (t_users d)" "v = f u" using v d1(3) by auto
    then show ?thesis using assms(10) [OF u(1)] assms(8,9) by (auto simp: f_def)
  qed
  have lk1: "lookup_user a d1 = Some ra"
    using lk(1) assms(5,8) find_map_same [of "\<lambda>u. u_id u = a" f "t_users d"] fid assms(9)
    by (simp add: lookup_user_def d1(3) f_def)
  have "toggle_check e2 b a 0 s1 = Some ''Cannot disable last root user''"
    using toggle_check_root [OF d1(1) assms(4) lk1 root(1)] assms(5) none1 by auto
  then have seq: "users_toggle e2 b a 0 s1 = (s1, Some ''Cannot disable last root user'')" by (simp add: users_toggle_def)
  obtain s2 where s2: "toggle_apply e2 b a 0 s1 = (s2, snd (toggle_apply e2 b a 0 s1))" by (metis prod.collapse)
  obtain d2 where d2: "cur s2 = Some d2" "snd (toggle_apply e2 b a 0 s1) = None"
    "t_users d2 = map (\<lambda>u. if u_id u = a then u\<lparr>u_enabled := 0, u_updated_at := time_now e2\<rparr> else u) (t_users d1)"
  proof (rule toggle_apply_users [OF d1(1), where e = e2 and a = b and en = 0 and t = a])
    show "a \<in> user_ids d1" using lk1 lookup_user_None [of a d1] by auto
  qed (use s2 assms(4) in \<open>auto simp: prod_eq_iff\<close>)
  have "\<not> enabled_root d2" using none1 by (auto simp: enabled_root_def d2(3))
  then show ?thesis
    using c seq s1 s2 d1(2) d2(1,2) by (simp add: users_toggle_def)
qed

theorem toggle_race_witness:
  "\<exists>s1 s2 d2. toggle_apply sample_env 1 2 0 race_state = (s1, None) \<and> toggle_check sample_env 2 1 0 race_state = None
    \<and> toggle_apply sample_env 2 1 0 s1 = (s2, None) \<and> cur s2 = Some d2 \<and> \<not> enabled_root d2"
proof -
  let ?r = "sample_user 1 ''root'' ''root''" and ?a = "sample_user 2 ''alice'' ''root''"
  have d: "cur race_state = Some race_db" "t_users race_db = [?r, ?a]" "eng sample_env = healthy" by (simp_all add: race_defs)
  have w: "db_wf race_db" using race_inv d(1) by (simp add: st_inv_def)
  have u: "u_id ?r = 1" "u_id ?a = 2" "u_role ?r = ''root''" "u_role ?a = ''root''" "u_enabled ?r = 1" "u_enabled ?a = 1"
    by (simp_all add: sample_user_def)
  have i: "?r \<in> set (t_users race_db)" "?a \<in> set (t_users race_db)" by (simp_all add: d(2))
  have "u_role v = ''root'' \<and> u_enabled v = 1 \<longleftrightarrow> v = ?r \<or> v = ?a" if "v \<in> set (t_users race_db)" for v
    using that u by (auto simp: d(2))
  from toggle_race [OF d(1) w d(3,3) _ i u(1,2) this] show ?thesis by (auto split: prod.splits)
qed

text \<open>The listing.  When the COUNT query delivers, \<open>users_fetch_all\<close> returns every account in
  id order and the array is large enough; when it fails while the SELECT runs, the array has one
  entry and every database with two or more accounts makes the fill loop write past its end.\<close>

theorem users_fetch_all_result:
  assumes "cur st = Some d" "runs (eng e) Q_users_select" "length (t_users d) < 2147483648"
  shows "users_fetch_all e st = (if runs (eng e) Q_users_count \<or> length (t_users d) < 2
     then FetchOk (map user_row_out (t_users d)) else FetchOverflow)"
proof (cases "runs (eng e) Q_users_count")
  case True
  have "to_int32 (count_users (\<lambda>_. True) d) = int (length (t_users d))"
    using assms(3) by (simp add: count_users_def)
  with True show ?thesis
    using assms(1,2) by (cases "t_users d") (simp_all add: users_fetch_all_def Let_def runs_def)
next
  case False
  then show ?thesis using assms(1,2) by (auto simp: users_fetch_all_def Let_def runs_def)
qed

theorem users_fetch_all_result_witness:
  "users_fetch_all sample_env sample_state = FetchOk (map user_row_out (t_users sample_db))
   \<and> users_fetch_all (sample_env\<lparr>eng := healthy\<lparr>step_ok := (\<lambda>q. q \<noteq> Q_users_count)\<rparr>\<rparr>) sample_state = FetchOverflow"
  using users_fetch_all_result [OF sample_cur, of sample_env]
    users_fetch_all_result [OF sample_cur, of "sample_env\<lparr>eng := healthy\<lparr>step_ok := (\<lambda>q. q \<noteq> Q_users_count)\<rparr>\<rparr>"]
  by (simp add: runs_def healthy_def sample_defs sample_env_def)

end
