(* ===== verification/Sessions.thy ===== *)
theory Sessions
  imports Users
begin

text \<open>
  What \<open>src/auth.c\<close> promises about sessions, passwords, migration and the audit trail, stated over
  the definitions of the authentication library: the life cycle of a session from creation to
  expiry or logout, the meaning of a stored hash, the password policy and its clock, and the
  upgrade of databases written with an older schema.
\<close>

section \<open>Life cycle of a session\<close>

lemma length_token [simp]: "even n \<Longrightarrow> length (auth_generate_token e t n) = n"
  by (simp add: auth_generate_token_def)

lemma session_created:
  assumes "auth_session_create e i ip st = (st', Some (sid, csrf))" "cur st = Some d"
  obtains d' s where "cur st' = Some d'" "t_sessions d' = t_sessions d @ [s]" "s_sid s = sid"
    "s_user_id s = i" "s_csrf_token s = csrf" "s_expires_at s = time_now e + 3600"
    "sid \<notin> s_sid ` set (t_sessions d)" "length sid = 64" "length csrf = 32"
    "lookup_user i d' = map_option (\<lambda>u. if runs (eng e) Q_last_login
        then u\<lparr>u_last_login_at := Some (time_now e)\<rparr> else u) (lookup_user i d)"
proof -
  define s where "s = \<lparr>s_sid = sid, s_user_id = i, s_csrf_token = csrf, s_created_at = time_now e,
      s_expires_at = time_now e + 3600, s_client_ip = (case ip of None \<Rightarrow> [] | Some a \<Rightarrow> a)\<rparr>"
  have len: "length sid = 64" "length csrf = 32"
    using assms by (auto simp: auth_session_create_def Let_def split: if_splits option.splits)
  have fresh: "sid \<notin> s_sid ` set (t_sessions d)"
    and st': "st' = set_cur ((if runs (eng e) Q_last_login then sql_update_users (\<lambda>u. u_id u = i)
         (\<lambda>u. u\<lparr>u_last_login_at := Some (time_now e)\<rparr>) else id) (d\<lparr>t_sessions := t_sessions d @ [s]\<rparr>)) st"
    using assms by (auto simp: auth_session_create_def Let_def sql_insert_session_def s_def
        split: if_splits option.splits)
  let ?d = "(if runs (eng e) Q_last_login then sql_update_users (\<lambda>u. u_id u = i)
         (\<lambda>u. u\<lparr>u_last_login_at := Some (time_now e)\<rparr>) else id) (d\<lparr>t_sessions := t_sessions d @ [s]\<rparr>)"
  have lk: "lookup_user i (d\<lparr>t_sessions := x\<rparr>) = lookup_user i d" for x
    by (simp add: lookup_user_def)
  have "lookup_user i ?d = map_option (\<lambda>u. if runs (eng e) Q_last_login
        then u\<lparr>u_last_login_at := Some (time_now e)\<rparr> else u) (lookup_user i d)"
    by (cases "lookup_user i d") (auto simp: lookup_user_update lk dest: lookup_userD)
  moreover have "t_sessions ?d = t_sessions d @ [s]" by (simp add: sql_update_users_def)
  ultimately show thesis
    using that [of ?d s] assms(2) fresh len by (simp add: st' s_def)
qed

text \<open>C14: a session lives exactly one hour.  After a successful \<open>auth_session_create\<close> for an
  enabled user the returned identifier has 64 hexadecimal digits and verifies, with the user's id,
  name, role and the returned CSRF token, at every instant before creation time plus 3600 seconds,
  and at no later instant.\<close>

theorem session_lifetime:
  assumes "auth_session_create e i ip st = (st', Some (sid, csrf))" "cur st = Some d" "db_wf d"
    "lookup_user i d = Some u" "u_enabled u = 1" "i < 2147483648" "length (u_username u) < 64"
    "runs (eng e') Q_session_select"
  shows "auth_session_verify e' (Some sid) st' =
    (if time_now e' < time_now e + 3600
     then Some \<lparr>si_user_id = i, si_username = u_username u, si_role = u_role u, si_csrf_token = csrf\<rparr>
     else None)"
proof -
  from assms(1,2) obtain d' s where s: "cur st' = Some d'" "t_sessions d' = t_sessions d @ [s]" "s_sid s = sid"
    "s_user_id s = i" "s_csrf_token s = csrf" "s_expires_at s = time_now e + 3600"
    "sid \<notin> s_sid ` set (t_sessions d)" "length sid = 64" "length csrf = 32"
    "lookup_user i d' = map_option (\<lambda>u. if runs (eng e) Q_last_login
        then u\<lparr>u_last_login_at := Some (time_now e)\<rparr> else u) (lookup_user i d)"
    by (rule session_created)
  have u: "u_role u = ''root'' \<or> u_role u = ''admin''" "1 \<le> i"
    using assms(3) lookup_userD [OF assms(4)] by (auto simp: db_wf_def)
  have old: "find (\<lambda>x. s_sid x = sid \<and> time_now e' < s_expires_at x) (t_sessions d) = None"
    using s(7) by (auto simp: find_None_iff)
  have "find (\<lambda>x. s_sid x = sid \<and> time_now e' < s_expires_at x) (t_sessions d')
        = (if time_now e' < time_now e + 3600 then Some s else None)"
    using old s(3,6) by (simp add: s(2) find_appendI find_append_other)
  with s u assms(4-8) show ?thesis
    by (auto simp: auth_session_verify_def snprintf_s_def)
qed

theorem session_lifetime_witness:
  "\<exists>st' sid csrf. auth_session_create sample_env 2 None sample_state = (st', Some (sid, csrf))
     \<and> auth_session_verify (sample_env\<lparr>time_now := 4599\<rparr>) (Some sid) st' \<noteq> None
     \<and> auth_session_verify (sample_env\<lparr>time_now := 4600\<rparr>) (Some sid) st' = None"
proof -
  have ne: "length k < 64 \<Longrightarrow> auth_generate_token x y 64 \<noteq> k" for k x y
    by (metis length_token even_numeral less_irrefl)
  obtain st' sid csrf where c: "auth_session_create sample_env 2 None sample_state = (st', Some (sid, csrf))"
    by (simp add: auth_session_create_def Let_def sql_insert_session_def sample_defs user_ids_def ne)
  have u: "lookup_user 2 sample_db = Some (sample_user 2 ''alice'' ''admin'')"
    by (simp add: lookup_user_def sample_defs)
  show ?thesis
    using c session_lifetime [OF c sample_cur sample_wf(1) u, of "sample_env\<lparr>time_now := 4599\<rparr>"]
      session_lifetime [OF c sample_cur sample_wf(1) u, of "sample_env\<lparr>time_now := 4600\<rparr>"]
    by (auto simp: sample_user_def sample_env_def)
qed

lemma session_verify_row:
  assumes "auth_session_verify e k st = Some si" "cur st = Some d" "db_wf d" "users_seq d < 2147483648"
  obtains s u where "s \<in> set (t_sessions d)" "k = Some (s_sid s)" "length (s_sid s) = 64"
    "time_now e < s_expires_at s" "u \<in> set (t_users d)" "u_id u = s_user_id s" "u_enabled u \<noteq> 0"
    "si_user_id si = u_id u" "si_username si = snprintf_s 64 (u_username u)" "si_role si = u_role u"
    "si_csrf_token si = take 32 (s_csrf_token s)"
proof -
  obtain s u where s: "find (\<lambda>s. Some (s_sid s) = k \<and> time_now e < s_expires_at s) (t_sessions d) = Some s"
    and len: "length (s_sid s) = 64"
    and u: "lookup_user (s_user_id s) d = Some u" "to_int32 (u_enabled u) \<noteq> 0"
    and si: "si = \<lparr>si_user_id = to_int32 (s_user_id s), si_username = snprintf_s 64 (u_username u),
                  si_role = snprintf_s 16 (u_role u), si_csrf_token = snprintf_s 33 (s_csrf_token s)\<rparr>"
    using assms(1,2)
    by (auto simp: auth_session_verify_def split: option.splits if_splits) (auto dest: find_SomeD)
  have "1 \<le> u_id u \<and> u_id u \<le> users_seq d \<and> (u_role u = ''root'' \<or> u_role u = ''admin'')"
    using assms(3) lookup_userD [OF u(1)] unfolding db_wf_def by blast
  moreover have "u_enabled u \<noteq> 0" using u(2) by auto
  ultimately show thesis
    using find_SomeD [OF s] lookup_userD [OF u(1)] len assms(4)
    by (intro that [of s u]) (auto simp: si snprintf_s_def)
qed

text \<open>A session identifier that \<open>auth_session_verify\<close> accepts is the key of a stored session
  that has not expired and whose owner exists and is enabled; the answer carries that user's id
  and role and the session's CSRF token.\<close>

theorem session_verify_sound:
  assumes "auth_session_verify e k st = Some si" "cur st = Some d" "db_wf d" "users_seq d < 2147483648"
  shows "\<exists>s u. s \<in> set (t_sessions d) \<and> k = Some (s_sid s) \<and> length (s_sid s) = 64
    \<and> time_now e < s_expires_at s \<and> u \<in> set (t_users d) \<and> u_id u = s_user_id s
    \<and> u_enabled u \<noteq> 0 \<and> si_user_id si = u_id u \<and> si_role si = u_role u
    \<and> si_csrf_token si = take 32 (s_csrf_token s)"
  using session_verify_row [OF assms] by metis

definition sample_sid :: string where "sample_sid = replicate 64 (CHR ''a'')"

definition live_db :: database where
  "live_db = sample_db\<lparr>t_sessions := [sample_session sample_sid 2]\<rparr>"

definition live_state :: auth_state where
  "live_state = sample_state\<lparr>disk := \<lambda>_. Some live_db\<rparr>"

lemma live_cur [simp]: "cur live_state = Some live_db"
  by (simp add: live_state_def cur_def sample_state_def)

lemma live_wf [simp]: "db_wf live_db"
  by (simp add: live_db_def db_wf_def user_ids_def sample_defs)

lemma live_verify: "auth_session_verify sample_env (Some sample_sid) live_state =
    Some \<lparr>si_user_id = 2, si_username = ''alice'', si_role = ''admin'', si_csrf_token = ''tok''\<rparr>"
  by (simp add: auth_session_verify_def live_db_def sample_defs lookup_user_def snprintf_s_def sample_sid_def)

theorem session_verify_sound_witness:
  "\<exists>s \<in> set (t_sessions live_db). s_sid s = sample_sid \<and> s_user_id s = 2 \<and> 1000 < s_expires_at s"
  using session_verify_sound [OF live_verify live_cur live_wf]
  by (auto simp: live_db_def sample_db_def)

text \<open>Logging out ends the session: after \<open>auth_session_destroy\<close> has run, the identifier is
  refused at every later instant, and the sessions with other identifiers are untouched.\<close>

theorem session_destroy_effect:
  assumes "cur st = Some d" "runs (eng e) Q_session_delete"
  shows "auth_session_verify e' (Some k) (auth_session_destroy e (Some k) st) = None
    \<and> cur (auth_session_destroy e (Some k) st)
      = Some (d\<lparr>t_sessions := filter (\<lambda>s. s_sid s \<noteq> k) (t_sessions d)\<rparr>)"
proof -
  have "cur (auth_session_destroy e (Some k) st)
      = Some (d\<lparr>t_sessions := filter (\<lambda>s. s_sid s \<noteq> k) (t_sessions d)\<rparr>)"
    using assms by (simp add: auth_session_destroy_def sql_delete_sessions_def)
  moreover have "find (\<lambda>s. s_sid s = k \<and> b s) (filter (\<lambda>s. s_sid s \<noteq> k) (t_sessions d)) = None" for b
    by (auto simp: find_None_iff)
  ultimately show ?thesis by (simp add: auth_session_verify_def)
qed

theorem session_destroy_effect_witness:
  "auth_session_verify sample_env (Some sample_sid) live_state \<noteq> None
   \<and> auth_session_verify sample_env (Some sample_sid) (auth_session_destroy sample_env (Some sample_sid) live_state) = None"
  using live_verify session_destroy_effect [OF live_cur, of sample_env sample_env sample_sid] by simp

section \<open>Passwords\<close>

text \<open>The digest of a salted password, by the reference definition of SHA-256.\<close>

definition iterated_digest :: "string \<Rightarrow> string \<Rightarrow> bytes" where
  "iterated_digest salt pw = foldl (\<lambda>dg r. fips_sha256 (dg @ le32 (int r)))
     (fips_sha256 (map byte_of_char (salt @ '':'' @ pw))) [1..<100000]"

lemma hash_rounds_iterated: "hash_rounds (first_hash salt pw) 100000 = iterated_digest salt pw"
proof -
  have "foldl hash_round x (map int ns) = foldl (\<lambda>dg r. fips_sha256 (dg @ le32 (int r))) x ns" for x ns
    by (induction ns arbitrary: x) (simp_all add: hash_round_spec del: upt.simps)
  then show ?thesis by (simp add: hash_rounds_def iterated_digest_def first_hash_spec del: upt.simps)
qed

text \<open>C28: what a stored hash accepts.  A hash made from \<open>pw\<close> verifies \<open>pw'\<close> exactly when \<open>pw'\<close> has
  1 to 64 bytes and the iterated SHA-256 (100000 rounds over the FIPS 180-4 function, with the
  salt in the hash) of both agree; in particular it verifies \<open>pw\<close>, and any other accepted password
  would be a digest collision.\<close>

theorem stored_hash_accepts:
  assumes "auth_hash_password e (Some pw) n = Some h"
  shows "\<exists>salt. length salt = 32 \<and> (\<forall>pw'. auth_verify_password (Some pw') (Some h) =
    (1 \<le> length pw' \<and> length pw' \<le> 64 \<and> iterated_digest salt pw' = iterated_digest salt pw))"
proof -
  obtain salt where s: "length salt = 32" "\<And>c. c \<in> set salt \<Longrightarrow> c_isxdigit c"
    "h = stored_form salt (hex_encode (hash_rounds (first_hash salt pw) 100000))"
    using hash_password_form [OF assms] by blast
  have "auth_verify_password (Some pw') (Some h) =
    (1 \<le> length pw' \<and> length pw' \<le> 64 \<and> iterated_digest salt pw' = iterated_digest salt pw)" for pw'
  proof (cases "length pw' \<in> {1..64}")
    case True
    have "hex_encode a = hex_encode b \<longleftrightarrow> a = b" for a b using hex_encode_inj by blast
    with True verify_stored_form [OF True s(1,2), of "hex_encode (iterated_digest salt pw)"] show ?thesis
      unfolding s(3) hash_rounds_iterated by simp
  next
    case False
    then show ?thesis by (cases pw') (auto simp: auth_verify_password_def)
  qed
  with s(1) show ?thesis by blast
qed

theorem stored_hash_accepts_witness:
  "auth_verify_password (Some sample_pw) (Some sample_hash)
   \<and> \<not> auth_verify_password (Some []) (Some sample_hash)"
proof -
  obtain salt where s: "auth_verify_password (Some pw') (Some sample_hash) =
      (1 \<le> length pw' \<and> length pw' \<le> 64 \<and> iterated_digest salt pw' = iterated_digest salt sample_pw)" for pw'
    using stored_hash_accepts [OF sample_hash_eq] by blast
  have "1 \<le> length sample_pw" "length sample_pw \<le> 64" by (simp_all add: sample_pw_def)
  then show ?thesis using s [of sample_pw] s [of "[]"] by (simp only: list.size) simp
qed

text \<open>The password policy: accepted are exactly the passwords of 10 to 64 bytes, all of them
  visible ASCII, with at least one upper-case letter, one lower-case letter, one digit and one
  other visible character.\<close>

theorem password_policy_spec:
  "auth_password_policy_ok p = None \<longleftrightarrow> length p \<in> {10..64}
     \<and> set p \<subseteq> {c. 0x21 \<le> code c \<and> code c \<le> 0x7E}
     \<and> (\<exists>c \<in> set p. c_isupper c) \<and> (\<exists>c \<in> set p. c_islower c) \<and> (\<exists>c \<in> set p. c_isdigit c)
     \<and> (\<exists>c \<in> set p. \<not> c_isalnum c)"
  unfolding policy_ok_iff
  by (auto simp: list_all_iff list_ex_iff visible_def punct_def c_isalnum_def)

text \<open>The password clock.  For a user whose clock was started at \<open>t\<close> not in the future, a
  change is forced exactly from the 90th day on, and the number of days shown is the whole days
  left until then: it is positive only while no change is forced.\<close>

theorem password_clock:
  assumes "auth_user_password_changed_at e i st = Some t" "0 < t" "t \<le> time_now e"
  shows "auth_user_must_change_password e i st = (time_now e \<ge> t + 7776000)
    \<and> auth_user_days_left e i st = max 0 ((t + 7776000 - time_now e) div 86400)"
proof -
  define x where "x = t + 7776000 - time_now e"
  have x: "x \<le> 7776000" "7776000 - (time_now e - t) = x" using assms(3) by (simp_all add: x_def)
  have "(if cdiv x 86400 < 0 then 0 else to_int32 (cdiv x 86400)) = max 0 (x div 86400)"
  proof (cases "0 \<le> x")
    case True
    then have "0 \<le> x div 86400" "x div 86400 \<le> 90" using x(1) by (simp, linarith)
    with True show ?thesis by simp
  next
    case False
    then have "cdiv x 86400 \<le> 0" "x div 86400 < 0" by (auto simp: cdiv_def)
    then show ?thesis by (cases "cdiv x 86400 = 0") simp_all
  qed
  then show ?thesis
    using assms(1,2) x
    by (auto simp: auth_user_must_change_password_def auth_user_days_left_def Let_def simp flip: x_def)
qed

theorem password_clock_witness:
  "auth_user_password_changed_at sample_env 2 sample_state = Some 500
   \<and> auth_user_days_left sample_env 2 sample_state = 89"
proof -
  have c: "auth_user_password_changed_at sample_env 2 sample_state = Some 500"
    by (simp add: auth_user_password_changed_at_def lookup_user_def sample_defs)
  from password_clock [OF c] c show ?thesis by simp
qed

section \<open>Opening the database\<close>

definition same_accounts :: "database \<Rightarrow> database \<Rightarrow> bool" where
  "same_accounts d d' \<longleftrightarrow> t_sessions d' = t_sessions d \<and> t_audit d' = t_audit d
     \<and> map (\<lambda>u. u\<lparr>u_password_changed_at := 0\<rparr>) (t_users d') = map (\<lambda>u. u\<lparr>u_password_changed_at := 0\<rparr>) (t_users d)"

lemma migrate_same_accounts:
  "same_accounts d (migrate_password_policy e (migrate_delete_fks e d))"
  "has_changed_at d \<Longrightarrow> t_users (migrate_password_policy e (migrate_delete_fks e d)) = t_users d"
  by (auto simp: same_accounts_def migrate_password_policy_def migrate_delete_fks_def
      migrate_audit_def migrate_sessions_def Let_def)

text \<open>Opening a database written with an older schema upgrades it: \<open>auth_init\<close> returns 0 with
  that database open, every foreign key has its current delete action and the password clock
  column is there; no account, session or audit row is lost or altered except that the clock of
  every account of a database without the column reads 0 (so that a change is forced); the result is
  well formed, and opening it again changes nothing.\<close>

theorem auth_init_migrates:
  assumes "disk st p = Some d" "db_wf d" "g_db st = None" "eng e = healthy"
  shows "\<exists>d'. snd (auth_init e p st) = 0 \<and> cur (fst (auth_init e p st)) = Some d' \<and> schema_current d'
    \<and> db_wf d' \<and> same_accounts d d'
    \<and> t_users d' = (if has_changed_at d then t_users d
        else map (\<lambda>u. u\<lparr>u_password_changed_at := 0\<rparr>) (t_users d))
    \<and> migrate_password_policy healthy (migrate_delete_fks healthy d') = d'"
proof -
  let ?d = "migrate_password_policy healthy (migrate_delete_fks healthy d)"
  have "cur (fst (auth_init e p st)) = Some ?d" "snd (auth_init e p st) = 0"
    using assms by (simp_all add: auth_init_def auth_cleanup_def cur_def set_cur_def Let_def)
  moreover have "t_users ?d = (if has_changed_at d then t_users d
        else map (\<lambda>u. u\<lparr>u_password_changed_at := 0\<rparr>) (t_users d))"
    by (simp add: migrate_password_policy_def migrate_delete_fks_def migrate_audit_def
        migrate_sessions_def Let_def)
  ultimately show ?thesis
    using schema_current_migrate [OF assms(2)] wf_migrate [OF assms(2), of healthy]
      migrate_same_accounts(1) [of d healthy] migrate_current [of ?d healthy] by blast
qed

definition old_db :: database where
  "old_db = sample_db\<lparr>fk_operator := NoAction, fk_target := NoAction, fk_session := NoAction, has_changed_at := False\<rparr>"

theorem auth_init_migrates_witness:
  "\<exists>d'. cur (fst (auth_init sample_env ''x'' \<lparr>g_db = None, g_db_path = [], disk = (\<lambda>_. Some old_db)\<rparr>)) = Some d'
     \<and> schema_current d' \<and> \<not> schema_current old_db \<and> map u_id (t_users d') = [1, 2, 3]"
proof -
  have "db_wf old_db" using sample_wf(1) by (simp add: old_db_def db_wf_def user_ids_def)
  from auth_init_migrates [OF _ this, of "\<lparr>g_db = None, g_db_path = [], disk = (\<lambda>_. Some old_db)\<rparr>" "''x''" sample_env]
  obtain d' where d': "cur (fst (auth_init sample_env ''x'' \<lparr>g_db = None, g_db_path = [], disk = (\<lambda>_. Some old_db)\<rparr>)) = Some d'"
    "schema_current d'" "t_users d' = map (\<lambda>u. u\<lparr>u_password_changed_at := 0\<rparr>) (t_users old_db)"
    by (auto simp: old_db_def)
  then show ?thesis by (auto simp: old_db_def schema_current_def sample_defs)
qed

text \<open>The audit trail.  An entry is appended, with the arguments it was called with and the
  present time, exactly when the insert runs and operator and target are existing accounts; a
  call naming an unknown account (such as target 0) is dropped without a trace and changes nothing.\<close>

theorem audit_log_effect:
  assumes "cur st = Some d" "runs (eng e) Q_audit_insert" "audit_seq d < max_rowid"
  shows "cur (auth_audit_log e op act tg det ip st) = Some (if op \<in> user_ids d \<and> tg \<in> user_ids d
    then d\<lparr>t_audit := t_audit d @ [\<lparr>a_id = audit_seq d + 1, a_operator_id = Some op, a_action = act,
              a_target_user_id = Some tg, a_detail = (case det of None \<Rightarrow> [] | Some x \<Rightarrow> x),
              a_client_ip = (case ip of None \<Rightarrow> [] | Some x \<Rightarrow> x), a_created_at = time_now e\<rparr>],
           audit_seq := audit_seq d + 1\<rparr> else d)"
  using assms by (simp add: auth_audit_log_def sql_insert_audit_def)

theorem audit_log_effect_witness:
  "cur (auth_audit_log sample_env 1 ''login_fail'' 0 None None sample_state) = Some sample_db"
  using audit_log_effect [OF sample_cur, of sample_env 1 "''login_fail''" 0 None None]
  by (simp add: sample_defs user_ids_def max_rowid_def)

end
