(* ===== verification/Common.thy ===== *)
theory Common
  imports Auth
begin

text \<open>
  The CGI helpers of \<open>src/common.c\<close>: response headers, cookies and the parameters of a
  form-encoded POST body.  \<open>world\<close> extends the authentication state with what a CGI program
  changes outside the database: its standard output and the text files it reads and writes
  (\<open>w_writable\<close> says which paths can be opened for writing).  \<open>malloc\<close> is taken to succeed.
\<close>

section \<open>The process and its output\<close>

record world = auth_state +
  w_out :: string
  w_files :: "string \<Rightarrow> string option"
  w_writable :: "string \<Rightarrow> bool"

definition emit :: "string \<Rightarrow> 'a world_scheme \<Rightarrow> 'a world_scheme" where
  "emit s w = w\<lparr>w_out := w_out w @ s\<rparr>"

definition crlf :: string where
  "crlf = [char_of (13::nat), char_of (10::nat)]"

definition cgi_header :: "string \<Rightarrow> 'a world_scheme \<Rightarrow> 'a world_scheme" where
  "cgi_header content_type = emit (''Content-Type: '' @ content_type @ crlf @ crlf)"

definition cgi_redirect :: "string \<Rightarrow> 'a world_scheme \<Rightarrow> 'a world_scheme" where
  "cgi_redirect url = emit (''Status: 302'' @ crlf @ ''Location: '' @ url @ crlf @ crlf)"

definition get_env :: "env \<Rightarrow> string \<Rightarrow> string" where
  "get_env e key = (case getenv e key of None \<Rightarrow> [] | Some v \<Rightarrow> v)"

section \<open>Cookies\<close>

lemma after_chr_shorter: "after_chr c s = Some r \<Longrightarrow> length r < length s"
proof (induction s)
  case (Cons x s)
  then show ?case by (cases "x = c") (auto simp: after_chr_def split: list.splits)
qed (simp add: after_chr_def)

function cookie_scan :: "string \<Rightarrow> string \<Rightarrow> string option" where
  "cookie_scan name s = (if s = [] then None
     else let p = dropWhile (\<lambda>c. c = CHR '' '') s in
       if has_prefix (name @ ''='') p
       then Some (take 255 (takeWhile (\<lambda>c. c \<noteq> CHR '';'' \<and> c \<noteq> CHR '' '') (drop (length name + 1) p)))
       else (case after_chr (CHR '';'') p of None \<Rightarrow> None | Some r \<Rightarrow> cookie_scan name r))"
  by pat_completeness auto
termination
proof (relation "measure (length \<circ> snd)", goal_cases)
  case (2 name s p r)
  then show ?case
    using after_chr_shorter [of "CHR '';''" p r] length_dropWhile_le [of "\<lambda>c. c = CHR '' ''" s]
    by simp
qed simp

declare cookie_scan.simps [simp del]

definition get_cookie :: "env \<Rightarrow> string \<Rightarrow> string option" where
  "get_cookie e name = (case getenv e ''HTTP_COOKIE'' of None \<Rightarrow> None | Some c \<Rightarrow> cookie_scan name c)"

section \<open>POST parameters\<close>

definition cache_post_body :: "env \<Rightarrow> string option" where
  "cache_post_body e = (case getenv e ''CONTENT_LENGTH'' of None \<Rightarrow> None
     | Some cl_str \<Rightarrow> if cl_str = [] then None
         else let cl = atoi cl_str in
           if cl \<le> 0 \<or> cl > 65536 then None
           else Some (cstr (take (nat cl) (stdin_data e))))"

definition to_char :: "int \<Rightarrow> char" where
  "to_char v = char_of (nat (v mod 256))"

fun url_decode :: "string \<Rightarrow> string" where
  "url_decode [] = []"
| "url_decode (c # cs) =
     (if c = CHR ''%'' \<and> 2 \<le> length cs
      then to_char (strtol16 (take 2 cs)) # url_decode (drop 2 cs)
      else if c = CHR ''+'' then CHR '' '' # url_decode cs
      else c # url_decode cs)"

function param_scan :: "string \<Rightarrow> string \<Rightarrow> string option" where
  "param_scan name p = (if p = [] then None
     else if has_prefix (name @ ''='') p
     then Some (cstr (url_decode (before_chr (CHR ''&'') (drop (length name + 1) p))))
     else (case after_chr (CHR ''&'') p of None \<Rightarrow> None | Some r \<Rightarrow> param_scan name r))"
  by pat_completeness auto
termination
  by (relation "measure (length \<circ> snd)") (auto dest: after_chr_shorter)

declare param_scan.simps [simp del]

definition get_post_param :: "env \<Rightarrow> string \<Rightarrow> string option" where
  "get_post_param e param_name = (case cache_post_body e of None \<Rightarrow> None
     | Some body \<Rightarrow> param_scan param_name body)"

section \<open>Query strings\<close>

text \<open>The parsing of the action at the top of \<open>network.cgi.c\<close>, \<open>timesync.cgi.c\<close> and \<open>ntpmon.cgi.c\<close>:
  up to 15 bytes after a leading \<open>action=\<close>.\<close>

definition qs_action :: "env \<Rightarrow> string" where
  "qs_action e = (let qs = get_env e ''QUERY_STRING'' in
     if has_prefix ''action='' qs then takeWhile (\<lambda>c. c \<noteq> CHR ''&'') (take 15 (drop 7 qs)) else [])"

section \<open>Frame lemmas\<close>

lemma cur_emit [simp]: "cur (emit s w) = cur w" "g_db (emit s w) = g_db w" "disk (emit s w) = disk w"
  "g_db_path (emit s w) = g_db_path w" "w_files (emit s w) = w_files w"
  by (simp_all add: emit_def cur_def split: option.split)

lemma cur_header [simp]: "cur (cgi_header s w) = cur w" "g_db (cgi_header s w) = g_db w"
  "disk (cgi_header s w) = disk w" "g_db_path (cgi_header s w) = g_db_path w"
  "cur (cgi_redirect s w) = cur w" "g_db (cgi_redirect s w) = g_db w"
  "disk (cgi_redirect s w) = disk w" "g_db_path (cgi_redirect s w) = g_db_path w"
  by (simp_all add: cgi_header_def cgi_redirect_def)

section \<open>Decoding inverts encoding\<close>

text \<open>What a browser sends: letters, digits and a few marks as they are, every other byte as a
  percent sign and two hexadecimal digits; pairs joined by ampersands.\<close>

definition url_plain :: "char \<Rightarrow> bool" where
  "url_plain c \<longleftrightarrow> c_isalnum c \<or> c = CHR ''-'' \<or> c = CHR ''_'' \<or> c = CHR ''.'' \<or> c = CHR ''~''"

definition url_encode :: "string \<Rightarrow> string" where
  "url_encode s = concat (map (\<lambda>c. if url_plain c then [c] else CHR ''%'' # hex_byte (byte_of_char c)) s)"

fun form_encode :: "(string \<times> string) list \<Rightarrow> string" where
  "form_encode [] = []"
| "form_encode [(k, v)] = k @ ''='' @ url_encode v"
| "form_encode ((k, v) # p # ps) = k @ ''='' @ url_encode v @ ''&'' @ form_encode (p # ps)"

lemma hex_pair_decodes: "to_char (strtol16 (hex_byte (byte_of_char c))) = c"
proof -
  have "unat (byte_of_char c) < 256" using unsigned_less [of "byte_of_char c"] by simp
  then have "to_char (int (unat (byte_of_char c))) = char_of (unat (byte_of_char c))"
    unfolding to_char_def by (metis mod_less nat_int of_nat_mod of_nat_numeral)
  then show ?thesis by (simp only: strtol16_hex_byte char_of_byte_of_char)
qed

lemma url_plain_special: "url_plain c \<Longrightarrow> c \<noteq> CHR ''%'' \<and> c \<noteq> CHR ''+'' \<and> c \<noteq> CHR ''&'' \<and> c \<noteq> CHR ''=''"
  by (auto simp: url_plain_def c_isalnum_def c_isdigit_def c_isupper_def c_islower_def)

lemma url_decode_encode: "url_decode (url_encode s) = s"
proof (induction s)
  case (Cons c s)
  have two: "length (hex_byte b @ r) \<ge> 2" "take 2 (hex_byte b @ r) = hex_byte b" "drop 2 (hex_byte b @ r) = r" for b r
    by (simp_all add: hex_byte_def)
  show ?case
  proof (cases "url_plain c")
    case True
    then show ?thesis using Cons url_plain_special [OF True] by (simp add: url_encode_def)
  next
    case False
    then have "url_encode (c # s) = CHR ''%'' # (hex_byte (byte_of_char c) @ url_encode s)"
      by (simp add: url_encode_def)
    with Cons two show ?thesis by (simp only: url_decode.simps hex_pair_decodes) simp
  qed
qed (simp add: url_encode_def)

lemma url_encode_no_amp: "CHR ''&'' \<notin> set (url_encode s)"
proof -
  have "c \<in> set (hex_byte b) \<Longrightarrow> c \<noteq> CHR ''&''" for c b
    using hex_encode_xdigits [of c "[b]"]
    by (auto simp: hex_encode_def c_isxdigit_def c_isdigit_def)
  then show ?thesis
    using url_plain_special by (auto simp: url_encode_def split: if_splits)
qed

lemma url_encode_nonzero: "c \<in> set (url_encode s) \<Longrightarrow> code c \<noteq> 0"
proof -
  have "c \<in> set (hex_byte b) \<Longrightarrow> code c \<noteq> 0" for b
    using hex_encode_xdigits [of c "[b]"] by (auto simp: hex_encode_def c_isxdigit_def c_isdigit_def)
  moreover have "url_plain c \<Longrightarrow> code c \<noteq> 0"
    by (auto simp: url_plain_def c_isalnum_def c_isdigit_def c_isupper_def c_islower_def)
  ultimately show "c \<in> set (url_encode s) \<Longrightarrow> code c \<noteq> 0"
    by (auto simp: url_encode_def split: if_splits)
qed

lemma before_chr_none: "c \<notin> set s \<Longrightarrow> before_chr c s = s"
  unfolding before_chr_def by (rule takeWhile_eq_all_conv [THEN iffD2]) auto

lemma has_prefix_key:
  assumes "CHR ''='' \<notin> set k" "CHR ''='' \<notin> set k'"
  shows "has_prefix (k @ ''='') (k' @ ''='' @ r) \<longleftrightarrow> k = k'"
proof
  assume "has_prefix (k @ ''='') (k' @ ''='' @ r)"
  then obtain t where "k' @ CHR ''='' # r = (k @ ''='') @ t"
    unfolding has_prefix_def by (metis append_Cons append_Nil append_take_drop_id)
  then have "k' @ CHR ''='' # r = k @ CHR ''='' # t" by simp
  then have "takeWhile (\<lambda>c. c \<noteq> CHR ''='') (k' @ CHR ''='' # r) = takeWhile (\<lambda>c. c \<noteq> CHR ''='') (k @ CHR ''='' # t)"
    by (rule arg_cong)
  moreover have "takeWhile (\<lambda>c. c \<noteq> CHR ''='') (x @ CHR ''='' # y) = x" if "CHR ''='' \<notin> set x" for x y
    using that by (intro takeWhile_append_stop) auto
  ultimately show "k = k'" using assms by simp
qed (simp add: has_prefix_def)

definition key_ok :: "string \<Rightarrow> bool" where
  "key_ok k \<longleftrightarrow> CHR ''='' \<notin> set k \<and> CHR ''&'' \<notin> set k"

lemma after_chr_none: "c \<notin> set s \<Longrightarrow> after_chr c s = None"
  by (induction s) (auto simp: after_chr_def)

lemma param_scan_form:
  assumes "key_ok k" "\<And>k' v. (k', v) \<in> set kvs \<Longrightarrow> key_ok k' \<and> (\<forall>c \<in> set v. code c \<noteq> 0)"
  shows "param_scan k (form_encode kvs) = map_of kvs k"
  using assms(2)
proof (induction kvs rule: form_encode.induct)
  case 1
  then show ?case by (simp add: param_scan.simps)
next
  case (2 k' v)
  have ok: "key_ok k'" "\<And>c. c \<in> set v \<Longrightarrow> code c \<noteq> 0" using 2 by auto
  have "CHR ''&'' \<notin> set (k' @ ''='' @ url_encode v)"
    using ok url_encode_no_amp by (simp add: key_ok_def)
  then show ?case
    using ok assms(1) has_prefix_key [of k k' "url_encode v"]
    by (simp add: param_scan.simps [of k "k' @ _"] key_ok_def before_chr_none url_encode_no_amp
        url_decode_encode cstr_id after_chr_none)
next
  case (3 k' v p ps)
  have ok: "key_ok k'" "\<And>c. c \<in> set v \<Longrightarrow> code c \<noteq> 0" using 3 by auto
  let ?r = "form_encode (p # ps)"
  have f: "form_encode ((k', v) # p # ps) = (k' @ ''='' @ url_encode v) @ CHR ''&'' # ?r" by simp
  have "CHR ''&'' \<notin> set (k' @ ''='' @ url_encode v)"
    using ok url_encode_no_amp by (simp add: key_ok_def)
  then have "after_chr (CHR ''&'') (form_encode ((k', v) # p # ps)) = Some ?r"
    unfolding f by (rule after_chr_stop)
  moreover have "param_scan k ?r = map_of (p # ps) k"
    by (rule "3.IH") (use "3.prems" in force)
  moreover have "has_prefix (k @ ''='') (form_encode ((k', v) # p # ps)) \<longleftrightarrow> k = k'"
    using ok assms(1) has_prefix_key [of k k' "url_encode v @ CHR ''&'' # ?r"] by (simp add: key_ok_def)
  moreover have "before_chr (CHR ''&'') (drop (length k' + 1) (form_encode ((k', v) # p # ps))) = url_encode v"
    by (simp add: url_encode_no_amp)
  moreover have "cstr (url_decode (url_encode v)) = v"
    using ok(2) by (simp add: url_decode_encode cstr_id)
  moreover have "form_encode ((k', v) # p # ps) \<noteq> []" by simp
  ultimately show ?case
    by (subst param_scan.simps) (auto simp del: form_encode.simps)
qed

text \<open>Form parameters survive the trip.  For a POST body that is the form encoding of name/value
  pairs (names without \<open>=\<close> and \<open>&\<close>, values without NUL) with the right \<open>CONTENT_LENGTH\<close> of at most
  65536 bytes, \<open>get_post_param\<close> returns, byte for byte, the value first paired with the name, and
  NULL for a name that is not there.\<close>

theorem get_post_param_form:
  assumes "stdin_data e = form_encode kvs" "getenv e ''CONTENT_LENGTH'' = Some cl"
    "atoi cl = int (length (form_encode kvs))" "1 \<le> length (form_encode kvs)"
    "length (form_encode kvs) \<le> 65536" "cl \<noteq> []" "key_ok k"
    "\<forall>(k', v) \<in> set kvs. key_ok k' \<and> (\<forall>c \<in> set (k' @ v). code c \<noteq> 0)"
  shows "get_post_param e k = map_of kvs k"
proof -
  have nz: "\<forall>c \<in> set (form_encode kvs). code c \<noteq> 0"
    using assms(8)
  proof (induction kvs rule: form_encode.induct)
    case 1
    then show ?case by simp
  next
    case (2 k v)
    then show ?case using url_encode_nonzero [of _ v] by auto
  next
    case (3 k v p ps)
    then show ?case using url_encode_nonzero [of _ v] by (auto simp del: form_encode.simps(2))
  qed
  then have "cstr (form_encode kvs) = form_encode kvs" by (intro cstr_id) blast
  then have "cache_post_body e = Some (form_encode kvs)"
    using assms(1-6) by (cases "form_encode kvs") (simp_all add: cache_post_body_def)
  then show ?thesis
    using param_scan_form [OF assms(7), of kvs] assms(8) by (fastforce simp: get_post_param_def)
qed

definition form_env :: env where
  "form_env = \<lparr>getenv = (\<lambda>k. if k = ''CONTENT_LENGTH'' then Some ''18'' else None),
     stdin_data = form_encode [(''a'', ''x y''), (''b'', ''1&2='')], time_now = 0, eng = healthy,
     ent_sid = Urandom [], ent_csrf = Urandom [], ent_salt = Urandom []\<rparr>"

theorem get_post_param_form_witness:
  "get_post_param form_env ''b'' = Some ''1&2=''"
proof -
  let ?kvs = "[(''a'', ''x y''), (''b'', ''1&2='')]"
  have len: "length (form_encode ?kvs) = 18" by code_simp
  have at: "atoi ''18'' = 18" by code_simp
  have "\<forall>(k', v) \<in> set ?kvs. key_ok k' \<and> (\<forall>c \<in> set (k' @ v). code c \<noteq> 0)" by (simp add: key_ok_def)
  with get_post_param_form [of form_env ?kvs "''18''" "''b''"] len at show ?thesis
    by (simp add: form_env_def key_ok_def del: form_encode.simps)
qed

section \<open>Cookies come back\<close>

fun cookie_header :: "(string \<times> string) list \<Rightarrow> string" where
  "cookie_header [] = []"
| "cookie_header [(k, v)] = k @ ''='' @ v"
| "cookie_header ((k, v) # p # ps) = k @ ''='' @ v @ ''; '' @ cookie_header (p # ps)"

definition cookie_ok :: "string \<times> string \<Rightarrow> bool" where
  "cookie_ok kv \<longleftrightarrow> fst kv \<noteq> [] \<and> length (snd kv) \<le> 255
     \<and> (\<forall>c \<in> set (fst kv). c \<noteq> CHR ''='' \<and> c \<noteq> CHR '';'' \<and> c \<noteq> CHR '' '')
     \<and> (\<forall>c \<in> set (snd kv). c \<noteq> CHR '';'' \<and> c \<noteq> CHR '' '')"

lemma cookie_ok_start: "cookie_ok (k, v) \<Longrightarrow> dropWhile (\<lambda>c. c = CHR '' '') (k @ r) = k @ r"
  by (cases k) (auto simp: cookie_ok_def)

lemma cookie_scan_space: "cookie_scan n (CHR '' '' # s) = cookie_scan n s"
  unfolding cookie_scan.simps [of n "CHR '' '' # s"] cookie_scan.simps [of n s]
  by (cases "s = []") (simp_all add: has_prefix_def after_chr_def)

lemma cookie_scan_pair:
  assumes "CHR ''='' \<notin> set n" "cookie_ok (k, v)" "rest = [] \<or> rest = CHR '';'' # r"
  shows "cookie_scan n (k @ ''='' @ v @ rest) = (if n = k then Some v
    else if rest = [] then None else cookie_scan n r)"
proof -
  have k: "CHR ''='' \<notin> set k" "CHR '';'' \<notin> set (k @ ''='' @ v)" "take 255 v = v"
    "takeWhile (\<lambda>c. c \<noteq> CHR '';'' \<and> c \<noteq> CHR '' '') v = v"
    using assms(2) by (auto simp: cookie_ok_def takeWhile_eq_all_conv)
  have tw: "takeWhile (\<lambda>c. c \<noteq> CHR '';'' \<and> c \<noteq> CHR '' '') (v @ rest) = v"
    using assms(3)
  proof
    assume "rest = CHR '';'' # r"
    moreover have "takeWhile (\<lambda>c. c \<noteq> CHR '';'' \<and> c \<noteq> CHR '' '') (v @ CHR '';'' # r) = v"
      by (rule takeWhile_append_stop) (use assms(2) in \<open>auto simp: cookie_ok_def\<close>)
    ultimately show ?thesis by simp
  qed (use k(4) in simp)
  have af: "after_chr (CHR '';'') (k @ ''='' @ v @ rest) = (if rest = [] then None else Some r)"
    using assms(3) after_chr_none [OF k(2)] after_chr_stop [OF k(2), of r] by auto
  show ?thesis
    unfolding cookie_scan.simps [of n "k @ _"] cookie_ok_start [OF assms(2)] Let_def
      has_prefix_key [OF assms(1) k(1)] af
    using tw k(3) by simp
qed

lemma cookie_scan_header:
  assumes "CHR ''='' \<notin> set n" "\<forall>kv \<in> set kvs. cookie_ok kv"
  shows "cookie_scan n (cookie_header kvs) = map_of kvs n"
  using assms(2)
proof (induction kvs rule: cookie_header.induct)
  case 1
  then show ?case by (simp add: cookie_scan.simps)
next
  case (2 k v)
  then show ?case using cookie_scan_pair [OF assms(1), of k v "[]"] by auto
next
  case (3 k v p ps)
  have "cookie_scan n (cookie_header (p # ps)) = map_of (p # ps) n"
    by (rule "3.IH") (use "3.prems" in simp)
  moreover have "cookie_ok (k, v)" using "3.prems" by simp
  ultimately show ?case
    using cookie_scan_pair [OF assms(1), of k v "''; '' @ cookie_header (p # ps)" "'' '' @ cookie_header (p # ps)"]
    by (auto simp: cookie_scan_space simp del: cookie_header.simps(2) map_of.simps(2)) simp_all
qed

text \<open>Cookies survive the trip.  For a Cookie header in which name=value pairs are joined by
  semicolon and space, \<open>get_cookie\<close> returns the value first paired with the name (up to the 255
  bytes of its buffer), and NULL for a name that is not there.\<close>

theorem get_cookie_header:
  assumes "getenv e ''HTTP_COOKIE'' = Some (cookie_header kvs)" "CHR ''='' \<notin> set n"
    "\<forall>kv \<in> set kvs. cookie_ok kv"
  shows "get_cookie e n = map_of kvs n"
  using assms cookie_scan_header by (simp add: get_cookie_def)

theorem get_cookie_header_witness:
  "get_cookie (form_env\<lparr>getenv := (\<lambda>_. Some ''csrf_token=tok; session_id=abc'')\<rparr>) ''session_id'' = Some ''abc''"
  using get_cookie_header [of "form_env\<lparr>getenv := (\<lambda>_. Some ''csrf_token=tok; session_id=abc'')\<rparr>"
      "[(''csrf_token'', ''tok''), (''session_id'', ''abc'')]" "''session_id''"]
  by (simp add: cookie_ok_def)

end
