(* ===== verification/Gate.thy ===== *)
theory Gate
  imports Common
begin

text \<open>
  The request gate \<open>src/gate.c\<close>: the ladder cookie, database, session, password age that every
  protected CGI program starts with, the role and CSRF steps, and the session cookies.  A failed
  step prints its own answer; \<open>None\<close> stands for the return value 0.
\<close>

section \<open>The code\<close>

abbreviation (input) SESSION_COOKIE_NAME :: string where "SESSION_COOKIE_NAME \<equiv> ''session_id''"

definition DB_PATH_DEFAULT :: string where
  "DB_PATH_DEFAULT = ''/var/db/myapp.db''"

definition gate_db_path :: "env \<Rightarrow> string" where
  "gate_db_path e = (case getenv e ''DB_PATH'' of None \<Rightarrow> DB_PATH_DEFAULT
     | Some p \<Rightarrow> if p = [] then DB_PATH_DEFAULT else p)"

definition json_utf8 :: string where
  "json_utf8 = ''application/json; charset=utf-8''"

text \<open>A JSON answer with the given status and message, as the programs print it.\<close>

definition json_status :: "string \<Rightarrow> string \<Rightarrow> string" where
  "json_status st msg = ''{\"status\":\"'' @ st @ ''\",\"message\":\"'' @ msg @ ''\"}''"

definition json_error :: "string \<Rightarrow> 'a world_scheme \<Rightarrow> 'a world_scheme" where
  "json_error msg w = emit (json_status ''error'' msg) (cgi_header json_utf8 w)"

definition emit_not_authenticated :: "bool \<Rightarrow> 'a world_scheme \<Rightarrow> 'a world_scheme" where
  "emit_not_authenticated page_mode w =
    (if page_mode then cgi_redirect ''/index.html'' w else json_error ''Not authenticated'' w)"

definition msg_password_expired :: string where
  "msg_password_expired = (utf8 [0xE5, 0xAF, 0x86, 0xE7, 0xA0, 0x81, 0xE5, 0xB7, 0xB2, 0xE8, 0xBF, 0x87, 0xE6, 0x9C, 0x9F] @ '','' @ utf8 [0xE8, 0xAF, 0xB7, 0xE5, 0x85, 0x88, 0xE4, 0xBF, 0xAE, 0xE6, 0x94, 0xB9, 0xE5, 0xAF, 0x86, 0xE7, 0xA0, 0x81])"

definition gate_session ::
  "env \<Rightarrow> bool \<Rightarrow> bool \<Rightarrow> 'a world_scheme \<Rightarrow> 'a world_scheme \<times> SessionInfo option" where
  "gate_session e page_mode skip_policy w =
    (case get_cookie e SESSION_COOKIE_NAME of
       None \<Rightarrow> (emit_not_authenticated page_mode w, None)
     | Some sid \<Rightarrow>
       let (w1, rc) = auth_init e (gate_db_path e) w in
       if rc \<noteq> 0 then (json_error ''Database error'' w1, None)
       else (case auth_session_verify e (Some sid) w1 of
           None \<Rightarrow> (emit_not_authenticated page_mode (auth_cleanup e w1), None)
         | Some s \<Rightarrow>
           if \<not> skip_policy \<and> auth_user_must_change_password e (si_user_id s) w1
           then let w2 = auth_cleanup e w1 in
             (if page_mode then cgi_redirect ''/change.html'' w2
              else json_error msg_password_expired w2, None)
           else (w1, Some s)))"

definition gate_json_session :: "env \<Rightarrow> 'a world_scheme \<Rightarrow> 'a world_scheme \<times> SessionInfo option" where
  "gate_json_session e w = gate_session e False False w"

definition gate_page_session :: "env \<Rightarrow> 'a world_scheme \<Rightarrow> 'a world_scheme \<times> SessionInfo option" where
  "gate_page_session e w = gate_session e True False w"

definition gate_json_session_no_policy :: "env \<Rightarrow> 'a world_scheme \<Rightarrow> 'a world_scheme \<times> SessionInfo option" where
  "gate_json_session_no_policy e w = gate_session e False True w"

definition gate_require_role :: "SessionInfo \<Rightarrow> string \<Rightarrow> 'a world_scheme \<Rightarrow> 'a world_scheme \<times> bool" where
  "gate_require_role s role w =
    (if auth_require_role s role then (w, True) else (json_error ''Forbidden'' w, False))"

definition gate_require_csrf :: "SessionInfo \<Rightarrow> string option \<Rightarrow> 'a world_scheme \<Rightarrow> 'a world_scheme \<times> bool" where
  "gate_require_csrf s token w =
    (if auth_csrf_verify s token then (w, True) else (json_error ''CSRF token invalid'' w, False))"

definition gate_emit_session_cookies :: "string option \<Rightarrow> string option \<Rightarrow> 'a world_scheme \<Rightarrow> 'a world_scheme" where
  "gate_emit_session_cookies sid csrf w = (case sid of
     Some k \<Rightarrow>
       emit (''Set-Cookie: csrf_token='' @ (case csrf of None \<Rightarrow> [] | Some c \<Rightarrow> c)
             @ ''; Path=/; Secure; SameSite=Lax; Max-Age='' @ dec_int SESSION_EXPIRE @ crlf)
         (emit (''Set-Cookie: '' @ SESSION_COOKIE_NAME @ ''='' @ k
             @ ''; Path=/; HttpOnly; Secure; SameSite=Lax; Max-Age='' @ dec_int SESSION_EXPIRE @ crlf) w)
   | None \<Rightarrow>
       emit (''Set-Cookie: csrf_token=; Path=/; Secure; SameSite=Lax; Max-Age=0'' @ crlf)
         (emit (''Set-Cookie: '' @ SESSION_COOKIE_NAME @ ''=; Path=/; HttpOnly; Secure; SameSite=Lax; Max-Age=0''
             @ crlf) w))"

section \<open>What the gate lets through\<close>

lemma json_error_frame [simp]: "cur (json_error m w) = cur w" "g_db (json_error m w) = g_db w"
  "disk (json_error m w) = disk w"
  by (simp_all add: json_error_def)

lemma not_authenticated_frame [simp]: "cur (emit_not_authenticated b w) = cur w"
  "g_db (emit_not_authenticated b w) = g_db w" "disk (emit_not_authenticated b w) = disk w"
  by (simp_all add: emit_not_authenticated_def)

lemma g_db_cleanup [simp]: "g_db (auth_cleanup e st) = None"
  by (simp add: auth_cleanup_def)

lemma g_db_session_cleanup [simp]: "g_db (auth_session_cleanup e st) = g_db st"
  by (simp add: auth_session_cleanup_def split: option.splits)

lemma auth_init_closed:
  assumes "g_db st = None" "disk st p = Some d" "open_ok (eng e) p" "create_ok (eng e)"
  shows "auth_init e p st = (set_cur (migrate_password_policy (eng e) (migrate_delete_fks (eng e) d))
      (st\<lparr>g_db := Some p, g_db_path := snprintf_s 256 p\<rparr>), 0)"
  using assms by (simp add: auth_init_def auth_cleanup_def Let_def)

lemma auth_init_fail: "snd (auth_init e p st) \<noteq> 0 \<Longrightarrow> g_db (fst (auth_init e p st)) = None"
  by (auto simp: auth_init_def Let_def split: if_splits)

lemma auth_init_fail': "auth_init e p st = (w1, rc) \<Longrightarrow> rc \<noteq> 0 \<Longrightarrow> g_db w1 = None"
  using auth_init_fail [of e p st] by simp

lemma auth_init_open: "snd (auth_init e p st) = 0 \<Longrightarrow> g_db st = None \<Longrightarrow> g_db (fst (auth_init e p st)) = Some p"
  by (auto simp: auth_init_def Let_def split: if_splits)

lemma w_out_session_cleanup [simp]: "w_out (auth_session_cleanup e (w :: 'a world_scheme)) = w_out w"
  by (simp add: auth_session_cleanup_def set_cur_def split: option.splits)

lemma w_out_cleanup [simp]: "w_out (auth_cleanup e (w :: 'a world_scheme)) = w_out w"
  by (simp add: auth_cleanup_def)

lemma w_out_set_cur [simp]: "w_out (set_cur d (w :: 'a world_scheme)) = w_out w"
  "w_files (set_cur d w) = w_files w"
  by (simp_all add: set_cur_def split: option.splits)

lemma w_out_init [simp]: "w_out (fst (auth_init e p (w :: 'a world_scheme))) = w_out w"
  by (simp add: auth_init_def Let_def)

text \<open>The two outcomes of the gate.\<close>

lemma gate_session_Some:
  assumes "gate_session e pm sk w = (w', Some s)"
  obtains sid where "get_cookie e ''session_id'' = Some sid" "snd (auth_init e (gate_db_path e) w) = 0"
    "w' = fst (auth_init e (gate_db_path e) w)" "auth_session_verify e (Some sid) w' = Some s"
    "sk \<or> \<not> auth_user_must_change_password e (si_user_id s) w'"
  using assms
  by (auto simp: gate_session_def Let_def split: option.splits prod.splits if_splits)

lemma gate_session_None:
  assumes "gate_session e pm sk w = (w', None)" "g_db w = None"
  shows "g_db w' = None"
  using assms auth_init_fail [of e "gate_db_path e" w]
  by (auto simp: gate_session_def Let_def split: option.splits prod.splits if_splits)

section \<open>The gate looks at no file\<close>

lemma files_cur [simp]: "cur (w\<lparr>w_files := fs\<rparr>) = cur w" "set_cur d (w\<lparr>w_files := fs\<rparr>) = (set_cur d w)\<lparr>w_files := fs\<rparr>"
  by (simp_all add: cur_def set_cur_def split: option.split)

lemma files_cleanup [simp]: "auth_cleanup e (w\<lparr>w_files := fs\<rparr>) = (auth_cleanup e w)\<lparr>w_files := fs\<rparr>"
  by (simp add: auth_cleanup_def auth_session_cleanup_def split: option.split)

lemma files_reorder:
  "w\<lparr>w_files := fs, g_db := x, g_db_path := y\<rparr> = w\<lparr>g_db := x, g_db_path := y\<rparr>\<lparr>w_files := fs\<rparr>"
  by simp

lemma files_opened:
  "set_cur d (w\<lparr>w_files := fs, g_db := x, g_db_path := y\<rparr>) = (set_cur d (w\<lparr>g_db := x, g_db_path := y\<rparr>))\<lparr>w_files := fs\<rparr>"
  "auth_cleanup e (w\<lparr>w_files := fs, g_db := x, g_db_path := y\<rparr>) = (auth_cleanup e (w\<lparr>g_db := x, g_db_path := y\<rparr>))\<lparr>w_files := fs\<rparr>"
  unfolding files_reorder by (rule files_cur files_cleanup)+

lemma files_init [simp]:
  "auth_init e p (w\<lparr>w_files := fs\<rparr>) = map_prod (\<lambda>w. w\<lparr>w_files := fs\<rparr>) id (auth_init e p w)"
  by (simp add: auth_init_def Let_def files_opened)

lemma files_emit [simp]: "emit s (w\<lparr>w_files := fs\<rparr>) = (emit s w)\<lparr>w_files := fs\<rparr>"
  by (simp add: emit_def)

lemma files_answers [simp]:
  "cgi_header s (w\<lparr>w_files := fs\<rparr>) = (cgi_header s w)\<lparr>w_files := fs\<rparr>"
  "cgi_redirect s (w\<lparr>w_files := fs\<rparr>) = (cgi_redirect s w)\<lparr>w_files := fs\<rparr>"
  "json_error s (w\<lparr>w_files := fs\<rparr>) = (json_error s w)\<lparr>w_files := fs\<rparr>"
  "emit_not_authenticated b (w\<lparr>w_files := fs\<rparr>) = (emit_not_authenticated b w)\<lparr>w_files := fs\<rparr>"
  by (simp_all add: cgi_header_def cgi_redirect_def json_error_def emit_not_authenticated_def)

lemma files_verify [simp]:
  "auth_session_verify e k (w\<lparr>w_files := fs\<rparr>) = auth_session_verify e k w"
  "auth_user_must_change_password e i (w\<lparr>w_files := fs\<rparr>) = auth_user_must_change_password e i w"
  by (simp_all add: auth_session_verify_def auth_user_must_change_password_def auth_user_password_changed_at_def)

lemma files_gate:
  "gate_json_session e (w\<lparr>w_files := fs\<rparr>) = map_prod (\<lambda>w. w\<lparr>w_files := fs\<rparr>) id (gate_json_session e w)"
  by (cases "auth_init e (gate_db_path e) w") (simp add: gate_json_session_def gate_session_def split: option.split)

lemma gate_keeps_files: "gate_json_session e w = (w1, r) \<Longrightarrow> w_files w1 = w_files w"
proof -
  assume g: "gate_json_session e w = (w1, r)"
  have "w\<lparr>w_files := w_files w\<rparr> = w" by simp
  then have "gate_json_session e w = map_prod (\<lambda>v. v\<lparr>w_files := w_files w\<rparr>) id (gate_json_session e w)"
    using files_gate [where e = e and w = w and fs = "w_files w"] by simp
  then have "w1 = w1\<lparr>w_files := w_files w\<rparr>" by (simp add: g)
  then show ?thesis by (metis world.select_convs(2) world.surjective world.update_convs(2))
qed

end
