(* ===== verification/Json.thy ===== *)
theory Json
  imports Prelude
begin

text \<open>
  The JSON output helpers: the string escapers (\<open>json_escape\<close> of \<open>network.cgi.c\<close>, \<open>timesync.c\<close>,
  \<open>timesync.cgi.c\<close>, \<open>ntpmon.c\<close>, \<open>ntpmon.cgi.c\<close>, which are the same text, and \<open>json_str\<close> of
  \<open>log.cgi.c\<close>) and the bounded append \<open>jappend\<close> of \<open>timesync.c\<close> and \<open>ntpmon.c\<close>.
\<close>

section \<open>The code\<close>

definition bs :: char where "bs = CHR 0x5C"

definition esc_common :: "char \<Rightarrow> string" where
  "esc_common c =
    (if c = CHR 0x22 then [bs, CHR 0x22]
     else if c = bs then [bs, bs]
     else if c = nl then [bs, CHR ''n'']
     else if c = CHR 0x0D then [bs, CHR ''r'']
     else if code c < 0x20 then '' ''
     else [c])"

definition esc_log :: "char \<Rightarrow> string" where
  "esc_log c =
    (if c = CHR 0x22 then [bs, CHR 0x22]
     else if c = bs then [bs, bs]
     else if c = nl then [bs, CHR ''n'']
     else if c = CHR 0x0D then [bs, CHR ''r'']
     else if c = CHR 0x09 then [bs, CHR ''t'']
     else if code c < 0x20 then '' ''
     else [c])"

text \<open>\<open>for (i = 0, j = 0; src[i] && j < max - 4; i++)\<close>; \<open>j\<close> is the number of bytes written.\<close>

fun escape_loop :: "(char \<Rightarrow> string) \<Rightarrow> nat \<Rightarrow> nat \<Rightarrow> string \<Rightarrow> string" where
  "escape_loop esc mx j [] = []"
| "escape_loop esc mx j (c # cs) =
     (if int j < int mx - 4 then esc c @ escape_loop esc mx (j + length (esc c)) cs else [])"

definition json_escape :: "string \<Rightarrow> nat \<Rightarrow> string" where
  "json_escape src mx = escape_loop esc_common mx 0 src"

definition json_str :: "string \<Rightarrow> nat \<Rightarrow> string" where
  "json_str src mx = escape_loop esc_log mx 0 src"

definition json_bool :: "bool \<Rightarrow> string" where
  "json_bool b = (if b then ''true'' else ''false'')"

text \<open>\<open>jappend\<close> with \<open>pos\<close>: \<open>Some t\<close> is a buffer holding \<open>t\<close> with \<open>pos = length t\<close>, \<open>None\<close> one that
  is full (\<open>pos = outlen\<close>), which no later append changes and which makes the caller fail.\<close>

type_synonym jbuf = "string option"

definition jappend :: "nat \<Rightarrow> string \<Rightarrow> jbuf \<Rightarrow> jbuf" where
  "jappend outlen s b = (case b of None \<Rightarrow> None
     | Some t \<Rightarrow> if length s \<ge> outlen - length t then None else Some (t @ s))"

text \<open>Items with a comma before all but the first, as the loops print them.\<close>

fun comma_join :: "string list \<Rightarrow> string" where
  "comma_join [] = []"
| "comma_join [x] = x"
| "comma_join (x # y # ys) = x @ '','' @ comma_join (y # ys)"

fun commas :: "string list \<Rightarrow> string list" where
  "commas [] = []"
| "commas (x # xs) = x # map (Cons (CHR '','')) xs"

section \<open>What an escaper promises\<close>

text \<open>The inside of a JSON string: no bare quote, no control character, and only the escapes the
  programs emit.\<close>

fun json_body :: "string \<Rightarrow> bool" where
  "json_body [] = True"
| "json_body (c # cs) =
     (if c = bs then (case cs of [] \<Rightarrow> False
        | d # ds \<Rightarrow> (d = CHR 0x22 \<or> d = bs \<or> d = CHR ''n'' \<or> d = CHR ''r'' \<or> d = CHR ''t'') \<and> json_body ds)
      else c \<noteq> CHR 0x22 \<and> 0x20 \<le> code c \<and> json_body cs)"

fun unescape :: "string \<Rightarrow> string" where
  "unescape [] = []"
| "unescape (c # cs) =
     (if c = bs then (case cs of [] \<Rightarrow> []
        | d # ds \<Rightarrow> (if d = CHR ''n'' then nl else if d = CHR ''r'' then CHR 0x0D
                    else if d = CHR ''t'' then CHR 0x09 else d) # unescape ds)
      else c # unescape cs)"

locale escaper =
  fixes esc :: "char \<Rightarrow> string" and norm :: "char \<Rightarrow> char"
  assumes esc_length: "1 \<le> length (esc c) \<and> length (esc c) \<le> 2"
    and esc_body: "json_body (esc c @ s) = json_body s"
    and esc_undo: "unescape (esc c @ s) = norm c # unescape s"
begin

lemma loop_body: "json_body (escape_loop esc mx j s)"
  by (induction s arbitrary: j) (simp_all add: esc_body)

lemma loop_bound: "4 \<le> mx \<Longrightarrow> j + 3 \<le> mx \<Longrightarrow> j + length (escape_loop esc mx j s) + 3 \<le> mx"
proof (induction s arbitrary: j)
  case (Cons c s)
  have "length (esc c) \<le> 2" using esc_length by blast
  with Cons.IH [of "j + length (esc c)"] Cons.prems show ?case by auto
qed simp

lemma loop_prefix: "\<exists>n. unescape (escape_loop esc mx j s) = map norm (take n s)"
proof (induction s arbitrary: j)
  case (Cons c s)
  obtain n where "unescape (escape_loop esc mx (j + length (esc c)) s) = map norm (take n s)"
    using Cons.IH by blast
  then show ?case
    by (cases "int j < int mx - 4")
      (auto simp: esc_undo intro: exI [of _ "Suc n"] exI [of _ 0])
qed simp

lemma loop_whole: "j + 2 * length s + 4 \<le> mx \<Longrightarrow> unescape (escape_loop esc mx j s) = map norm s"
proof (induction s arbitrary: j)
  case (Cons c s)
  have "length (esc c) \<le> 2" using esc_length by blast
  with Cons show ?case by (simp add: esc_undo)
qed simp

end

definition norm_common :: "char \<Rightarrow> char" where
  "norm_common c = (if code c < 0x20 \<and> c \<noteq> nl \<and> c \<noteq> CHR 0x0D then CHR '' '' else c)"

definition norm_log :: "char \<Rightarrow> char" where
  "norm_log c = (if code c < 0x20 \<and> c \<noteq> nl \<and> c \<noteq> CHR 0x0D \<and> c \<noteq> CHR 0x09 then CHR '' '' else c)"

interpretation ec: escaper esc_common norm_common
  by unfold_locales (auto simp: esc_common_def norm_common_def bs_def)

interpretation el: escaper esc_log norm_log
  by unfold_locales (auto simp: esc_log_def norm_log_def bs_def)

lemma norm_keeps: "list_all (\<lambda>c. 0x20 \<le> code c \<or> c = nl \<or> c = CHR 0x0D) s \<Longrightarrow> map norm_common s = s"
  by (induction s) (auto simp: norm_common_def)

text \<open>C38: escaping is safe.  For every text and every buffer of at least four bytes, what
  \<open>json_escape\<close> writes fits the buffer with its terminating NUL (two bytes to spare) and is
  the inside of a JSON string: no bare quote, no control character, no dangling backslash.  Reading
  the escapes back gives a prefix of the text in which the control characters other than newline and
  carriage return, tabs included, have become spaces.  When the buffer holds twice the length plus
  four it is the whole text, and the text itself when it has no such characters.\<close>

theorem json_escape_safe:
  assumes "4 \<le> mx"
  shows "length (json_escape s mx) + 3 \<le> mx \<and> json_body (json_escape s mx)
    \<and> (\<exists>n. unescape (json_escape s mx) = map norm_common (take n s) \<and> (2 * length s + 4 \<le> mx \<longrightarrow> n = length s))
    \<and> (2 * length s + 4 \<le> mx \<and> list_all (\<lambda>c. 0x20 \<le> code c \<or> c = nl \<or> c = CHR 0x0D) s \<longrightarrow> unescape (json_escape s mx) = s)"
proof -
  have w: "unescape (json_escape s mx) = map norm_common s" if "2 * length s + 4 \<le> mx"
    using that ec.loop_whole [of 0 s mx] by (simp add: json_escape_def)
  have "\<exists>n. unescape (json_escape s mx) = map norm_common (take n s) \<and> (2 * length s + 4 \<le> mx \<longrightarrow> n = length s)"
  proof (cases "2 * length s + 4 \<le> mx")
    case True
    with w show ?thesis by auto
  next
    case False
    then show ?thesis using ec.loop_prefix [of mx 0 s] by (auto simp: json_escape_def)
  qed
  then show ?thesis
    using assms w norm_keeps [of s] ec.loop_bound [of mx 0 s] ec.loop_body [of mx 0 s] by (simp add: json_escape_def)
qed

theorem json_escape_safe_witness:
  "json_body (json_escape [CHR 0x22, CHR 0x5C, CHR ''a''] 16) \<and> length (json_escape [CHR 0x22, CHR 0x5C, CHR ''a''] 16) + 3 \<le> 16"
  using json_escape_safe [of 16 "[CHR 0x22, CHR 0x5C, CHR ''a'']"] by simp

lemma json_str_body: "json_body (json_str s mx)"
  unfolding json_str_def by (rule el.loop_body)

lemma json_str_bound: "4 \<le> mx \<Longrightarrow> length (json_str s mx) + 3 \<le> mx"
  using el.loop_bound [of mx 0 s] by (simp add: json_str_def)

lemma json_str_whole: "2 * length s + 4 \<le> mx \<Longrightarrow> unescape (json_str s mx) = map norm_log s"
  using el.loop_whole [of 0 s mx] by (simp add: json_str_def)

section \<open>Bounded appends are all or nothing\<close>

lemma fold_jappend_None [simp]: "fold (jappend n) ps None = None"
  by (induction ps) (simp_all add: jappend_def)

lemma fold_jappend:
  "length t < n \<Longrightarrow> fold (jappend n) ps (Some t) =
     (if length t + length (concat ps) < n then Some (t @ concat ps) else None)"
  by (induction ps arbitrary: t) (auto simp: jappend_def)

lemma fold_jappend_doc:
  "0 < n \<Longrightarrow> fold (jappend n) ps (Some []) = (if length (concat ps) < n then Some (concat ps) else None)"
  by (simp add: fold_jappend)

lemma concat_commas [simp]: "concat (commas xs) = comma_join xs"
proof (induction xs rule: comma_join.induct)
  case (3 x y ys)
  then show ?case by simp
qed simp_all

section \<open>JSON values\<close>

text \<open>Values with their strings as they stand between the quotes, and their text.\<close>

datatype json = JStr string | JInt int | JBool bool | JArr "json list" | JObj "(string \<times> json) list"

definition json_member :: "string \<times> string \<Rightarrow> string" where
  "json_member kv = ''\"'' @ fst kv @ ''\":'' @ snd kv"

primrec print_json :: "json \<Rightarrow> string" where
  "print_json (JStr s) = ''\"'' @ s @ ''\"''"
| "print_json (JInt i) = dec_int i"
| "print_json (JBool b) = json_bool b"
| "print_json (JArr xs) = ''['' @ comma_join (map print_json xs) @ '']''"
| "print_json (JObj kvs) = ''{'' @ comma_join (map json_member (map (map_prod id print_json) kvs)) @ ''}''"

text \<open>Every string of the value is the inside of a JSON string.\<close>

primrec json_ok :: "json \<Rightarrow> bool" where
  "json_ok (JStr s) = json_body s"
| "json_ok (JInt i) = True"
| "json_ok (JBool b) = True"
| "json_ok (JArr xs) = list_all id (map json_ok xs)"
| "json_ok (JObj kvs) = list_all (\<lambda>kb. json_body (fst kb) \<and> snd kb) (map (map_prod id json_ok) kvs)"

lemma comma_join_append: "xs \<noteq> [] \<Longrightarrow> ys \<noteq> [] \<Longrightarrow> comma_join (xs @ ys) = comma_join xs @ '','' @ comma_join ys"
proof (induction xs rule: comma_join.induct)
  case (2 x)
  then show ?case by (cases ys) simp_all
qed simp_all

lemma comma_join_Cons: "xs \<noteq> [] \<Longrightarrow> comma_join (x # xs) = x @ '','' @ comma_join xs"
  by (cases xs) simp_all

lemma concat_with_commas: "xs \<noteq> [] \<Longrightarrow> comma_join (xs @ ys) = comma_join xs @ concat (map (Cons (CHR '','')) ys)"
proof (induction ys arbitrary: xs)
  case (Cons y ys)
  from Cons.IH [of "xs @ [y]"] Cons.prems show ?case by (simp add: comma_join_append)
qed simp

definition members_ok :: "(string \<times> json) list \<Rightarrow> bool" where
  "members_ok ms = list_all (\<lambda>(k, v). json_body k \<and> json_ok v) ms"

definition members_text :: "(string \<times> json) list \<Rightarrow> string list" where
  "members_text ms = map json_member (map (map_prod id print_json) ms)"

lemma members_obj: "json_ok (JObj ms) \<longleftrightarrow> members_ok ms" "print_json (JObj ms) = ''{'' @ comma_join (members_text ms) @ ''}''"
  by (auto simp: members_ok_def members_text_def list_all_iff)

lemma members_simps [simp]: "members_ok []" "members_ok ((k, v) # ms) \<longleftrightarrow> json_body k \<and> json_ok v \<and> members_ok ms"
  "members_ok (xs @ ys) \<longleftrightarrow> members_ok xs \<and> members_ok ys"
  "members_text [] = []" "members_text ((k, v) # ms) = json_member (k, print_json v) # members_text ms"
  "members_text (xs @ ys) = members_text xs @ members_text ys"
  by (auto simp: members_ok_def members_text_def)

end
