(* ===== verification/Accounts.thy ===== *)
theory Accounts
  imports Gate Sessions Json
begin

text \<open>
  The account CGI programs: \<open>login.cgi.c\<close>, \<open>logout.cgi.c\<close>, \<open>main.cgi.c\<close>, \<open>user_create.cgi.c\<close>,
  \<open>user_delete.cgi.c\<close>, \<open>user_list.cgi.c\<close>, \<open>user_passwd.cgi.c\<close>, \<open>user_toggle.cgi.c\<close>,
  \<open>user_change_pass.cgi.c\<close>, and the set-up program \<open>db_init.c\<close>.  Each \<open>main\<close> is a function of the
  request (\<open>env\<close>) and the world.
\<close>

section \<open>login.cgi and logout.cgi\<close>

definition rollback_path :: "env \<Rightarrow> string" where
  "rollback_path e = (case getenv e ''ROLLBACK_FILE'' of None \<Rightarrow> ''/var/db/rollback.json''
     | Some p \<Rightarrow> if p = [] then ''/var/db/rollback.json'' else p)"

definition confirm_line :: "string \<Rightarrow> string" where
  "confirm_line line = (if has_prefix ''confirmed=0'' line then ''confirmed=1'' @ [nl] else line)"

definition confirm_rollback :: "env \<Rightarrow> 'a world_scheme \<Rightarrow> 'a world_scheme" where
  "confirm_rollback e w =
    (let path = rollback_path e; tmp_path = snprintf_s 256 (path @ ''.tmp'') in
     case w_files w path of None \<Rightarrow> w
     | Some text \<Rightarrow>
       if \<not> w_writable w tmp_path then w
       else
         let lines = map cstr (fgets_lines 256 text);
             changed = list_ex (has_prefix ''confirmed=0'') lines
         in if changed
            then w\<lparr>w_files := (w_files w)(tmp_path := None, path := Some (concat (map confirm_line lines)))\<rparr>
            else w\<lparr>w_files := (w_files w)(tmp_path := None)\<rparr>)"

definition login_main :: "env \<Rightarrow> 'a world_scheme \<Rightarrow> 'a world_scheme" where
  "login_main e w =
    (if get_env e ''REQUEST_METHOD'' \<noteq> ''POST''
     then (case gate_page_session e w of
             (w1, Some _) \<Rightarrow> cgi_redirect ''/cgi-bin/main.cgi'' (auth_cleanup e w1)
           | (w1, None) \<Rightarrow> w1)
     else
       let (w1, rc) = auth_init e (gate_db_path e) w in
       if rc \<noteq> 0 then json_error ''Database error'' w1
       else (case (get_post_param e ''user'', get_post_param e ''pass'') of
           (Some user, Some pass) \<Rightarrow>
             if user = [] \<or> pass = [] then auth_cleanup e (json_error ''Missing credentials'' w1)
             else
               let user_id = auth_user_login e (Some user) (Some pass) w1 in
               if user_id < 0 then auth_cleanup e (json_error ''Invalid credentials'' w1)
               else (case auth_session_create e user_id (getenv e ''REMOTE_ADDR'') w1 of
                   (w2, None) \<Rightarrow> auth_cleanup e (json_error ''Session creation failed'' w2)
                 | (w2, Some (sid, csrf)) \<Rightarrow>
                     let w3 = confirm_rollback e w2;
                         dest = (if auth_user_must_change_password e user_id w3
                                 then ''/change.html'' else ''/cgi-bin/main.cgi'')
                     in auth_cleanup e (emit (''Location: '' @ dest @ crlf @ crlf)
                          (gate_emit_session_cookies (Some sid) (Some csrf)
                            (emit (''Status: 302'' @ crlf) w3))))
         | _ \<Rightarrow> auth_cleanup e (json_error ''Missing credentials'' w1)))"

definition logout_main :: "env \<Rightarrow> 'a world_scheme \<Rightarrow> 'a world_scheme" where
  "logout_main e w =
    (let w1 = fst (auth_init e (gate_db_path e) w);
         w2 = (case get_cookie e SESSION_COOKIE_NAME of None \<Rightarrow> w1
               | Some sid \<Rightarrow> auth_session_destroy e (Some sid) w1);
         w3 = auth_cleanup e w2
     in emit (''Location: /index.html'' @ crlf @ crlf)
          (gate_emit_session_cookies None None (emit (''Status: 302'' @ crlf) w3)))"

section \<open>main.cgi\<close>

definition main_main :: "env \<Rightarrow> 'a world_scheme \<Rightarrow> 'a world_scheme" where
  "main_main e w = (case gate_page_session e w of
     (w1, None) \<Rightarrow> w1
   | (w1, Some session) \<Rightarrow>
       let days_left = auth_user_days_left e (si_user_id session) w1;
           w2 = auth_cleanup e w1;
           w3 = cgi_header ''text/html; charset=utf-8'' w2;
           w4 = emit (''<script>window._currentUser={id:'' @ dec_int (si_user_id session)
                  @ '',username:\"'' @ si_username session @ ''\",role:\"'' @ si_role session
                  @ ''\",csrf:\"'' @ si_csrf_token session @ ''\",daysLeft:'' @ dec_int days_left
                  @ ''};</script>'' @ [nl]) w3
       in (case w_files w4 ''/home/www/control_panel.html'' of
             None \<Rightarrow> emit ''<html><body><h2>Error</h2><p>Page template not found</p></body></html>'' w4
           | Some page \<Rightarrow> emit page w4))"

section \<open>The user administration programs\<close>

text \<open>The ladder at the top of the administration programs: session, role root, CSRF token.  A
  failed step has printed its answer and the database is closed; \<open>k\<close> is the rest of \<open>main\<close>.\<close>

definition root_ladder ::
  "env \<Rightarrow> (SessionInfo \<Rightarrow> 'a world_scheme \<Rightarrow> 'a world_scheme) \<Rightarrow> 'a world_scheme \<Rightarrow> 'a world_scheme" where
  "root_ladder e k w = (case gate_json_session e w of
     (w1, None) \<Rightarrow> w1
   | (w1, Some session) \<Rightarrow>
     (case gate_require_role session ''root'' w1 of
        (w2, False) \<Rightarrow> auth_cleanup e w2
      | (w2, True) \<Rightarrow>
        (case gate_require_csrf session (get_post_param e ''csrf_token'') w2 of
           (w3, False) \<Rightarrow> auth_cleanup e w3
         | (w3, True) \<Rightarrow> k session w3)))"

text \<open>The answer of an operation: header, then the message of the operation or its error.\<close>

definition answer :: "env \<Rightarrow> string \<Rightarrow> string \<Rightarrow> 'a world_scheme \<times> string option \<Rightarrow> 'a world_scheme" where
  "answer e ctype okmsg r = (case r of (w, res) \<Rightarrow>
     auth_cleanup e (emit (case res of None \<Rightarrow> json_status ''ok'' okmsg
                             | Some err \<Rightarrow> json_status ''error'' (snprintf_s 128 err))
       (cgi_header ctype w)))"

definition bad_request :: "env \<Rightarrow> string \<Rightarrow> 'a world_scheme \<Rightarrow> 'a world_scheme" where
  "bad_request e msg w = auth_cleanup e (emit (json_status ''error'' msg) (cgi_header ''application/json'' w))"

definition user_create_main :: "env \<Rightarrow> 'a world_scheme \<Rightarrow> 'a world_scheme" where
  "user_create_main e = root_ladder e (\<lambda>session w.
     answer e ''application/json'' ''User created''
       (users_create e (si_user_id session) (get_post_param e ''username'') (get_post_param e ''password'') w))"

definition user_delete_main :: "env \<Rightarrow> 'a world_scheme \<Rightarrow> 'a world_scheme" where
  "user_delete_main e = root_ladder e (\<lambda>session w.
     case get_post_param e ''user_id'' of None \<Rightarrow> bad_request e ''Missing user_id'' w
     | Some id_str \<Rightarrow> answer e ''application/json'' ''User deleted''
         (users_delete e (si_user_id session) (atoi id_str) w))"

definition user_passwd_main :: "env \<Rightarrow> 'a world_scheme \<Rightarrow> 'a world_scheme" where
  "user_passwd_main e = root_ladder e (\<lambda>session w.
     case (get_post_param e ''user_id'', get_post_param e ''password'') of
       (Some id_str, Some new_pass) \<Rightarrow> answer e ''application/json'' ''Password updated''
         (users_passwd e (si_user_id session) (atoi id_str) (Some new_pass) w)
     | _ \<Rightarrow> bad_request e ''Invalid parameters'' w)"

definition user_toggle_main :: "env \<Rightarrow> 'a world_scheme \<Rightarrow> 'a world_scheme" where
  "user_toggle_main e = root_ladder e (\<lambda>session w.
     case (get_post_param e ''user_id'', get_post_param e ''enabled'') of
       (Some id_str, Some en_str) \<Rightarrow>
         let enabled = (if atoi en_str \<noteq> 0 then 1 else 0) in
         answer e ''application/json'' (''User '' @ (if enabled \<noteq> 0 then ''enabled'' else ''disabled''))
           (users_toggle e (si_user_id session) (atoi id_str) enabled w)
     | _ \<Rightarrow> bad_request e ''Missing parameters'' w)"

definition user_change_pass_main :: "env \<Rightarrow> 'a world_scheme \<Rightarrow> 'a world_scheme" where
  "user_change_pass_main e w = (case gate_json_session_no_policy e w of
     (w1, None) \<Rightarrow> w1
   | (w1, Some session) \<Rightarrow>
     (case gate_require_csrf session (get_post_param e ''csrf_token'') w1 of
        (w2, False) \<Rightarrow> auth_cleanup e w2
      | (w2, True) \<Rightarrow>
        (case (get_post_param e ''old_password'', get_post_param e ''new_password'') of
           (Some old_pass, Some new_pass) \<Rightarrow> answer e json_utf8 ''Password updated''
             (users_change_password e (si_user_id session) (Some old_pass) (Some new_pass)
               (get_cookie e SESSION_COOKIE_NAME) w2)
         | _ \<Rightarrow> auth_cleanup e (json_error ''Missing parameters'' w2))))"

text \<open>\<open>None\<close>: the listing overran its array.\<close>

definition list_entry :: "UserRow \<Rightarrow> string" where
  "list_entry r = ''{\"id\":'' @ dec_int (r_id r) @ '',\"username\":\"'' @ r_username r
     @ ''\",\"role\":\"'' @ r_role r @ ''\",\"enabled\":'' @ dec_int (r_enabled r)
     @ '',\"created_at\":'' @ dec_int (r_created_at r) @ '',\"last_login_at\":''
     @ dec_int (r_last_login_at r) @ ''}''"

definition user_list_main :: "env \<Rightarrow> 'a world_scheme \<Rightarrow> 'a world_scheme option" where
  "user_list_main e w = (case gate_json_session e w of
     (w1, None) \<Rightarrow> Some w1
   | (w1, Some session) \<Rightarrow>
     (case gate_require_role session ''root'' w1 of
        (w2, False) \<Rightarrow> Some (auth_cleanup e w2)
      | (w2, True) \<Rightarrow>
        let w3 = emit ''{\"status\":\"ok\",\"users\":['' (cgi_header json_utf8 w2) in
        (case users_fetch_all e w3 of
           FetchOverflow \<Rightarrow> None
         | FetchError \<Rightarrow> Some (auth_cleanup e (emit '']}'' w3))
         | FetchOk rows \<Rightarrow>
             Some (auth_cleanup e (emit '']}'' (emit (comma_join (map list_entry rows)) w3))))))"

section \<open>db_init\<close>

definition db_init_main :: "env \<Rightarrow> string option \<Rightarrow> 'a world_scheme \<Rightarrow> 'a world_scheme \<times> int" where
  "db_init_main e argv1 w =
    (let password = (case argv1 of None \<Rightarrow> ''admin'' | Some p \<Rightarrow> p);
         path = gate_db_path e;
         w0 = emit (''Initializing database: '' @ path @ [nl]) w;
         (w1, rc) = auth_init e path w0
     in if rc \<noteq> 0 then (w1, 1)
     else (case auth_hash_password e (Some password) 256 of
         None \<Rightarrow> (w1, 1)
       | Some hash \<Rightarrow>
         let d = (case disk w1 path of None \<Rightarrow> empty_db | Some d \<Rightarrow> d);
             now = time_now e;
             root_exists = (runs (eng e) Q_root_exists \<and> count_users (\<lambda>u. u_role u = ''root'') d > 0);
             w2 =
              (if root_exists then
                 let w' = emit (''Root user already exists. Updating password...'' @ [nl]) w1 in
                 if prepare_ok (eng e) Q_root_update \<and> has_changed_at d
                 then if step_ok (eng e) Q_root_update
                      then emit (''Root password updated.'' @ [nl])
                        (set_cur (sql_update_users (\<lambda>u. u_role u = ''root'')
                           (\<lambda>u. u\<lparr>u_password_hash := hash, u_password_changed_at := now, u_updated_at := now\<rparr>) d) w')
                      else emit (''Update failed.'' @ [nl]) w'
                 else w'
               else
                 let w' = emit (''Creating root user...'' @ [nl]) w1 in
                 if prepare_ok (eng e) Q_root_insert
                 then (case (if step_ok (eng e) Q_root_insert
                         then sql_insert_user \<lparr>u_id = 0, u_username = ''root'', u_password_hash = hash,
                                u_role = ''root'', u_enabled = 1, u_created_at = now, u_updated_at = now,
                                u_last_login_at = None, u_created_by = None, u_password_changed_at = 0\<rparr> d
                         else None) of
                      Some (d', _) \<Rightarrow> emit (''Root user created.'' @ [nl]) (set_cur d' w')
                    | None \<Rightarrow> w')
                 else w');
             w3 = auth_cleanup e w2
         in (emit (''Password hash: '' @ hash @ [nl] @ ''Done.'' @ [nl]) w3, 0)))"

section \<open>Opening and closing keep the accounts\<close>

lemma disk_set_cur: "disk (set_cur d st) p = (if g_db st = Some p then Some d else disk st p)"
  by (auto simp: set_cur_def split: option.splits)

lemma cleanup_users: "map_option t_users (disk (auth_cleanup e st) p) = map_option t_users (disk st p)"
  by (auto simp: auth_cleanup_def auth_session_cleanup_def disk_set_cur cur_def sql_delete_sessions_def
      split: option.splits)

lemma init_current:
  assumes "g_db st = None" "disk st p = Some d" "schema_current d"
  shows "snd (auth_init e p st) = 0 \<Longrightarrow> cur (fst (auth_init e p st)) = Some d"
    and "map_option t_users (disk (fst (auth_init e p st)) q) = map_option t_users (disk st q)"
  using assms cleanup_users [of e "st\<lparr>g_db := Some p, g_db_path := snprintf_s 256 p\<rparr>" q]
  by (auto simp: auth_init_def auth_cleanup_def [of e st] Let_def migrate_current cur_set_cur disk_set_cur
      split: option.splits if_splits)

lemma gate_users:
  assumes "g_db w = None" "disk w (gate_db_path e) = Some d" "schema_current d"
  shows "map_option t_users (disk (fst (gate_session e pm sk w)) q) = map_option t_users (disk w q)"
  using init_current(2) [OF assms, of e q]
  by (auto simp: gate_session_def Let_def cleanup_users split: option.split prod.split)

lemma must_change_cur:
  assumes "cur st = Some d" "lookup_user i d = Some u" "0 < i" "has_changed_at d" "runs (eng e) Q_changed_at"
  shows "auth_user_must_change_password e i st \<longleftrightarrow>
    u_password_changed_at u = 0 \<or> time_now e \<ge> u_password_changed_at u + 7776000"
  using assms by (auto simp: auth_user_must_change_password_def auth_user_password_changed_at_def)

section \<open>Who can administer accounts\<close>

datatype admin_cgi = User_create | User_delete | User_toggle | User_passwd

fun admin_main :: "admin_cgi \<Rightarrow> env \<Rightarrow> 'a world_scheme \<Rightarrow> 'a world_scheme" where
  "admin_main User_create = user_create_main"
| "admin_main User_delete = user_delete_main"
| "admin_main User_toggle = user_toggle_main"
| "admin_main User_passwd = user_passwd_main"

lemma root_ladder_users:
  assumes "g_db w = None" "disk w (gate_db_path e) = Some d" "schema_current d"
    "map_option t_users (disk (root_ladder e k w) q) \<noteq> map_option t_users (disk w q)"
  obtains w1 s where "gate_session e False False w = (w1, Some s)" "si_role s = ''root''"
    "get_post_param e ''csrf_token'' = Some (si_csrf_token s)"
  using assms(4) gate_users [OF assms(1-3), of False False q] that
  by (auto simp: root_ladder_def gate_json_session_def gate_require_role_def gate_require_csrf_def
      cleanup_users auth_require_role_def auth_csrf_verify_def split: prod.splits option.splits if_splits)

text \<open>C10: only a root session with its CSRF token administers accounts.  If one of the programs
  user_create, user_delete, user_toggle, user_passwd changes the users table in any way, then the
  request carried the cookie of a stored, unexpired session of an enabled root account whose own
  password is set and less than 90 days old, together with that session's CSRF token.\<close>

theorem admin_change_needs_root:
  assumes "g_db w = None" "disk w (gate_db_path e) = Some d" "db_wf d" "schema_current d"
    "users_seq d < 2147483648" "runs (eng e) Q_changed_at"
    "disk (admin_main c e w) (gate_db_path e) = Some d'" "t_users d' \<noteq> t_users d"
  shows "\<exists>row u. row \<in> set (t_sessions d) \<and> get_cookie e ''session_id'' = Some (s_sid row)
    \<and> time_now e < s_expires_at row \<and> u \<in> set (t_users d) \<and> u_id u = s_user_id row
    \<and> u_enabled u \<noteq> 0 \<and> u_role u = ''root'' \<and> u_password_changed_at u \<noteq> 0
    \<and> time_now e < u_password_changed_at u + 7776000
    \<and> get_post_param e ''csrf_token'' = Some (take 32 (s_csrf_token row))"
proof -
  obtain k where "admin_main c e w = root_ladder e k w"
    by (cases c) (auto simp: user_create_main_def user_delete_main_def user_toggle_main_def user_passwd_main_def)
  then have "map_option t_users (disk (root_ladder e k w) (gate_db_path e))
      \<noteq> map_option t_users (disk w (gate_db_path e))"
    using assms(2,7,8) by simp
  then obtain w1 s where g: "gate_session e False False w = (w1, Some s)" and role: "si_role s = ''root''"
    and csrf: "get_post_param e ''csrf_token'' = Some (si_csrf_token s)"
    by (rule root_ladder_users [OF assms(1,2,4)])
  obtain sid where sid: "get_cookie e ''session_id'' = Some sid" "snd (auth_init e (gate_db_path e) w) = 0"
    "w1 = fst (auth_init e (gate_db_path e) w)" "auth_session_verify e (Some sid) w1 = Some s"
    "\<not> auth_user_must_change_password e (si_user_id s) w1"
    using gate_session_Some [OF g] by metis
  have c1: "cur w1 = Some d" using init_current(1) [OF assms(1,2,4) sid(2)] sid(3) by simp
  obtain row u where r: "row \<in> set (t_sessions d)" "Some sid = Some (s_sid row)" "length (s_sid row) = 64"
    "time_now e < s_expires_at row" "u \<in> set (t_users d)" "u_id u = s_user_id row" "u_enabled u \<noteq> 0"
    "si_user_id s = u_id u" "si_username s = snprintf_s 64 (u_username u)" "si_role s = u_role u"
    "si_csrf_token s = take 32 (s_csrf_token row)"
    by (rule session_verify_row [OF sid(4) c1 assms(3,5)])
  have "0 < u_id u" using assms(3) r(5) by (force simp: db_wf_def)
  then have "\<not> (u_password_changed_at u = 0 \<or> time_now e \<ge> u_password_changed_at u + 7776000)"
    using must_change_cur [OF c1 lookup_user_in [OF assms(3) r(5)], of e] sid(5) r(8) assms(4,6)
    by (simp add: schema_current_def)
  with r sid(1) role csrf show ?thesis by (intro exI [of _ row] exI [of _ u]) simp
qed

section \<open>A sample request\<close>

lemma atoi_2: "atoi ''2'' = 2" and atoi_0: "atoi ''0'' = 0"
  by code_simp+

lemma answer_users:
  assumes "cur (fst r) = Some d" "g_db (fst r) = Some p"
  obtains d' where "disk (answer e ct m r) p = Some d'" "t_users d' = t_users d"
proof -
  obtain w res where r: "r = (w, res)" by (cases r)
  have "map_option t_users (disk (answer e ct m r) p) = map_option t_users (disk w p)"
    by (simp add: answer_def r cleanup_users)
  moreover have "disk w p = Some d" using assms by (simp add: r cur_def)
  ultimately show thesis using that by auto
qed

definition req_env :: "(string \<times> string) list \<Rightarrow> string \<Rightarrow> env" where
  "req_env vars body = sample_env\<lparr>getenv := map_of vars, stdin_data := body\<rparr>"

definition sample_world :: world where
  "sample_world = \<lparr>g_db = None, g_db_path = [], disk = (\<lambda>_. Some (live_db\<lparr>t_sessions := [sample_session sample_sid 1]\<rparr>)),
     w_out = [], w_files = Map.empty, w_writable = (\<lambda>_. True)\<rparr>"

definition sample_req :: env where
  "sample_req = req_env [(''HTTP_COOKIE'', cookie_header [(''session_id'', sample_sid)]),
      (''CONTENT_LENGTH'', ''34''), (''REQUEST_METHOD'', ''POST'')]
     (form_encode [(''csrf_token'', ''tok''), (''user_id'', ''2''), (''enabled'', ''0'')])"

definition root_db :: database where
  "root_db = live_db\<lparr>t_sessions := [sample_session sample_sid 1]\<rparr>"

lemma sample_world_simps [simp]: "g_db sample_world = None" "disk sample_world p = Some root_db"
  by (simp_all add: sample_world_def root_db_def)

lemma root_db_wf [simp]: "db_wf root_db" "schema_current root_db" "users_seq root_db = 3"
  by (simp_all add: root_db_def live_db_def db_wf_def user_ids_def sample_defs schema_current_def)

lemma sample_req_simps [simp]: "eng sample_req = healthy" "time_now sample_req = 1000"
  "gate_db_path sample_req = DB_PATH_DEFAULT"
  by (simp_all add: sample_req_def req_env_def gate_db_path_def)

lemma sample_req_cookie [simp]: "get_cookie sample_req ''session_id'' = Some sample_sid"
proof -
  have "cookie_ok (''session_id'', sample_sid)" by (simp add: cookie_ok_def sample_sid_def)
  then show ?thesis
    using cookie_scan_header [of "''session_id''" "[(''session_id'', sample_sid)]"]
    by (simp add: sample_req_def req_env_def get_cookie_def del: cookie_header.simps)
qed

lemma sample_req_params [simp]: "get_post_param sample_req ''csrf_token'' = Some ''tok''"
  "get_post_param sample_req ''user_id'' = Some ''2''" "get_post_param sample_req ''enabled'' = Some ''0''"
proof -
  have "cache_post_body sample_req = Some ''csrf_token=tok&user_id=2&enabled=0''"
    unfolding cache_post_body_def sample_req_def req_env_def by simp code_simp
  then show "get_post_param sample_req ''csrf_token'' = Some ''tok''"
    "get_post_param sample_req ''user_id'' = Some ''2''" "get_post_param sample_req ''enabled'' = Some ''0''"
    unfolding get_post_param_def by (simp_all only: option.case) code_simp+
qed

lemma sample_init: "auth_init sample_req DB_PATH_DEFAULT sample_world =
    (set_cur root_db (sample_world\<lparr>g_db := Some DB_PATH_DEFAULT, g_db_path := DB_PATH_DEFAULT\<rparr>), 0)"
  using auth_init_closed [of sample_world DB_PATH_DEFAULT root_db sample_req]
  by (simp add: migrate_current snprintf_s_def DB_PATH_DEFAULT_def)

definition opened_world :: world where
  "opened_world = set_cur root_db (sample_world\<lparr>g_db := Some DB_PATH_DEFAULT, g_db_path := DB_PATH_DEFAULT\<rparr>)"

lemma opened_cur [simp]: "cur opened_world = Some root_db" "g_db opened_world = Some DB_PATH_DEFAULT"
  by (simp_all add: opened_world_def cur_set_cur)

lemma root_db_user [simp]: "lookup_user 1 root_db = Some (sample_user 1 ''root'' ''root'')"
  "lookup_user 2 root_db = Some (sample_user 2 ''alice'' ''admin'')"
  by (simp_all add: lookup_user_def root_db_def live_db_def sample_defs)

lemma sample_gate: "gate_json_session sample_req sample_world = (opened_world,
     Some \<lparr>si_user_id = 1, si_username = ''root'', si_role = ''root'', si_csrf_token = ''tok''\<rparr>)"
proof -
  have "find (\<lambda>s. s_sid s = sample_sid \<and> 1000 < s_expires_at s) (t_sessions root_db) = Some (sample_session sample_sid 1)"
    by (simp add: root_db_def sample_session_def)
  then have v: "auth_session_verify sample_req (Some sample_sid) opened_world =
      Some \<lparr>si_user_id = 1, si_username = ''root'', si_role = ''root'', si_csrf_token = ''tok''\<rparr>"
    by (simp add: auth_session_verify_def sample_sid_def) (simp add: sample_session_def sample_user_def snprintf_s_def)
  have "\<not> auth_user_must_change_password sample_req 1 opened_world"
    using must_change_cur [OF opened_cur(1) root_db_user(1), of sample_req] root_db_wf(2)
    by (simp add: sample_user_def schema_current_def)
  with v show ?thesis
    by (simp add: gate_json_session_def gate_session_def sample_init flip: opened_world_def)
qed

theorem admin_change_needs_root_witness:
  "\<exists>d' row. disk (admin_main User_toggle sample_req sample_world) DB_PATH_DEFAULT = Some d'
     \<and> t_users d' \<noteq> t_users root_db \<and> row \<in> set (t_sessions root_db) \<and> s_sid row = sample_sid"
proof -
  let ?s = "\<lparr>si_user_id = 1, si_username = ''root'', si_role = ''root'', si_csrf_token = ''tok''\<rparr>"
  have m: "admin_main User_toggle sample_req sample_world = answer sample_req ''application/json''
      ''User disabled'' (users_toggle sample_req 1 2 0 opened_world)"
    by (simp add: user_toggle_main_def root_ladder_def sample_gate gate_require_role_def auth_require_role_def
        gate_require_csrf_def auth_csrf_verify_def atoi_2 atoi_0)
  have "toggle_check sample_req 1 2 0 opened_world = None"
    by (simp add: toggle_check_def sample_user_def)
  then have t: "users_toggle sample_req 1 2 0 opened_world = toggle_apply sample_req 1 2 0 opened_world"
    by (simp add: users_toggle_def)
  have i: "2 \<in> user_ids root_db" using lookup_userD [OF root_db_user(2)] by (force simp: user_ids_def)
  have r: "runs (eng sample_req) Q_user_enable" by simp
  obtain d2 where d2: "cur (fst (toggle_apply sample_req 1 2 0 opened_world)) = Some d2"
    "snd (toggle_apply sample_req 1 2 0 opened_world) = None"
    "t_users d2 = map (\<lambda>u. if u_id u = 2 then u\<lparr>u_enabled := 0, u_updated_at := time_now sample_req\<rparr> else u) (t_users root_db)"
    by (rule toggle_apply_users [OF opened_cur(1) r i])
  have g: "g_db (fst (users_toggle sample_req 1 2 0 opened_world)) = Some DB_PATH_DEFAULT"
    by (simp add: t toggle_apply_def)
  obtain d' where d': "disk (admin_main User_toggle sample_req sample_world) DB_PATH_DEFAULT = Some d'"
    "t_users d' = t_users d2"
    using answer_users [OF d2(1) g [unfolded t]] unfolding m t by metis
  have ne: "t_users d' \<noteq> t_users root_db"
    by (simp add: d'(2) d2(3) root_db_def live_db_def sample_defs)
  from admin_change_needs_root [of sample_world sample_req root_db User_toggle d'] d'(1) ne
  show ?thesis by auto
qed

section \<open>From login to logout\<close>

lemma confirm_rollback_frame [simp]: "disk (confirm_rollback e w) = disk w" "g_db (confirm_rollback e w) = g_db w"
  "cur (confirm_rollback e w) = cur w"
  by (auto simp: confirm_rollback_def Let_def cur_def split: option.splits)

lemma emit_cookies_frame [simp]: "disk (gate_emit_session_cookies a b w) = disk w"
  "g_db (gate_emit_session_cookies a b w) = g_db w" "cur (gate_emit_session_cookies a b w) = cur w"
  by (simp_all add: gate_emit_session_cookies_def split: option.split)

lemma g_db_session_create [simp]: "g_db (fst (auth_session_create e i ip st)) = g_db st"
  by (simp add: auth_session_create_def Let_def split: option.split)

lemma cleanup_disk:
  assumes "cur w = Some d" "g_db w = Some p" "runs (eng e) Q_session_cleanup"
  shows "disk (auth_cleanup e w) p = Some (sql_delete_sessions (\<lambda>s. s_expires_at s < time_now e) d)"
  using assms by (simp add: auth_cleanup_def auth_session_cleanup_def disk_set_cur)

lemma gate_session_ok:
  assumes "g_db w = None" "disk w (gate_db_path e) = Some d" "schema_current d" "eng e = healthy"
    "get_cookie e ''session_id'' = Some k"
  defines "w2 \<equiv> w\<lparr>g_db := Some (gate_db_path e)\<rparr>"
  shows "snd (gate_session e pm sk w) = (case auth_session_verify e (Some k) w2 of None \<Rightarrow> None
    | Some s \<Rightarrow> if \<not> sk \<and> auth_user_must_change_password e (si_user_id s) w2 then None else Some s)"
proof -
  define w1 where "w1 = fst (auth_init e (gate_db_path e) w)"
  have i: "snd (auth_init e (gate_db_path e) w) = 0"
    using assms(1-5) by (simp add: auth_init_def auth_cleanup_def Let_def)
  then have ini: "auth_init e (gate_db_path e) w = (w1, 0)" by (simp add: w1_def prod_eq_iff)
  have c: "cur w1 = Some d" unfolding w1_def by (rule init_current(1) [OF assms(1-3) i])
  have v: "auth_session_verify e (Some k) w1 = auth_session_verify e (Some k) w2"
    "auth_user_must_change_password e j w1 = auth_user_must_change_password e j w2" for j
    using c assms(2) by (simp_all add: w2_def auth_session_verify_def cur_def
        auth_user_must_change_password_def auth_user_password_changed_at_def)
  show ?thesis
    unfolding gate_session_def assms(5) ini by (simp add: Let_def v split: option.split)
qed

lemma login_closed: "g_db w = None \<Longrightarrow> g_db (login_main e w) = None"
  by (auto simp: login_main_def Let_def gate_page_session_def dest: auth_init_fail' gate_session_None
      split: prod.split option.split)

lemma login_post:
  assumes "get_env e ''REQUEST_METHOD'' = ''POST''" "get_post_param e ''user'' = Some (u_username u)"
    "get_post_param e ''pass'' = Some pw" "u_username u \<noteq> []" "pw \<noteq> []"
    "g_db w = None" "disk w (gate_db_path e) = Some d" "db_wf d" "schema_current d" "eng e = healthy"
    "u \<in> set (t_users d)" "u_enabled u = 1" "auth_verify_password (Some pw) (Some (u_password_hash u))"
    "u_id u < 2147483648" "auth_generate_token (ent_sid e) (time_now e) 64 \<notin> s_sid ` set (t_sessions d)"
  obtains d' s where "disk (login_main e w) (gate_db_path e) = Some d'" "schema_current d'"
    "t_sessions d' = filter (\<lambda>s. time_now e \<le> s_expires_at s) (t_sessions d) @ [s]"
    "s_sid s = auth_generate_token (ent_sid e) (time_now e) 64" "s_user_id s = u_id u"
    "s_expires_at s = time_now e + 3600" "s_csrf_token s = auth_generate_token (ent_csrf e) (time_now e) 32"
    "lookup_user (u_id u) d' = Some (u\<lparr>u_last_login_at := Some (time_now e)\<rparr>)"
proof -
  let ?p = "gate_db_path e" and ?i = "u_id u"
  define w1 where "w1 = fst (auth_init e ?p w)"
  have i: "snd (auth_init e ?p w) = 0" using assms(6,10) by (simp add: auth_init_def auth_cleanup_def Let_def)
  then have ini: "auth_init e ?p w = (w1, 0)" by (simp add: w1_def prod_eq_iff)
  have c1: "cur w1 = Some d" using init_current(1) [OF assms(6,7,9) i] by (simp add: w1_def)
  have pos: "0 < ?i" using assms(8,11) by (force simp: db_wf_def)
  have "auth_user_login e (Some (u_username u)) (Some pw) w1 = to_int32 ?i"
    using login_ok [OF c1 assms(8,11,12)] assms(10,13) by simp
  then have lg: "auth_user_login e (Some (u_username u)) (Some pw) w1 = ?i" using pos assms(14) by simp
  have "?i \<in> user_ids d" using assms(11) by (simp add: user_ids_def)
  then obtain w2 sid csrf where cr: "auth_session_create e ?i (getenv e ''REMOTE_ADDR'') w1 = (w2, Some (sid, csrf))"
    and tok: "sid = auth_generate_token (ent_sid e) (time_now e) 64" "csrf = auth_generate_token (ent_csrf e) (time_now e) 32"
    using c1 assms(10,15) by (auto simp: auth_session_create_def Let_def sql_insert_session_def)
  obtain d2 s where s: "cur w2 = Some d2" "t_sessions d2 = t_sessions d @ [s]" "s_sid s = sid"
    "s_user_id s = ?i" "s_csrf_token s = csrf" "s_expires_at s = time_now e + 3600"
    "sid \<notin> s_sid ` set (t_sessions d)" "length sid = 64" "length csrf = 32"
    "lookup_user ?i d2 = map_option (\<lambda>u. if runs (eng e) Q_last_login
        then u\<lparr>u_last_login_at := Some (time_now e)\<rparr> else u) (lookup_user ?i d)"
    by (rule session_created [OF cr c1])
  have "g_db w1 = Some ?p" using auth_init_open [OF i assms(6)] by (simp add: w1_def)
  then have g2: "g_db w2 = Some ?p" using g_db_session_create [of e ?i "getenv e ''REMOTE_ADDR''" w1] cr by simp
  have "schema_current d2"
    using s(1) cr c1 assms(9,10)
    by (auto simp: auth_session_create_def Let_def sql_insert_session_def schema_current_def
        sql_update_users_def split: if_splits)
  moreover have "disk (login_main e w) ?p = Some (sql_delete_sessions (\<lambda>s. s_expires_at s < time_now e) d2)"
    using assms(1-5) pos s(1) g2 assms(10)
    by (simp add: login_main_def ini lg cr Let_def cleanup_disk)
  ultimately show thesis
    using s lookup_user_in [OF assms(8,11)] assms(10) tok
    by (intro that [of "sql_delete_sessions (\<lambda>s. s_expires_at s < time_now e) d2" s])
      (simp_all add: sql_delete_sessions_def schema_current_def lookup_user_def not_less)
qed

text \<open>C27: what a login opens.  After \<open>login.cgi\<close> has processed a POST with the right name and
  password of an enabled account (identifier drawn afresh), a request that sends the session cookie
  back within 3600 seconds is let through as that user with that user's role: by the gate of the
  password page always, and by the gates of all other programs exactly when the password has been
  changed once and less than 90 days ago.  No gate lets a later request through.\<close>

theorem login_opens_gate:
  assumes "get_env e ''REQUEST_METHOD'' = ''POST''" "get_post_param e ''user'' = Some (u_username u)"
    "get_post_param e ''pass'' = Some pw" "u_username u \<noteq> []" "pw \<noteq> []"
    "g_db w = None" "disk w (gate_db_path e) = Some d" "db_wf d" "schema_current d" "eng e = healthy"
    "u \<in> set (t_users d)" "u_enabled u = 1" "auth_verify_password (Some pw) (Some (u_password_hash u))"
    "u_id u < 2147483648" "auth_generate_token (ent_sid e) (time_now e) 64 \<notin> s_sid ` set (t_sessions d)"
    "get_cookie e' ''session_id'' = Some (auth_generate_token (ent_sid e) (time_now e) 64)"
    "eng e' = healthy" "gate_db_path e' = gate_db_path e"
  shows "let w' = login_main e w; who = map_option (\<lambda>s. (si_user_id s, si_role s));
      in_time = (time_now e' < time_now e + 3600);
      expired = (u_password_changed_at u = 0 \<or> time_now e' \<ge> u_password_changed_at u + 90 * 86400) in
    who (snd (gate_json_session_no_policy e' w')) = (if in_time then Some (u_id u, u_role u) else None)
    \<and> who (snd (gate_json_session e' w')) = (if in_time \<and> \<not> expired then Some (u_id u, u_role u) else None)
    \<and> who (snd (gate_page_session e' w')) = (if in_time \<and> \<not> expired then Some (u_id u, u_role u) else None)"
proof -
  let ?sid = "auth_generate_token (ent_sid e) (time_now e) 64" and ?p = "gate_db_path e" and ?w = "login_main e w"
  obtain d' s where d': "disk ?w ?p = Some d'" "schema_current d'"
    "t_sessions d' = filter (\<lambda>s. time_now e \<le> s_expires_at s) (t_sessions d) @ [s]"
    "s_sid s = ?sid" "s_user_id s = u_id u" "s_expires_at s = time_now e + 3600"
    "s_csrf_token s = auth_generate_token (ent_csrf e) (time_now e) 32"
    "lookup_user (u_id u) d' = Some (u\<lparr>u_last_login_at := Some (time_now e)\<rparr>)"
    by (rule login_post [OF assms(1-15)])
  have closed: "g_db ?w = None"
    by (rule login_closed [OF assms(6)])
  let ?w2 = "?w\<lparr>g_db := Some ?p\<rparr>"
  have cur: "cur ?w2 = Some d'" by (simp add: cur_def d'(1))
  have "find (\<lambda>x. s_sid x = ?sid \<and> time_now e' < s_expires_at x) (filter (\<lambda>s. time_now e \<le> s_expires_at s) (t_sessions d)) = None"
    using assms(15) by (auto simp: find_None_iff intro: rev_image_eqI)
  then have f: "find (\<lambda>x. s_sid x = ?sid \<and> time_now e' < s_expires_at x) (t_sessions d')
      = (if time_now e' < time_now e + 3600 then Some s else None)"
    using d'(4,6) by (simp add: d'(3) find_appendI find_append_other)
  have r: "u_role u = ''root'' \<or> u_role u = ''admin''" "1 \<le> u_id u"
    using assms(8,11) by (auto simp: db_wf_def)
  have v: "map_option (\<lambda>s. (si_user_id s, si_role s)) (auth_session_verify e' (Some ?sid) ?w2)
     = (if time_now e' < time_now e + 3600 then Some (u_id u, u_role u) else None)"
    using r assms(12,14,17) by (auto simp: auth_session_verify_def cur d'(5,8) f snprintf_s_def)
  have m: "auth_user_must_change_password e' (u_id u) ?w2
      \<longleftrightarrow> u_password_changed_at u = 0 \<or> time_now e' \<ge> u_password_changed_at u + 90 * 86400"
    using must_change_cur [OF cur d'(8)] r(2) assms(17) d'(2) by (simp add: schema_current_def)
  have g: "snd (gate_session e' pm sk ?w) = (case auth_session_verify e' (Some ?sid) ?w2 of None \<Rightarrow> None
    | Some s \<Rightarrow> if \<not> sk \<and> auth_user_must_change_password e' (si_user_id s) ?w2 then None else Some s)" for pm sk
    by (rule gate_session_ok [OF closed _ d'(2) assms(17,16), unfolded assms(18), OF d'(1)])
  show ?thesis
  proof (cases "auth_session_verify e' (Some ?sid) ?w2")
    case None
    then show ?thesis using v
      by (simp add: Let_def gate_json_session_no_policy_def gate_json_session_def gate_page_session_def g split: if_splits)
  next
    case (Some t)
    then have "time_now e' < time_now e + 3600" "si_user_id t = u_id u" "si_role t = u_role u" using v by (auto split: if_splits)
    then show ?thesis using Some m
      by (simp add: Let_def gate_json_session_no_policy_def gate_json_session_def gate_page_session_def g)
  qed
qed

definition login_req :: env where
  "login_req = req_env [(''CONTENT_LENGTH'', ''28''), (''REQUEST_METHOD'', ''POST'')]
     (form_encode [(''user'', ''alice''), (''pass'', sample_pw)])"

definition next_req :: "int \<Rightarrow> env" where
  "next_req t = (req_env [(''HTTP_COOKIE'', cookie_header [(''session_id'',
      auth_generate_token (ent_sid login_req) (time_now login_req) 64)])] [])\<lparr>time_now := t\<rparr>"

lemma token_xdigits: "c \<in> set (auth_generate_token e t n) \<Longrightarrow> c_isxdigit c"
  unfolding auth_generate_token_def by (rule hex_encode_xdigits)

lemma token_cookie_ok: "cookie_ok (''session_id'', auth_generate_token e t 64)"
  by (auto simp: cookie_ok_def c_isxdigit_def c_isdigit_def dest: token_xdigits)

lemma next_req_cookie [simp]: "get_cookie (next_req t) ''session_id'' =
    Some (auth_generate_token (ent_sid login_req) (time_now login_req) 64)"
  using cookie_scan_header [of "''session_id''" "[(''session_id'',
      auth_generate_token (ent_sid login_req) (time_now login_req) 64)]"] token_cookie_ok
  by (simp add: next_req_def req_env_def get_cookie_def del: cookie_header.simps)

lemma login_req_params: "get_post_param login_req ''user'' = Some ''alice''"
  "get_post_param login_req ''pass'' = Some sample_pw"
proof -
  have "cache_post_body login_req = Some ''user=alice&pass=Abcdefgh1%21''"
    unfolding cache_post_body_def login_req_def req_env_def sample_pw_def by simp code_simp
  then show "get_post_param login_req ''user'' = Some ''alice''"
    "get_post_param login_req ''pass'' = Some sample_pw"
    unfolding get_post_param_def sample_pw_def by (simp_all only: option.case) code_simp+
qed

lemma sample_token_fresh: "auth_generate_token (ent_sid login_req) (time_now login_req) 64 \<notin> s_sid ` set (t_sessions root_db)"
proof -
  have "auth_generate_token (ent_sid login_req) (time_now login_req) 64 \<noteq> sample_sid"
    by (simp add: auth_generate_token_def login_req_def req_env_def sample_env_def fill_random_def
        sample_sid_def hex_encode_def hex_byte_def hex_digit_def) code_simp
  then show ?thesis by (simp add: root_db_def sample_session_def)
qed

lemma alice: "sample_user 2 ''alice'' ''admin'' \<in> set (t_users root_db)" "u_id (sample_user 2 ''alice'' ''admin'') = 2"
  "u_username (sample_user 2 ''alice'' ''admin'') = ''alice''" "u_role (sample_user 2 ''alice'' ''admin'') = ''admin''"
  "u_enabled (sample_user 2 ''alice'' ''admin'') = 1" "u_password_hash (sample_user 2 ''alice'' ''admin'') = sample_hash" "sample_pw \<noteq> []"
  by (simp_all add: root_db_def live_db_def sample_db_def) (simp_all add: sample_user_def sample_pw_def)

lemma login_req_env: "get_env login_req ''REQUEST_METHOD'' = ''POST''" "eng login_req = healthy"
  "gate_db_path login_req = DB_PATH_DEFAULT" "time_now login_req = 1000"
  by (simp_all add: login_req_def req_env_def get_env_def gate_db_path_def)

theorem login_opens_gate_witness:
  "map_option si_user_id (snd (gate_json_session (next_req 4000) (login_main login_req sample_world))) = Some 2
   \<and> snd (gate_json_session (next_req 5000) (login_main login_req sample_world)) = None"
proof -
  have env: "gate_db_path (next_req t) = gate_db_path login_req" "eng (next_req t) = healthy" "time_now (next_req t) = t" for t
    by (simp_all add: login_req_env) (simp_all add: next_req_def req_env_def gate_db_path_def)
  have pc: "u_password_changed_at (sample_user 2 ''alice'' ''admin'') = 500" by (simp add: sample_user_def)
  have "map_option (\<lambda>s. (si_user_id s, si_role s)) (snd (gate_json_session (next_req t) (login_main login_req sample_world)))
     = (if t < 4600 \<and> \<not> t \<ge> 500 + 90 * 86400 then Some (2, ''admin'') else None)" for t
    using login_opens_gate [OF login_req_env(1) _ login_req_params(2) _ _ sample_world_simps(1) sample_world_simps(2) root_db_wf(1,2)
        login_req_env(2) alice(1) _ _ _ sample_token_fresh next_req_cookie env(2,1), of t]
    unfolding Let_def by (simp only: alice login_req_env env login_req_params sample_verify pc) (simp add: alice)
  from this [of 4000] this [of 5000] show ?thesis by auto
qed

text \<open>Logging out closes the gate.  After \<open>logout.cgi\<close> has run on a request with a session cookie,
  no later request with that cookie passes the session gate, at whatever time.\<close>

theorem logout_closes_gate:
  assumes "g_db w = None" "disk w (gate_db_path e) = Some d" "schema_current d" "eng e = healthy"
    "get_cookie e ''session_id'' = Some k" "get_cookie e' ''session_id'' = Some k"
    "eng e' = healthy" "gate_db_path e' = gate_db_path e"
  shows "snd (gate_session e' pm True (logout_main e w)) = None"
proof -
  let ?p = "gate_db_path e" and ?w1 = "fst (auth_init e (gate_db_path e) w)"
  have i: "snd (auth_init e ?p w) = 0" using assms(1,4) by (simp add: auth_init_def auth_cleanup_def Let_def)
  have c1: "cur ?w1 = Some d" by (rule init_current(1) [OF assms(1-3) i])
  have g1: "g_db ?w1 = Some ?p" by (rule auth_init_open [OF i assms(1)])
  let ?d2 = "sql_delete_sessions (\<lambda>s. s_expires_at s < time_now e) (sql_delete_sessions (\<lambda>s. s_sid s = k) d)"
  have "disk (logout_main e w) ?p = Some ?d2"
    using c1 g1 assms(4,5) by (simp add: logout_main_def Let_def auth_session_destroy_def cleanup_disk)
  moreover have "g_db (logout_main e w) = None" by (simp add: logout_main_def Let_def)
  moreover have "schema_current ?d2" using assms(3) by simp
  ultimately have "snd (gate_session e' pm True (logout_main e w))
      = auth_session_verify e' (Some k) ((logout_main e w)\<lparr>g_db := Some ?p\<rparr>)"
    "cur ((logout_main e w)\<lparr>g_db := Some ?p\<rparr>) = Some ?d2"
    using gate_session_ok [of "logout_main e w" e' ?d2 k pm True] assms(6-8) by (simp_all add: cur_def split: option.split)
  moreover have "find (\<lambda>s. s_sid s = k \<and> P s) (t_sessions ?d2) = None" for P
    by (auto simp: sql_delete_sessions_def find_None_iff)
  ultimately show ?thesis by (simp add: auth_session_verify_def)
qed

theorem logout_closes_gate_witness:
  "snd (gate_json_session sample_req sample_world) \<noteq> None
   \<and> snd (gate_session sample_req False True (logout_main sample_req sample_world)) = None"
  using sample_gate logout_closes_gate [of sample_world sample_req root_db sample_sid sample_req False] by simp

text \<open>The gate keeps its contract.  Whatever the request and whatever the database does, a refused
  request ends with the database closed and an answer printed; without a session cookie nothing
  but the output changes (the database is not even opened); and a request that passes leaves the
  database open, prints nothing, and carries a session the database accepts.\<close>

theorem gate_contract:
  assumes "g_db w = None"
  shows "case gate_session e pm sk w of
      (w', None) \<Rightarrow> g_db w' = None \<and> length (w_out w) < length (w_out w')
         \<and> (if get_cookie e ''session_id'' = None then w'\<lparr>w_out := w_out w\<rparr> = w else True)
    | (w', Some s) \<Rightarrow> g_db w' = Some (gate_db_path e) \<and> w_out w' = w_out w
         \<and> auth_session_verify e (get_cookie e ''session_id'') w' = Some s
         \<and> (sk \<or> \<not> auth_user_must_change_password e (si_user_id s) w')"
proof -
  have o: "length (w_out w) < length (w_out (json_error m w2))"
    "length (w_out w) < length (w_out (emit_not_authenticated pm w2))"
    "length (w_out w) < length (w_out (cgi_redirect u w2))" if "w_out w2 = w_out w" for m w2 u
    using that by (simp_all add: json_error_def emit_not_authenticated_def cgi_header_def cgi_redirect_def emit_def)
  have f: "(emit_not_authenticated pm w)\<lparr>w_out := w_out w\<rparr> = w"
    by (simp add: json_error_def emit_not_authenticated_def cgi_header_def cgi_redirect_def emit_def)
  have i: "w_out w1 = w_out w" if "auth_init e p w = (w1, rc)" for p w1 rc
    using w_out_init [of e p w] that by simp
  have op: "g_db w1 = Some p" if "auth_init e p w = (w1, 0)" for p w1
    using auth_init_open [of e p w] that assms by simp
  show ?thesis
    using assms
    by (auto simp: gate_session_def Let_def f o i op dest: auth_init_fail' split: option.split prod.split)
qed

theorem gate_contract_witness:
  "case gate_session sample_req False False sample_world of
      (w', None) \<Rightarrow> g_db w' = None | (w', Some s) \<Rightarrow> g_db w' = Some DB_PATH_DEFAULT \<and> si_role s = ''root''"
  using gate_contract [of sample_world sample_req False False] sample_gate
  by (simp add: gate_json_session_def)

end
