(* ===== verification/Nmcli.thy ===== *)
theory Nmcli
  imports Auth
begin

text \<open>
  Local network configuration through NetworkManager, \<open>src/nmcli.c\<close>: validation of the fields, the
  conversion between masks and prefixes, the lookup of a connection profile, reading and writing
  the configuration of an interface.  The program \<open>nmcli\<close> is a parameter: a function of the state
  of the network and the argument vector that yields the new state and how the child ended.
\<close>

section \<open>Running nmcli\<close>

datatype nm_result = PipeFailed | ForkFailed | Exited bool string

type_synonym 's nmcli = "'s \<Rightarrow> string list \<Rightarrow> 's \<times> nm_result"

text \<open>The child's argument vector.\<close>

definition exec_argv :: "env \<Rightarrow> string list \<Rightarrow> string list" where
  "exec_argv e argv =
    (case getenv e ''NMCLI_OVERRIDE'' of
       Some exe \<Rightarrow> if exe \<noteq> [] then exe # tl argv
                   else (if getenv e ''NMCLI_NO_SUDO'' = None then [''sudo'', ''-n''] else []) @ ''nmcli'' # tl argv
     | None \<Rightarrow> (if getenv e ''NMCLI_NO_SUDO'' = None then [''sudo'', ''-n''] else []) @ ''nmcli'' # tl argv)"

text \<open>\<open>outlen = None\<close> stands for \<open>out == NULL\<close>.  \<open>Inl\<close> carries the text left in \<open>err\<close>, \<open>Inr\<close> the
  captured output.\<close>

definition nmcli_run ::
  "env \<Rightarrow> 's nmcli \<Rightarrow> string list \<Rightarrow> nat option \<Rightarrow> nat \<Rightarrow> 's \<Rightarrow> 's \<times> (string + string)" where
  "nmcli_run e nm argv outlen errlen s =
    (if length argv + 3 > 64 then (s, Inl (snprintf_s errlen ''too many arguments''))
     else (case nm s (exec_argv e argv) of
         (s', PipeFailed) \<Rightarrow> (s', Inl (snprintf_s errlen ''pipe failed''))
       | (s', ForkFailed) \<Rightarrow> (s', Inl (snprintf_s errlen ''fork failed''))
       | (s', Exited ok text) \<Rightarrow>
           let out = (case outlen of None \<Rightarrow> [] | Some n \<Rightarrow> cstr (take (n - 1) text)) in
           if ok then (s', Inr out)
           else (s', Inl (snprintf_s errlen
                  (''nmcli '' @ argv ! 1 @ '' '' @ argv ! 2 @ '' failed: '' @ out)))))"

section \<open>Validation\<close>

definition g_nics :: "string list" where
  "g_nics = [''eth0'', ''eth1'', ''eth2'', ''eth3'']"

definition nmcli_nic_valid :: "string \<Rightarrow> bool" where
  "nmcli_nic_valid nic = list_ex (\<lambda>x. x = nic) g_nics"

text \<open>The scan of \<open>valid_ipv4\<close>; \<open>prev\<close> is the byte before \<open>p\<close> (\<open>None\<close> at the start).\<close>

fun ipv4_scan :: "char option \<Rightarrow> int \<Rightarrow> int \<Rightarrow> string \<Rightarrow> bool" where
  "ipv4_scan prev seg dots [] =
     (dots \<ge> 1 \<and> seg \<le> 255 \<and> (case prev of None \<Rightarrow> False | Some c \<Rightarrow> c_isdigit c))"
| "ipv4_scan prev seg dots (c # cs) =
     (if c = CHR ''.''
      then if prev = None \<or> prev = Some (CHR ''.'') \<or> seg > 255 \<or> dots + 1 > 3 then False
           else ipv4_scan (Some c) 0 (dots + 1) cs
      else if c_isdigit c
      then let seg' = seg * 10 + digit_val c in
           if seg' > 255 then False else ipv4_scan (Some c) seg' dots cs
      else False)"

definition valid_ipv4 :: "string \<Rightarrow> bool" where
  "valid_ipv4 s = (if s = [] then False else ipv4_scan None 0 0 s)"

text \<open>The octets of a dotted string, and the 32-bit value the loops assemble from them.\<close>

fun octets :: "int \<Rightarrow> string \<Rightarrow> int list" where
  "octets seg [] = [seg]"
| "octets seg (c # cs) = (if c = CHR ''.'' then seg # octets 0 cs else octets (seg * 10 + digit_val c) cs)"

definition mask_word :: "string \<Rightarrow> u32" where
  "mask_word s = foldl (\<lambda>m v. push_bit 8 m OR (word_of_int v AND 0xff)) 0
     (take 4 (octets 0 s @ [0, 0, 0]))"

fun contiguous :: "bool \<Rightarrow> bool list \<Rightarrow> bool" where
  "contiguous seen_zero [] = True"
| "contiguous seen_zero (b # bs) =
     (if b then (if seen_zero then False else contiguous seen_zero bs) else contiguous True bs)"

definition msb_bits :: "u32 \<Rightarrow> bool list" where
  "msb_bits m = map (\<lambda>i. bit m (31 - i)) [0..<32]"

definition valid_mask :: "string \<Rightarrow> bool" where
  "valid_mask s = (if \<not> valid_ipv4 s then False else contiguous False (msb_bits (mask_word s)))"

definition valid_dns_list :: "string \<Rightarrow> bool" where
  "valid_dns_list s = (if s = [] then False
     else list_all valid_ipv4 (strtok (\<lambda>c. c = CHR '','') (snprintf_s 192 s)))"

definition ipv6_char :: "char \<Rightarrow> bool" where
  "ipv6_char c \<longleftrightarrow> c_isxdigit c \<or> c = CHR '':'' \<or> c = CHR ''.'' \<or> c = CHR ''/''"

definition valid_ipv6 :: "string \<Rightarrow> bool" where
  "valid_ipv6 s =
    (if s = [] then False
     else if CHR '':'' \<notin> set s then False
     else if length s > 120 then False
     else if \<not> list_all ipv6_char s then False
     else (case after_chr (CHR ''/'') s of None \<Rightarrow> False
       | Some p \<Rightarrow>
         if p = [] then False
         else let prefix = atoi p in
           if prefix < 1 \<or> prefix > 128 then False else list_all c_isdigit p))"

record NicConfig =
  nc_ip :: string
  nc_mask :: string
  nc_gateway :: string
  nc_dns :: string
  nc_ipv6 :: string

definition empty_nic :: NicConfig where
  "empty_nic = \<lparr>nc_ip = [], nc_mask = [], nc_gateway = [], nc_dns = [], nc_ipv6 = []\<rparr>"

text \<open>\<open>None\<close>: valid; otherwise the reason left in \<open>err\<close>.\<close>

definition nmcli_validate_params :: "NicConfig \<Rightarrow> nat \<Rightarrow> string option" where
  "nmcli_validate_params cfg errlen =
    (if nc_ip cfg = [] \<or> \<not> valid_ipv4 (nc_ip cfg) then Some (snprintf_s errlen (''IP '' @ utf8 [0xE5, 0x9C, 0xB0, 0xE5, 0x9D, 0x80, 0xE6, 0xA0, 0xBC, 0xE5, 0xBC, 0x8F, 0xE6, 0x97, 0xA0, 0xE6, 0x95, 0x88]))
     else if nc_mask cfg = [] \<or> \<not> valid_mask (nc_mask cfg) then Some (snprintf_s errlen (utf8 [0xE5, 0xAD, 0x90, 0xE7, 0xBD, 0x91, 0xE6, 0x8E, 0xA9, 0xE7, 0xA0, 0x81, 0xE6, 0xA0, 0xBC, 0xE5, 0xBC, 0x8F, 0xE6, 0x97, 0xA0, 0xE6, 0x95, 0x88]))
     else if nc_gateway cfg \<noteq> [] \<and> \<not> valid_ipv4 (nc_gateway cfg) then Some (snprintf_s errlen (utf8 [0xE7, 0xBD, 0x91, 0xE5, 0x85, 0xB3, 0xE5, 0x9C, 0xB0, 0xE5, 0x9D, 0x80, 0xE6, 0xA0, 0xBC, 0xE5, 0xBC, 0x8F, 0xE6, 0x97, 0xA0, 0xE6, 0x95, 0x88]))
     else if nc_dns cfg \<noteq> [] \<and> \<not> valid_dns_list (nc_dns cfg) then Some (snprintf_s errlen (''DNS '' @ utf8 [0xE6, 0x9C, 0x8D, 0xE5, 0x8A, 0xA1, 0xE5, 0x99, 0xA8, 0xE6, 0xA0, 0xBC, 0xE5, 0xBC, 0x8F, 0xE6, 0x97, 0xA0, 0xE6, 0x95, 0x88]))
     else if nc_ipv6 cfg \<noteq> [] \<and> \<not> valid_ipv6 (nc_ipv6 cfg) then Some (snprintf_s errlen (''IPv6 '' @ utf8 [0xE5, 0x9C, 0xB0, 0xE5, 0x9D, 0x80, 0xE6, 0xA0, 0xBC, 0xE5, 0xBC, 0x8F, 0xE6, 0x97, 0xA0, 0xE6, 0x95, 0x88]))
     else None)"

section \<open>Mask and prefix\<close>

text \<open>\<open>while (m & 0x80000000u)\<close>: each round shifts a zero in from the right, so 32 rounds are
  enough (\<open>leading_ones_fuel\<close> below).\<close>

fun leading_ones :: "nat \<Rightarrow> u32 \<Rightarrow> int" where
  "leading_ones 0 m = 0"
| "leading_ones (Suc n) m = (if m AND 0x80000000 \<noteq> 0 then 1 + leading_ones n (push_bit 1 m) else 0)"

definition nmcli_mask_to_prefix :: "string \<Rightarrow> int" where
  "nmcli_mask_to_prefix msk = leading_ones 32 (mask_word msk)"

text \<open>\<open>0xffffffffu << (32 - prefix)\<close> for a prefix of 1 to 32.\<close>

definition prefix_to_mask :: "int \<Rightarrow> nat \<Rightarrow> string" where
  "prefix_to_mask prefix outlen =
    (let m = (if prefix = 0 then 0 else push_bit (nat (32 - prefix)) 0xffffffff) :: u32;
         oct = (\<lambda>k. dec_nat (unat (drop_bit k m AND 0xff)))
     in snprintf_s outlen (oct 24 @ ''.'' @ oct 16 @ ''.'' @ oct 8 @ ''.'' @ oct 0))"

section \<open>Profiles\<close>

text \<open>A loop \<open>while (line && *line)\<close> over the lines of a text ends at the first empty one.\<close>

definition scan_lines :: "string \<Rightarrow> string list" where
  "scan_lines s = takeWhile (\<lambda>l. l \<noteq> []) (split_on (\<lambda>c. c = nl) s)"

definition bound_to :: "string \<Rightarrow> string \<Rightarrow> bool" where
  "bound_to nic showout = list_ex (\<lambda>cl. cl = ''connection.interface-name:'' @ nic) (scan_lines showout)"

fun find_profile ::
  "env \<Rightarrow> 's nmcli \<Rightarrow> string \<Rightarrow> nat \<Rightarrow> string list \<Rightarrow> 's \<Rightarrow> 's \<times> string option" where
  "find_profile e nm nic errlen [] s = (s, None)"
| "find_profile e nm nic errlen (line # ls) s =
    (case after_chr (CHR '':'') line of None \<Rightarrow> find_profile e nm nic errlen ls s
     | Some uuid \<Rightarrow>
       (case nmcli_run e nm [''nmcli'', ''-t'', ''connection'', ''show'', before_chr (CHR '':'') line]
               (Some 8192) errlen s of
          (s', Inr showout) \<Rightarrow> if bound_to nic showout then (s', Some uuid)
                              else find_profile e nm nic errlen ls s'
        | (s', Inl _) \<Rightarrow> find_profile e nm nic errlen ls s'))"

definition profile_for ::
  "env \<Rightarrow> 's nmcli \<Rightarrow> string \<Rightarrow> nat \<Rightarrow> 's \<Rightarrow> 's \<times> (string + string)" where
  "profile_for e nm nic errlen s =
    (case nmcli_run e nm [''nmcli'', ''-t'', ''-f'', ''NAME,UUID'', ''connection'', ''show''] (Some 8192) errlen s of
       (s', Inl err) \<Rightarrow> (s', Inl err)
     | (s', Inr out) \<Rightarrow>
       (case find_profile e nm nic errlen (scan_lines out) s' of
          (s'', Some uuid) \<Rightarrow> (s'', Inr uuid)
        | (s'', None) \<Rightarrow> (s'', Inl (snprintf_s errlen ((utf8 [0xE6, 0x9C, 0xAA, 0xE6, 0x89, 0xBE, 0xE5, 0x88, 0xB0, 0xE7, 0xBD, 0x91, 0xE5, 0x8F, 0xA3] @ '' '') @ nic @ ('' '' @ utf8 [0xE7, 0x9A, 0x84] @ '' NetworkManager '' @ utf8 [0xE9, 0x85, 0x8D, 0xE7, 0xBD, 0xAE]))))))"

section \<open>Reading and writing a configuration\<close>

definition config_line :: "NicConfig \<Rightarrow> string \<Rightarrow> NicConfig" where
  "config_line cfg line = (case after_chr (CHR '':'') line of None \<Rightarrow> cfg
     | Some val \<Rightarrow>
       let key = before_chr (CHR '':'') line in
       if has_prefix ''IP4.ADDRESS[1]'' key
       then let addr = snprintf_s 64 val in
         (case after_chr (CHR ''/'') addr of
            Some p \<Rightarrow> cfg\<lparr>nc_ip := before_chr (CHR ''/'') addr, nc_mask := prefix_to_mask (atoi p) 64\<rparr>
          | None \<Rightarrow> cfg\<lparr>nc_ip := addr\<rparr>)
       else if has_prefix ''IP4.GATEWAY'' key then cfg\<lparr>nc_gateway := snprintf_s 64 val\<rparr>
       else if has_prefix ''IP4.DNS['' key
       then let dns = (if nc_dns cfg \<noteq> [] then take 191 (nc_dns cfg @ '','') else nc_dns cfg)
            in cfg\<lparr>nc_dns := take 191 (dns @ val)\<rparr>
       else if has_prefix ''IP6.ADDRESS'' key
       then if \<not> has_prefix ''fe80:'' val \<and> nc_ipv6 cfg = [] then cfg\<lparr>nc_ipv6 := snprintf_s 128 val\<rparr> else cfg
       else cfg)"

definition nmcli_get_config ::
  "env \<Rightarrow> 's nmcli \<Rightarrow> string \<Rightarrow> nat \<Rightarrow> 's \<Rightarrow> 's \<times> (string + NicConfig)" where
  "nmcli_get_config e nm nic errlen s =
    (if \<not> nmcli_nic_valid nic then (s, Inl (snprintf_s errlen (utf8 [0xE6, 0x97, 0xA0, 0xE6, 0x95, 0x88, 0xE7, 0x9A, 0x84, 0xE7, 0xBD, 0x91, 0xE5, 0x8F, 0xA3, 0xE5, 0x90, 0x8D, 0xE7, 0xA7, 0xB0])))
     else (case nmcli_run e nm [''nmcli'', ''-t'', ''device'', ''show'', nic] (Some 8192) errlen s of
         (s', Inl err) \<Rightarrow> (s', Inl err)
       | (s', Inr buf) \<Rightarrow> (s', Inr (foldl config_line empty_nic (scan_lines buf)))))"

fun clear_gateways :: "env \<Rightarrow> 's nmcli \<Rightarrow> string \<Rightarrow> nat \<Rightarrow> string list \<Rightarrow> 's \<Rightarrow> 's" where
  "clear_gateways e nm keep_nic errlen [] s = s"
| "clear_gateways e nm keep_nic errlen (nic # nics) s =
    (if nic = keep_nic then clear_gateways e nm keep_nic errlen nics s
     else (case nmcli_get_config e nm nic errlen s of
         (s1, Inl _) \<Rightarrow> clear_gateways e nm keep_nic errlen nics s1
       | (s1, Inr cfg) \<Rightarrow>
         if nc_gateway cfg = [] then clear_gateways e nm keep_nic errlen nics s1
         else (case profile_for e nm nic errlen s1 of
             (s2, Inl _) \<Rightarrow> clear_gateways e nm keep_nic errlen nics s2
           | (s2, Inr profile) \<Rightarrow>
             clear_gateways e nm keep_nic errlen nics
               (fst (nmcli_run e nm [''nmcli'', ''connection'', ''modify'', profile, ''ipv4.gateway'', []]
                  None errlen s2)))))"

definition clear_gateway_others :: "env \<Rightarrow> 's nmcli \<Rightarrow> string \<Rightarrow> nat \<Rightarrow> 's \<Rightarrow> 's" where
  "clear_gateway_others e nm keep_nic errlen s = clear_gateways e nm keep_nic errlen g_nics s"

definition ensure_profile ::
  "env \<Rightarrow> 's nmcli \<Rightarrow> string \<Rightarrow> nat \<Rightarrow> 's \<Rightarrow> 's \<times> (string + string)" where
  "ensure_profile e nm nic errlen s = (case profile_for e nm nic errlen s of
     (s1, Inr profile) \<Rightarrow> (s1, Inr profile)
   | (s1, Inl _) \<Rightarrow>
     (case nmcli_run e nm [''nmcli'', ''connection'', ''add'', ''type'', ''ethernet'', ''ifname'', nic,
              ''con-name'', nic] None errlen s1 of
        (s2, Inl err) \<Rightarrow> (s2, Inl err)
      | (s2, Inr _) \<Rightarrow> profile_for e nm nic errlen s2))"

definition modify_argv :: "string \<Rightarrow> NicConfig \<Rightarrow> string list" where
  "modify_argv profile cfg =
    [''nmcli'', ''connection'', ''modify'', profile, ''ipv4.method'', ''manual'', ''ipv4.addresses'',
     snprintf_s 64 (nc_ip cfg @ ''/'' @ dec_int (nmcli_mask_to_prefix (nc_mask cfg))),
     ''ipv4.gateway'', nc_gateway cfg, ''ipv4.dns'', nc_dns cfg, ''ipv6.method'']
    @ (if nc_ipv6 cfg \<noteq> [] then [''manual'', ''ipv6.addresses'', nc_ipv6 cfg] else [''ignore''])"

definition nmcli_set_config ::
  "env \<Rightarrow> 's nmcli \<Rightarrow> string \<Rightarrow> NicConfig \<Rightarrow> nat \<Rightarrow> 's \<Rightarrow> 's \<times> (string + unit)" where
  "nmcli_set_config e nm nic cfg errlen s =
    (if \<not> nmcli_nic_valid nic then (s, Inl (snprintf_s errlen (utf8 [0xE6, 0x97, 0xA0, 0xE6, 0x95, 0x88, 0xE7, 0x9A, 0x84, 0xE7, 0xBD, 0x91, 0xE5, 0x8F, 0xA3, 0xE5, 0x90, 0x8D, 0xE7, 0xA7, 0xB0])))
     else (case ensure_profile e nm nic errlen s of
         (s1, Inl err) \<Rightarrow> (s1, Inl err)
       | (s1, Inr profile) \<Rightarrow>
         (case nmcli_run e nm (modify_argv profile cfg) None errlen s1 of
            (s2, Inl err) \<Rightarrow> (s2, Inl err)
          | (s2, Inr _) \<Rightarrow>
            let s3 = (if nc_gateway cfg \<noteq> [] then clear_gateway_others e nm nic errlen s2 else s2)
            in (fst (nmcli_run e nm [''nmcli'', ''connection'', ''up'', profile] None errlen s3), Inr ()))))"

section \<open>What the validators accept\<close>

definition octet :: "string \<Rightarrow> bool" where
  "octet w \<longleftrightarrow> w \<noteq> [] \<and> list_all c_isdigit w \<and> dec_val w \<le> 255"

lemma digit_val_nonneg: "c_isdigit c \<Longrightarrow> 0 \<le> digit_val c"
  by (simp add: c_isdigit_def digit_val_def)

lemma dec_val_mono: "list_all c_isdigit (xs @ ys) \<Longrightarrow> 0 \<le> dec_val xs \<and> dec_val xs \<le> dec_val (xs @ ys)"
proof (induction ys rule: rev_induct)
  case Nil
  have "list_all c_isdigit xs \<Longrightarrow> 0 \<le> dec_val xs"
    by (induction xs rule: rev_induct)
      (simp_all add: dec_val_snoc digit_val_nonneg, simp add: dec_val_def)
  with Nil show ?case by simp
next
  case (snoc y ys)
  then have "dec_val xs \<le> dec_val (xs @ ys)" "0 \<le> dec_val xs" "0 \<le> digit_val y"
    by (auto simp: digit_val_nonneg)
  then show ?case using dec_val_snoc [of "xs @ ys" y] by simp
qed

lemma split_on_Cons_sep: "p c \<Longrightarrow> split_on p (c # s) = [] # split_on p s"
  by simp

lemma split_on_word: "(\<And>c. c \<in> set w \<Longrightarrow> \<not> p c) \<Longrightarrow> split_on p (w @ s) = (w @ hd (split_on p s)) # tl (split_on p s)"
proof (induction w)
  case Nil
  then show ?case by simp
next
  case (Cons c w)
  then show ?case by (simp split: list.split)
qed

definition dotted :: "string \<Rightarrow> string list" where
  "dotted s = split_on (\<lambda>c. c = CHR ''.'') s"

text \<open>The scan from within a segment \<open>w\<close> of digits already read.\<close>

lemma dot_not_digit [simp]: "\<not> c_isdigit (CHR ''.'')"
  by (simp add: c_isdigit_def)

lemma ipv4_scan_spec:
  assumes "list_all c_isdigit w" "dec_val w \<le> 255" "0 \<le> dots" "dots \<le> 3"
    "prev = (if w = [] then (if dots = 0 then None else Some (CHR ''.'')) else Some (last w))"
  shows "ipv4_scan prev (dec_val w) dots s \<longleftrightarrow>
     list_all octet (dotted (w @ s)) \<and> 1 \<le> dots + int (length (dotted s)) - 1
     \<and> dots + int (length (dotted s)) - 1 \<le> 3"
  using assms
proof (induction s arbitrary: w dots prev)
  case Nil
  have "\<And>x. x \<in> set w \<Longrightarrow> \<not> x = CHR ''.''"
    using Nil.prems(1) by (auto simp: list_all_iff c_isdigit_def)
  then have "dotted w = [w]"
    using split_on_word [of w "\<lambda>c. c = CHR ''.''" "[]"] by (simp add: dotted_def)
  with Nil show ?case by (auto simp: octet_def dotted_def list_all_iff)
next
  case (Cons c s)
  have nd: "\<And>x. x \<in> set w \<Longrightarrow> \<not> x = CHR ''.''"
    using Cons.prems(1) by (auto simp: list_all_iff c_isdigit_def)
  show ?case
  proof (cases "c = CHR ''.''")
    case True
    have d: "dotted (w @ c # s) = w # dotted s" "dotted (c # s) = [] # dotted s"
      using split_on_word [of w "\<lambda>c. c = CHR ''.''" "c # s"] nd by (auto simp: dotted_def True)
    have z: "dec_val [] = 0" by (simp add: dec_val_def)
    have "ipv4_scan (Some c) 0 (dots + 1) s \<longleftrightarrow> list_all octet (dotted s)
        \<and> 1 \<le> dots + 1 + int (length (dotted s)) - 1 \<and> dots + 1 + int (length (dotted s)) - 1 \<le> 3"
      if "dots + 1 \<le> 3"
      using Cons.IH [of "[]" "dots + 1" "Some c"] Cons.prems(3) that by (simp add: z True)
    moreover have "prev = None \<or> prev = Some (CHR ''.'') \<longleftrightarrow> w = []"
      using Cons.prems(1,5) nd last_in_set [of w] by (auto split: if_splits)
    moreover have "1 \<le> length (dotted s)" by (simp add: dotted_def Suc_le_eq)
    ultimately show ?thesis
      unfolding d ipv4_scan.simps using Cons.prems(1-4) True
      by (cases "dots + 1 \<le> 3") (auto simp: octet_def [of w])
  next
    case False
    have len: "length (dotted (c # s)) = length (dotted s)"
      using False by (simp add: dotted_def split: list.split)
    have "\<And>x. x \<in> set (w @ [c]) \<Longrightarrow> \<not> x = CHR ''.''" using nd False by auto
    from split_on_word [where p = "\<lambda>c. c = CHR ''.''" and w = "w @ [c]", OF this, of s] have hd: "hd (dotted (w @ c # s)) = (w @ [c]) @ hd (dotted s)"
      by (simp add: dotted_def)
    show ?thesis
    proof (cases "c_isdigit c")
      case True
      have w': "list_all c_isdigit (w @ [c])" "dec_val (w @ [c]) = dec_val w * 10 + digit_val c"
        using Cons.prems(1) True by (simp_all add: dec_val_snoc)
      show ?thesis
      proof (cases "dec_val (w @ [c]) > 255")
        case True
        have "\<not> octet ((w @ [c]) @ hd (dotted s))"
          using dec_val_mono [of "w @ [c]" "hd (dotted s)"] True unfolding octet_def by linarith
        moreover have "hd (dotted (w @ c # s)) \<in> set (dotted (w @ c # s))"
          by (rule hd_in_set) (simp add: dotted_def)
        ultimately have "\<not> list_all octet (dotted (w @ c # s))"
          unfolding hd by (auto simp: list_all_iff)
        then show ?thesis using True False \<open>c_isdigit c\<close> w'(2) by (simp add: Let_def)
      next
        case le: False
        then show ?thesis
          using Cons.IH [of "w @ [c]" dots "Some c"] w' Cons.prems(3,4) False True len
          by (simp add: Let_def)
      qed
    next
      case nodig: False
      have "c \<in> set (hd (dotted (w @ c # s)))"
        by (simp add: hd)
      moreover have "hd (dotted (w @ c # s)) \<in> set (dotted (w @ c # s))"
        by (rule hd_in_set) (simp add: dotted_def)
      ultimately have "\<not> list_all octet (dotted (w @ c # s))"
        using nodig by (auto simp: list_all_iff octet_def)
      then show ?thesis using False nodig by simp
    qed
  qed
qed

lemma valid_ipv4_iff: "valid_ipv4 s \<longleftrightarrow> 2 \<le> length (dotted s) \<and> length (dotted s) \<le> 4 \<and> list_all octet (dotted s)"
proof (cases "s = []")
  case True
  then show ?thesis by (simp add: valid_ipv4_def dotted_def)
next
  case False
  have "valid_ipv4 s \<longleftrightarrow> list_all octet (dotted s) \<and> 1 \<le> int (length (dotted s)) - 1
      \<and> int (length (dotted s)) - 1 \<le> 3"
    using False ipv4_scan_spec [of "[]" 0 None s] by (simp add: valid_ipv4_def dec_val_def)
  then show ?thesis by auto
qed

text \<open>\<open>valid_ipv4\<close> accepts exactly the strings that split at the dots into two, three or four
  non-empty decimal numbers of at most 255.  (The full dotted quad is therefore not enforced:
  \<open>1.2\<close> passes.)\<close>

theorem valid_ipv4_spec:
  "valid_ipv4 s \<longleftrightarrow> length (dotted s) \<in> {2, 3, 4}
     \<and> (\<forall>w \<in> set (dotted s). w \<noteq> [] \<and> (\<forall>c \<in> set w. c_isdigit c) \<and> dec_val w \<le> 255)"
  unfolding valid_ipv4_iff octet_def list_all_iff by auto

theorem valid_ipv4_spec_witness: "valid_ipv4 ''1.2'' \<and> \<not> valid_ipv4 ''1.2.3.256''"
  using valid_ipv4_spec [of "''1.2''"] valid_ipv4_spec [of "''1.2.3.256''"]
  by (simp add: dotted_def c_isdigit_def dec_val_def digit_val_def)

section \<open>Masks and prefixes\<close>

lemma leading_ones_fuel: "32 \<le> n \<Longrightarrow> leading_ones n m = leading_ones 32 m"
proof -
  have stop: "leading_ones k (0::u32) = 0" for k by (cases k) simp_all
  have "push_bit 32 (m::u32) = 0" for m
    by (rule bit_eqI) (simp add: bit_push_bit_iff)
  moreover have "leading_ones (k + j) m = leading_ones k m" if "push_bit k m = 0" for k j and m :: u32
    using that
  proof (induction k arbitrary: m)
    case 0
    then show ?case using stop [of j] by simp
  next
    case (Suc k)
    have "push_bit k (push_bit 1 m) = push_bit (Suc k) m" by (simp add: ac_simps)
    with Suc show ?case by simp
  qed
  ultimately show "32 \<le> n \<Longrightarrow> leading_ones n m = leading_ones 32 m"
    by (metis le_add_diff_inverse)
qed

lemma and_msb: "(m AND 0x80000000 \<noteq> 0) = bit m 31" for m :: u32
  using and_exp_eq_0_iff_not_bit [of m 31] by simp

text \<open>The loop counts the leading ones of the bit list.\<close>

lemma leading_ones_bits:
  "n \<le> 32 \<Longrightarrow> leading_ones n m = int (length (takeWhile id (map (\<lambda>i. bit m (31 - i)) [0..<n])))"
proof (induction n arbitrary: m)
  case (Suc n)
  have shift: "map (\<lambda>i. bit m (31 - Suc i)) [0..<n] = map (\<lambda>i. bit (push_bit 1 m) (31 - i)) [0..<n]"
  proof (rule map_cong [OF refl])
    fix i assume "i \<in> set [0..<n]"
    then have "1 \<le> 31 - i" "31 - i < 32" "31 - i - 1 = 31 - Suc i" using Suc.prems by auto
    then show "bit m (31 - Suc i) = bit (push_bit 1 m) (31 - i)"
      by (simp only: bit_push_bit_iff) simp
  qed
  have "map (\<lambda>i. bit m (31 - i)) [0..<Suc n] = bit m 31 # map (\<lambda>i. bit m (31 - Suc i)) [0..<n]"
    by (simp add: upt_conv_Cons map_Suc_upt [symmetric] comp_def del: upt_Suc)
  then show ?case
    unfolding leading_ones.simps and_msb shift using Suc.IH [of "push_bit 1 m"] Suc.prems
    by (simp only:) simp
qed simp

lemma contiguous_True: "contiguous True bs \<longleftrightarrow> list_all Not bs"
  by (induction bs) auto

lemma contiguous_iff: "contiguous False bs \<longleftrightarrow>
   bs = replicate (length (takeWhile id bs)) True @ replicate (length bs - length (takeWhile id bs)) False"
proof (induction bs)
  case (Cons b bs)
  have "list_all Not bs \<longleftrightarrow> bs = replicate (length bs) False"
    by (induction bs) auto
  with Cons show ?case by (cases b) (simp_all add: contiguous_True)
qed simp

lemma length_msb_bits [simp]: "length (msb_bits m) = 32"
  by (simp add: msb_bits_def)

lemma mask_to_prefix_bits: "nmcli_mask_to_prefix s = int (length (takeWhile id (msb_bits (mask_word s))))"
  unfolding nmcli_mask_to_prefix_def msb_bits_def by (rule leading_ones_bits) simp

lemma msb_bits_inj: "msb_bits m = msb_bits m' \<Longrightarrow> m = m'"
proof (rule bit_word_eqI)
  fix n assume eq: "msb_bits m = msb_bits m'" and n: "n < LENGTH(32)"
  from eq have "msb_bits m ! (31 - n) = msb_bits m' ! (31 - n)" by simp
  moreover have "[0..<32] ! (31 - n) = 31 - n" by (rule trans [OF nth_upt]) simp_all
  ultimately show "bit m n = bit m' n" using n by (simp add: msb_bits_def)
qed

definition prefix_word :: "int \<Rightarrow> u32" where
  "prefix_word p = (if p = 0 then 0 else push_bit (nat (32 - p)) 0xffffffff)"

definition quad :: "u32 \<Rightarrow> string" where
  "quad m = dec_nat (unat (drop_bit 24 m AND 0xff)) @ ''.'' @ dec_nat (unat (drop_bit 16 m AND 0xff))
     @ ''.'' @ dec_nat (unat (drop_bit 8 m AND 0xff)) @ ''.'' @ dec_nat (unat (drop_bit 0 m AND 0xff))"

lemma prefix_to_mask_quad: "prefix_to_mask p n = snprintf_s n (quad (prefix_word p))"
  by (simp add: prefix_to_mask_def prefix_word_def quad_def Let_def)

lemma bits_prefix_word: "0 \<le> p \<Longrightarrow> p \<le> 32 \<Longrightarrow>
    msb_bits (prefix_word p) = replicate (nat p) True @ replicate (32 - nat p) False"
proof -
  assume p: "0 \<le> p" "p \<le> 32"
  have "(0xffffffff :: u32) = -1" by simp
  then have f: "bit (0xffffffff :: u32) k \<longleftrightarrow> k < 32" for k by (simp only: bit_minus_1_iff) simp
  have b: "bit (prefix_word p) j \<longleftrightarrow> 32 - nat p \<le> j" if "j < 32" for j
  proof (cases "p = 0")
    case False
    have "bit (prefix_word p) j \<longleftrightarrow> nat (32 - p) \<le> j \<and> j - nat (32 - p) < 32"
      using False that by (simp only: prefix_word_def if_False bit_push_bit_iff f) simp
    moreover have "nat (32 - p) = 32 - nat p" using p by simp
    ultimately show ?thesis using that by linarith
  qed (use that in \<open>simp add: prefix_word_def\<close>)
  show ?thesis
  proof (rule nth_equalityI)
    fix i assume "i < length (msb_bits (prefix_word p))"
    then have i: "i < 32" by simp
    then have "msb_bits (prefix_word p) ! i \<longleftrightarrow> 32 - nat p \<le> 31 - i"
      using b [of "31 - i"] by (simp add: msb_bits_def)
    also have "\<dots> \<longleftrightarrow> i < nat p" using i p by linarith
    finally show "msb_bits (prefix_word p) ! i = (replicate (nat p) True @ replicate (32 - nat p) False) ! i"
      using i p by (auto simp: nth_append)
  qed (use p in auto)
qed

lemma octets_digits: "list_all c_isdigit w \<Longrightarrow> octets seg (w @ r) =
    (case octets (foldl (\<lambda>v c. v * 10 + digit_val c) seg w) r of x \<Rightarrow> x)"
  by (induction w arbitrary: seg) (auto simp: c_isdigit_def)

lemma octets_dec: "octets 0 (dec_nat n) = [int n]" "octets 0 (dec_nat n @ CHR ''.'' # r) = int n # octets 0 r"
proof -
  have d: "list_all c_isdigit (dec_nat n)" by (auto simp: list_all_iff dest: dec_nat_digits)
  have "foldl (\<lambda>v c. v * 10 + digit_val c) 0 (dec_nat n) = int n"
    using dec_val_dec_nat [of n] by (simp only: dec_val_def)
  with octets_digits [OF d, of 0 "[]"] octets_digits [OF d, of 0 "CHR ''.'' # r"]
  show "octets 0 (dec_nat n) = [int n]" "octets 0 (dec_nat n @ CHR ''.'' # r) = int n # octets 0 r"
    by simp_all
qed

lemma assemble_octets:
  "push_bit 8 (push_bit 8 (push_bit 8 (drop_bit 24 m AND 0xff) OR (drop_bit 16 m AND 0xff)) OR (drop_bit 8 m AND 0xff))
     OR (m AND 0xff) = m" for m :: u32
proof -
  have ff: "(0xff :: u32) = mask 8" by (simp add: mask_eq_decr_exp)
  show ?thesis
    unfolding ff
  proof (rule bit_word_eqI)
    fix n assume "n < LENGTH(32)"
    then consider "n < 8" | "8 \<le> n" "n < 16" | "16 \<le> n" "n < 24" | "24 \<le> n" "n < 32"
      by fastforce
    then show "bit (push_bit 8 (push_bit 8 (push_bit 8 (drop_bit 24 m AND mask 8) OR (drop_bit 16 m AND mask 8))
        OR (drop_bit 8 m AND mask 8)) OR (m AND mask 8)) n = bit m n"
      by cases (auto simp: bit_simps)
  qed
qed

lemma mask_word_quad: "mask_word (quad m) = m"
proof -
  have "octets 0 (quad m) = map (\<lambda>k. int (unat (drop_bit k m AND 0xff))) [24, 16, 8, 0]"
    unfolding quad_def by (simp only: append_Cons append_Nil octets_dec list.map)
  moreover have "word_of_int (int (unat x)) = x" for x :: u32 by simp
  ultimately show ?thesis
    using assemble_octets [of m] unfolding mask_word_def
    by (simp only: list.map append_Cons append_Nil take_Suc_Cons numeral_eq_Suc pred_numeral_simps
        foldl_Cons foldl_Nil) (simp add: and.assoc)
qed

lemma dec_nat_short: "n \<le> 255 \<Longrightarrow> length (dec_nat n) \<le> 3"
  by (simp add: dec_nat.simps [of n] dec_nat.simps [of "n div 10"] dec_nat.simps [of "n div 10 div 10"])

lemma octet_dec: "n \<le> 255 \<Longrightarrow> octet (dec_nat n)"
  using dec_nat_digits by (auto simp: octet_def list_all_iff)

lemma byte_le: "unat (x AND 0xff :: u32) \<le> 255"
proof -
  have "unat (x AND 0xff) \<le> unat (0xff :: u32)"
    by (rule word_and_le1 [THEN word_le_nat_alt [THEN iffD1]])
  then show ?thesis by simp
qed

lemma quad_valid: "valid_ipv4 (quad m) \<and> length (quad m) \<le> 15"
proof -
  have nd: "\<And>x. x \<in> set (dec_nat n) \<Longrightarrow> \<not> x = CHR ''.''" for n
    using dec_nat_digits by fastforce
  have w: "dotted (dec_nat n @ CHR ''.'' # r) = dec_nat n # dotted r" "dotted (dec_nat n) = [dec_nat n]" for n r
    using split_on_word [where p = "\<lambda>c. c = CHR ''.''" and w = "dec_nat n" and s = "CHR ''.'' # r", OF nd]
      split_on_word [where p = "\<lambda>c. c = CHR ''.''" and w = "dec_nat n" and s = "[]", OF nd] by (simp_all add: dotted_def)
  have "dotted (quad m) = map (\<lambda>k. dec_nat (unat (drop_bit k m AND 0xff))) [24, 16, 8, 0]"
    unfolding quad_def by (simp only: append_Cons append_Nil w list.map)
  then have "valid_ipv4 (quad m)"
    by (simp add: valid_ipv4_iff octet_dec [OF byte_le])
  moreover have "length (quad m) \<le> 15"
    unfolding quad_def using dec_nat_short [OF byte_le, of "drop_bit 24 m"] dec_nat_short [OF byte_le, of "drop_bit 16 m"]
      dec_nat_short [OF byte_le, of "drop_bit 8 m"] dec_nat_short [OF byte_le, of "drop_bit 0 m"]
    by (simp only: length_append list.size)
  ultimately show ?thesis by simp
qed

lemma prefix_mask_word: "mask_word (prefix_to_mask p 64) = prefix_word p" "valid_ipv4 (prefix_to_mask p 64)"
  using quad_valid [of "prefix_word p"] by (simp_all add: prefix_to_mask_quad snprintf_s_def mask_word_quad)

lemma takeWhile_replicate_True: "takeWhile id (replicate n True @ replicate k False) = replicate n True"
  by (induction n) (cases k, simp_all)

text \<open>C37: masks and prefixes convert back and forth.  For every prefix length from 0 to 32 the mask
  text \<open>prefix_to_mask\<close> prints passes \<open>valid_mask\<close>, and \<open>nmcli_mask_to_prefix\<close> reads the same length
  back from it.\<close>

theorem mask_prefix_roundtrip:
  assumes "0 \<le> p" "p \<le> 32"
  shows "valid_mask (prefix_to_mask p 64) \<and> nmcli_mask_to_prefix (prefix_to_mask p 64) = p"
proof -
  have b: "msb_bits (prefix_word p) = replicate (nat p) True @ replicate (32 - nat p) False"
    by (rule bits_prefix_word [OF assms])
  have "contiguous False (msb_bits (prefix_word p))"
    unfolding contiguous_iff b takeWhile_replicate_True using assms by simp
  then show ?thesis
    using assms prefix_mask_word [of p]
    by (simp add: valid_mask_def mask_to_prefix_bits b takeWhile_replicate_True)
qed

theorem mask_prefix_roundtrip_witness:
  "nmcli_mask_to_prefix (prefix_to_mask 24 64) = 24 \<and> valid_mask (prefix_to_mask 0 64)"
  using mask_prefix_roundtrip [of 24] mask_prefix_roundtrip [of 0] by simp

text \<open>The mask check is sound.  Every mask that passes \<open>valid_mask\<close> denotes the 32-bit value whose
  first \<open>p\<close> bits are ones and whose other bits are zeros, for the \<open>p\<close> between 0 and 32 that
  \<open>nmcli_mask_to_prefix\<close> computes: writing the prefix to NetworkManager loses nothing.\<close>

theorem valid_mask_sound:
  assumes "valid_mask s"
  shows "0 \<le> nmcli_mask_to_prefix s \<and> nmcli_mask_to_prefix s \<le> 32
    \<and> mask_word s = mask_word (prefix_to_mask (nmcli_mask_to_prefix s) 64)"
proof -
  let ?b = "msb_bits (mask_word s)"
  have p: "nmcli_mask_to_prefix s = int (length (takeWhile id ?b))" by (rule mask_to_prefix_bits)
  have le: "length (takeWhile id ?b) \<le> 32" using length_takeWhile_le [of id ?b] by simp
  have "contiguous False ?b" using assms by (simp add: valid_mask_def split: if_splits)
  then have "?b = replicate (length (takeWhile id ?b)) True @ replicate (32 - length (takeWhile id ?b)) False"
    using contiguous_iff [of ?b] by simp
  also have "\<dots> = msb_bits (prefix_word (nmcli_mask_to_prefix s))"
    using bits_prefix_word [of "nmcli_mask_to_prefix s"] le by (simp add: p)
  finally have "mask_word s = prefix_word (nmcli_mask_to_prefix s)" by (rule msb_bits_inj)
  then show ?thesis using le prefix_mask_word(1) by (simp add: p)
qed

theorem valid_mask_sound_witness:
  "valid_mask ''255.255.240.0'' \<and> mask_word ''255.255.240.0'' = mask_word (prefix_to_mask (nmcli_mask_to_prefix ''255.255.240.0'') 64)"
proof -
  have "valid_mask ''255.255.240.0''" by code_simp
  with valid_mask_sound [OF this] show ?thesis by blast
qed

end
