(* ===== verification/Network.thy ===== *)
theory Network
  imports Gate Nmcli Json Accounts
begin

text \<open>
  \<open>src/network.cgi.c\<close>: the adapter between the web and \<open>nmcli.c\<close>, with the snapshot and the watchdog
  that protect a change of \<open>eth0\<close>.  The program works on the world of the CGI programs and on the
  state of the network, which only the commands it runs change.
\<close>

section \<open>The code\<close>

definition qs_port :: "env \<Rightarrow> string" where
  "qs_port e = (case strstr ''port='' (get_env e ''QUERY_STRING'') of None \<Rightarrow> []
     | Some p \<Rightarrow> takeWhile (\<lambda>c. c \<noteq> CHR ''&'') (take 7 (drop 5 p)))"

definition json_plain :: "string \<Rightarrow> string \<Rightarrow> 'a world_scheme \<Rightarrow> 'a world_scheme" where
  "json_plain st msg w = emit (json_status st msg) (cgi_header ''application/json'' w)"

definition cidr80 :: "NicConfig \<Rightarrow> string" where
  "cidr80 cfg = snprintf_s 80 (nc_ip cfg @ ''/'' @ dec_int (nmcli_mask_to_prefix (nc_mask cfg)))"

definition snapshot_fields :: "string \<Rightarrow> NicConfig \<Rightarrow> string" where
  "snapshot_fields tag cfg =
     tag @ ''_cidr='' @ cidr80 cfg @ [nl] @ tag @ ''_ip='' @ nc_ip cfg @ [nl]
     @ tag @ ''_mask='' @ nc_mask cfg @ [nl] @ tag @ ''_gateway='' @ nc_gateway cfg @ [nl]
     @ tag @ ''_dns='' @ nc_dns cfg @ [nl] @ tag @ ''_ipv6='' @ nc_ipv6 cfg @ [nl]"

definition snapshot_text :: "env \<Rightarrow> string \<Rightarrow> NicConfig \<Rightarrow> NicConfig \<Rightarrow> string" where
  "snapshot_text e nic old_cfg new_cfg =
     ''nic='' @ nic @ [nl] @ ''ts='' @ dec_int (time_now e) @ [nl] @ ''confirmed=0'' @ [nl]
     @ snapshot_fields ''old'' old_cfg @ snapshot_fields ''new'' new_cfg"

definition arm_rollback ::
  "env \<Rightarrow> 's nmcli \<Rightarrow> string \<Rightarrow> NicConfig \<Rightarrow> NicConfig \<Rightarrow> nat \<Rightarrow> 'a world_scheme \<times> 's
   \<Rightarrow> ('a world_scheme \<times> 's) \<times> string option" where
  "arm_rollback e run nic old_cfg new_cfg errlen ws = (case ws of (w, s) \<Rightarrow>
     let path = rollback_path e in
     if \<not> w_writable w path then ((w, s), Some (snprintf_s errlen ((utf8 [0xE6, 0x97, 0xA0, 0xE6, 0xB3, 0x95, 0xE5, 0x86, 0x99, 0xE5, 0x85, 0xA5, 0xE5, 0x9B, 0x9E, 0xE6, 0xBB, 0x9A, 0xE7, 0x8A, 0xB6, 0xE6, 0x80, 0x81] @ '' '') @ path)))
     else ((w\<lparr>w_files := (w_files w)(path := Some (snapshot_text e nic old_cfg new_cfg))\<rparr>,
            fst (run s [''sudo'', ''-n'', ''systemd-run'', ''--on-active=180'',
                        ''/usr/local/bin/rollback_watchdog.sh''])), None))"

definition handle_get :: "env \<Rightarrow> 's nmcli \<Rightarrow> string \<Rightarrow> 'a world_scheme \<times> 's \<Rightarrow> 'a world_scheme \<times> 's" where
  "handle_get e run nic ws = (case ws of (w, s) \<Rightarrow>
     (case nmcli_get_config e run nic 256 s of
        (s', Inl err) \<Rightarrow> (json_plain ''error'' (json_escape err 1024) w, s')
      | (s', Inr cfg) \<Rightarrow>
        (emit (''{\"status\":\"ok\",\"ipv4\":{\"ip\":\"'' @ nc_ip cfg @ ''\",\"mask\":\"'' @ nc_mask cfg
            @ ''\",\"gateway\":\"'' @ nc_gateway cfg @ ''\"},\"dns\":\"'' @ nc_dns cfg @ ''\",\"ipv6\":\"''
            @ nc_ipv6 cfg @ ''\"}'') (cgi_header ''application/json'' w), s')))"

definition opt_text :: "string option \<Rightarrow> string" where
  "opt_text x = (case x of None \<Rightarrow> [] | Some v \<Rightarrow> v)"

definition posted_config :: "env \<Rightarrow> NicConfig" where
  "posted_config e = \<lparr>nc_ip = snprintf_s 64 (opt_text (get_post_param e ''ip'')),
     nc_mask = snprintf_s 64 (opt_text (get_post_param e ''mask'')),
     nc_gateway = snprintf_s 64 (opt_text (get_post_param e ''gateway'')),
     nc_dns = snprintf_s 192 (opt_text (get_post_param e ''dns'')),
     nc_ipv6 = snprintf_s 128 (opt_text (get_post_param e ''ipv6''))\<rparr>"

text \<open>The boolean is the return value 1.\<close>

definition handle_set ::
  "env \<Rightarrow> 's nmcli \<Rightarrow> string \<Rightarrow> 'a world_scheme \<times> 's \<Rightarrow> ('a world_scheme \<times> 's) \<times> bool" where
  "handle_set e run nic ws = (case ws of (w, s) \<Rightarrow>
     if opt_text (get_post_param e ''ip'') = [] \<or> opt_text (get_post_param e ''mask'') = []
     then ((json_plain ''error'' (utf8 [0xE7, 0xBC, 0xBA, 0xE5, 0xB0, 0x91] @ '' IPv4 '' @ utf8 [0xE5, 0x8F, 0x82, 0xE6, 0x95, 0xB0]) w, s), False)
     else let cfg = posted_config e in
       (case nmcli_validate_params cfg 512 of
          Some err \<Rightarrow> ((json_plain ''error'' (json_escape err 1024) w, s), False)
        | None \<Rightarrow>
          let rollback = (nic = ''eth0'') in
          (case (if rollback then nmcli_get_config e run nic 512 s else (s, Inr empty_nic)) of
             (s1, Inl _) \<Rightarrow> ((json_plain ''error'' (utf8 [0xE6, 0x97, 0xA0, 0xE6, 0xB3, 0x95, 0xE8, 0xAF, 0xBB, 0xE5, 0x8F, 0x96, 0xE5, 0xBD, 0x93, 0xE5, 0x89, 0x8D, 0xE9, 0x85, 0x8D, 0xE7, 0xBD, 0xAE, 0xEF, 0xBC, 0x8C, 0xE5, 0xB7, 0xB2, 0xE5, 0x8F, 0x96, 0xE6, 0xB6, 0x88, 0xE4, 0xBF, 0xAE, 0xE6, 0x94, 0xB9]) w, s1), False)
           | (s1, Inr old_cfg) \<Rightarrow>
             (case nmcli_set_config e run nic cfg 512 s1 of
                (s2, Inl err) \<Rightarrow> ((json_plain ''error'' (json_escape err 1024) w, s2), False)
              | (s2, Inr _) \<Rightarrow>
                (case (if rollback then arm_rollback e run nic old_cfg cfg 512 (w, s2) else ((w, s2), None)) of
                   ((w3, s3), Some err) \<Rightarrow> ((json_plain ''error'' (json_escape err 1024) w3, s3), False)
                 | ((w3, s3), None) \<Rightarrow> ((json_plain ''ok'' (utf8 [0xE4, 0xBF, 0x9D, 0xE5, 0xAD, 0x98, 0xE6, 0x88, 0x90, 0xE5, 0x8A, 0x9F]) w3, s3), True))))))"

definition network_main :: "env \<Rightarrow> 's nmcli \<Rightarrow> 'a world_scheme \<times> 's \<Rightarrow> 'a world_scheme \<times> 's" where
  "network_main e run ws = (case ws of (w, s) \<Rightarrow>
     (case gate_json_session e w of
        (w1, None) \<Rightarrow> (w1, s)
      | (w1, Some session) \<Rightarrow>
        let action = qs_action e; port = qs_port e in
        if \<not> nmcli_nic_valid port
        then (auth_cleanup e (json_plain ''error'' (utf8 [0xE6, 0x97, 0xA0, 0xE6, 0x95, 0x88, 0xE7, 0x9A, 0x84, 0xE7, 0xBD, 0x91, 0xE5, 0x8F, 0xA3]) w1), s)
        else if action = ''get'' then handle_get e run port (auth_cleanup e w1, s)
        else if action = ''set''
        then (case gate_require_csrf session (get_post_param e ''csrf_token'') w1 of
            (w2, False) \<Rightarrow> (auth_cleanup e w2, s)
          | (w2, True) \<Rightarrow>
            (case handle_set e run port (w2, s) of
               ((w3, s3), ok) \<Rightarrow>
                 let detail = snprintf_s 128 (port @ ('' '' @ utf8 [0xE7, 0xBD, 0x91, 0xE5, 0x8F, 0xA3, 0xE7, 0xBD, 0x91, 0xE7, 0xBB, 0x9C, 0xE9, 0x85, 0x8D, 0xE7, 0xBD, 0xAE, 0xE5, 0xB7, 0xB2, 0xE4, 0xBF, 0xAE, 0xE6, 0x94, 0xB9])
                        @ (if port = ''eth0'' then (utf8 [0xEF, 0xBC, 0x88] @ ''3 '' @ utf8 [0xE5, 0x88, 0x86, 0xE9, 0x92, 0x9F, 0xE6, 0x9C, 0xAA, 0xE7, 0x99, 0xBB, 0xE5, 0xBD, 0x95, 0xE5, 0xB0, 0x86, 0xE8, 0x87, 0xAA, 0xE5, 0x8A, 0xA8, 0xE5, 0x9B, 0x9E, 0xE6, 0xBB, 0x9A, 0xEF, 0xBC, 0x89]) else []));
                     w4 = (if ok then auth_audit_log e (si_user_id session) ''network_set'' (si_user_id session)
                                        (Some detail) (getenv e ''REMOTE_ADDR'') w3 else w3)
                 in (auth_cleanup e w4, s3)))
        else (auth_cleanup e (json_plain ''error'' ''Invalid action'' w1), s)))"

section \<open>Which commands are run\<close>

text \<open>A network whose state also records every command.\<close>

definition logged :: "'s nmcli \<Rightarrow> ('s \<times> string list list) nmcli" where
  "logged run sl argv = (case run (fst sl) argv of (s', r) \<Rightarrow> ((s', snd sl @ [argv]), r))"

lemma logged_fst: "fst (logged run sl argv) = (fst (run (fst sl) argv), snd sl @ [argv])"
  by (simp add: logged_def split: prod.split)

text \<open>What the program may run, whatever the answers it gets: queries, a profile named after the
  interface, one modification with the validated configuration, dropping a gateway, raising a
  profile, and arming the watchdog.\<close>

definition allowed_cmd :: "env \<Rightarrow> string \<Rightarrow> NicConfig \<Rightarrow> string list \<Rightarrow> bool" where
  "allowed_cmd e nic cfg argv \<longleftrightarrow>
     argv = exec_argv e [''nmcli'', ''-t'', ''-f'', ''NAME,UUID'', ''connection'', ''show'']
     \<or> (\<exists>n. argv = exec_argv e [''nmcli'', ''-t'', ''connection'', ''show'', n])
     \<or> (\<exists>n \<in> set g_nics. argv = exec_argv e [''nmcli'', ''-t'', ''device'', ''show'', n])
     \<or> argv = exec_argv e [''nmcli'', ''connection'', ''add'', ''type'', ''ethernet'', ''ifname'', nic, ''con-name'', nic]
     \<or> (\<exists>p. argv = exec_argv e (modify_argv p cfg))
     \<or> (\<exists>p. argv = exec_argv e [''nmcli'', ''connection'', ''modify'', p, ''ipv4.gateway'', []])
     \<or> (\<exists>p. argv = exec_argv e [''nmcli'', ''connection'', ''up'', p])
     \<or> argv = [''sudo'', ''-n'', ''systemd-run'', ''--on-active=180'', ''/usr/local/bin/rollback_watchdog.sh'']"

definition log_grows :: "(string list \<Rightarrow> bool) \<Rightarrow> 's \<times> string list list \<Rightarrow> 's \<times> string list list \<Rightarrow> bool" where
  "log_grows P sl sl' \<longleftrightarrow> (\<exists>l. snd sl' = snd sl @ l \<and> list_all P l)"

lemma log_grows_refl [simp]: "log_grows P sl sl"
  by (auto simp: log_grows_def)

lemma log_grows_trans: "log_grows P a b \<Longrightarrow> log_grows P b c \<Longrightarrow> log_grows P a c"
  by (auto simp: log_grows_def)

lemma log_nmcli_run: "P (exec_argv e argv) \<Longrightarrow> log_grows P sl (fst (nmcli_run e (logged run) argv ol el sl))"
  by (auto simp: nmcli_run_def logged_def Let_def log_grows_def split: prod.split nm_result.split)

lemma log_nmcli_run': "nmcli_run e (logged run) argv ol el sl = (sl', r) \<Longrightarrow> P (exec_argv e argv) \<Longrightarrow> log_grows P sl sl'"
  using log_nmcli_run [of P e argv sl run ol el] by simp

lemma log_find_profile:
  assumes "\<And>n. P (exec_argv e [''nmcli'', ''-t'', ''connection'', ''show'', n])"
  shows "log_grows P sl (fst (find_profile e (logged run) nic el ls sl))"
proof (induction ls arbitrary: sl)
  case (Cons l ls)
  show ?case
  proof (cases "after_chr (CHR '':'') l")
    case (Some u)
    obtain sl1 r where r: "nmcli_run e (logged run) [''nmcli'', ''-t'', ''connection'', ''show'', before_chr (CHR '':'') l]
        (Some 8192) el sl = (sl1, r)" by fastforce
    have g: "log_grows P sl sl1" by (rule log_nmcli_run' [where P = P, OF r]) (rule assms)
    show ?thesis
      using Some r g Cons.IH [of sl1] by (auto split: sum.split intro: log_grows_trans)
  qed (simp add: Cons.IH)
qed simp

lemma log_profile_for:
  assumes "P (exec_argv e [''nmcli'', ''-t'', ''-f'', ''NAME,UUID'', ''connection'', ''show''])"
    "\<And>n. P (exec_argv e [''nmcli'', ''-t'', ''connection'', ''show'', n])"
  shows "log_grows P sl (fst (profile_for e (logged run) nic el sl))"
proof -
  obtain sl1 r where r: "nmcli_run e (logged run) [''nmcli'', ''-t'', ''-f'', ''NAME,UUID'', ''connection'', ''show'']
      (Some 8192) el sl = (sl1, r)" by fastforce
  have g: "log_grows P sl sl1" by (rule log_nmcli_run' [where P = P, OF r]) (rule assms(1))
  moreover have "log_grows P sl sl2" if "find_profile e (logged run) nic el ls sl1 = (sl2, x)" for ls sl2 x
    using log_find_profile [of P e sl1 run nic el ls] assms(2) that g by (auto intro: log_grows_trans)
  ultimately show ?thesis
    by (auto simp: profile_for_def r split: sum.split prod.split option.split)
qed

lemma log_get_config:
  assumes "\<And>n. n \<in> set g_nics \<Longrightarrow> P (exec_argv e [''nmcli'', ''-t'', ''device'', ''show'', n])"
  shows "log_grows P sl (fst (nmcli_get_config e (logged run) nic el sl))"
proof -
  obtain sl1 r where r: "nmcli_run e (logged run) [''nmcli'', ''-t'', ''device'', ''show'', nic] (Some 8192) el sl = (sl1, r)"
    by fastforce
  have "log_grows P sl sl1" if "nic \<in> set g_nics"
    by (rule log_nmcli_run' [where P = P, OF r]) (rule assms [OF that])
  then show ?thesis
    by (auto simp: nmcli_get_config_def r nmcli_nic_valid_def list_ex_iff split: sum.split)
qed

lemma log_clear_gateways:
  assumes "P (exec_argv e [''nmcli'', ''-t'', ''-f'', ''NAME,UUID'', ''connection'', ''show''])"
    "\<And>n. P (exec_argv e [''nmcli'', ''-t'', ''connection'', ''show'', n])"
    "\<And>n. n \<in> set g_nics \<Longrightarrow> P (exec_argv e [''nmcli'', ''-t'', ''device'', ''show'', n])"
    "\<And>p. P (exec_argv e [''nmcli'', ''connection'', ''modify'', p, ''ipv4.gateway'', []])"
  shows "log_grows P sl (clear_gateways e (logged run) keep el nics sl)"
proof (induction nics arbitrary: sl)
  case (Cons nic nics)
  obtain sl1 r1 where r1: "nmcli_get_config e (logged run) nic el sl = (sl1, r1)" by fastforce
  obtain sl2 r2 where r2: "profile_for e (logged run) nic el sl1 = (sl2, r2)" by fastforce
  have g1: "log_grows P sl sl1" using log_get_config [where P = P and e = e, OF assms(3)] r1 by (metis fst_conv)
  have g2: "log_grows P sl sl2"
    using log_profile_for [where P = P and e = e, OF assms(1,2)] r2 g1 by (metis fst_conv log_grows_trans)
  have g3: "log_grows P sl (fst (nmcli_run e (logged run) [''nmcli'', ''connection'', ''modify'', p, ''ipv4.gateway'', []] None el sl2))" for p
    by (rule log_grows_trans [OF g2]) (rule log_nmcli_run, rule assms(4))
  note ih = log_grows_trans [OF _ Cons.IH]
  show ?case
    using r1 r2 by (cases r1; cases r2) (simp_all add: Cons.IH ih [OF g1] ih [OF g2] ih [OF g3])
qed simp

lemma log_ensure_profile:
  assumes "P (exec_argv e [''nmcli'', ''-t'', ''-f'', ''NAME,UUID'', ''connection'', ''show''])"
    "\<And>n. P (exec_argv e [''nmcli'', ''-t'', ''connection'', ''show'', n])"
    "P (exec_argv e [''nmcli'', ''connection'', ''add'', ''type'', ''ethernet'', ''ifname'', nic, ''con-name'', nic])"
  shows "log_grows P sl (fst (ensure_profile e (logged run) nic el sl))"
proof -
  obtain sl1 r1 where r1: "profile_for e (logged run) nic el sl = (sl1, r1)" by fastforce
  obtain sl2 r2 where r2: "nmcli_run e (logged run) [''nmcli'', ''connection'', ''add'', ''type'', ''ethernet'', ''ifname'', nic,
              ''con-name'', nic] None el sl1 = (sl2, r2)" by fastforce
  have g1: "log_grows P sl sl1" using log_profile_for [where P = P and e = e, OF assms(1,2)] r1 by (metis fst_conv)
  have g2: "log_grows P sl sl2" by (rule log_grows_trans [OF g1 log_nmcli_run' [where P = P, OF r2]]) (rule assms(3))
  have g3: "log_grows P sl (fst (profile_for e (logged run) nic el sl2))"
    by (rule log_grows_trans [OF g2 log_profile_for [where P = P and e = e, OF assms(1,2)]])
  show ?thesis
    using r1 r2 g1 g2 g3 by (auto simp: ensure_profile_def split: sum.split)
qed

lemma log_set_config:
  "log_grows (allowed_cmd e nic cfg) sl (fst (nmcli_set_config e (logged run) nic cfg el sl))"
proof -
  let ?P = "allowed_cmd e nic cfg"
  obtain sl1 r1 where r1: "ensure_profile e (logged run) nic el sl = (sl1, r1)" by fastforce
  have "log_grows ?P sl (fst (ensure_profile e (logged run) nic el sl))"
    by (rule log_ensure_profile) (auto simp: allowed_cmd_def)
  then have g1: "log_grows ?P sl sl1" using r1 by simp
  have g2: "log_grows ?P sl sl2" if "nmcli_run e (logged run) (modify_argv p cfg) None el sl1 = (sl2, r2)" for sl2 r2 p
    by (rule log_grows_trans [OF g1 log_nmcli_run' [where P = ?P, OF that]]) (auto simp: allowed_cmd_def)
  have g3: "log_grows ?P sl3 (clear_gateway_others e (logged run) nic el sl3)" for sl3
    unfolding clear_gateway_others_def by (rule log_clear_gateways) (auto simp: allowed_cmd_def)
  have g4: "log_grows ?P sl4 (fst (nmcli_run e (logged run) [''nmcli'', ''connection'', ''up'', p] None el sl4))" for sl4 p
    by (rule log_nmcli_run) (auto simp: allowed_cmd_def)
  have g5: "log_grows ?P sl (fst (nmcli_run e (logged run) [''nmcli'', ''connection'', ''up'', p] None el
      (if nc_gateway cfg \<noteq> [] then clear_gateway_others e (logged run) nic el sl2 else sl2)))"
    if "nmcli_run e (logged run) (modify_argv p cfg) None el sl1 = (sl2, r2)" for sl2 r2 p
    using g2 [OF that] by (intro log_grows_trans [OF _ g4]) (auto intro: log_grows_trans g3)
  show ?thesis
  proof (cases r1)
    case (Inr p)
    obtain sl2 r2 where r2: "nmcli_run e (logged run) (modify_argv p cfg) None el sl1 = (sl2, r2)" by fastforce
    show ?thesis
      using r1 r2 Inr g1 g2 [OF r2] g5 [OF r2] by (cases r2) (simp_all add: nmcli_set_config_def Let_def)
  qed (use r1 g1 in \<open>simp add: nmcli_set_config_def\<close>)
qed

lemma log_handle_get:
  assumes "nmcli_nic_valid nic"
  shows "snd (snd (handle_get e (logged run) nic (w, sl))) =
    snd sl @ [exec_argv e [''nmcli'', ''-t'', ''device'', ''show'', nic]]"
  using assms
  by (auto simp: handle_get_def nmcli_get_config_def nmcli_run_def logged_def Let_def
      split: sum.split prod.split nm_result.split)

lemma log_handle_set:
  "log_grows (allowed_cmd e nic (posted_config e)) sl (snd (fst (handle_set e (logged run) nic (w, sl))))"
  "snd (fst (handle_set e (logged run) nic (w, sl))) \<noteq> sl \<Longrightarrow> nmcli_validate_params (posted_config e) 512 = None"
proof -
  let ?P = "allowed_cmd e nic (posted_config e)"
  obtain sl1 r1 where r1: "(if nic = ''eth0'' then nmcli_get_config e (logged run) nic 512 sl else (sl, Inr empty_nic)) = (sl1, r1)"
    by fastforce
  have "log_grows ?P sl (fst (nmcli_get_config e (logged run) nic 512 sl))"
    by (rule log_get_config) (auto simp: allowed_cmd_def)
  then have g1: "log_grows ?P sl sl1" using r1 by (auto split: if_splits)
  obtain sl2 r2 where r2: "nmcli_set_config e (logged run) nic (posted_config e) 512 sl1 = (sl2, r2)" by fastforce
  have g2: "log_grows ?P sl sl2"
    using log_grows_trans [OF g1 log_set_config [of e nic "posted_config e" sl1 run 512]] r2 by simp
  have g3: "log_grows ?P sl2 (snd (fst (arm_rollback e (logged run) nic old (posted_config e) 512 (w, sl2))))" for old
    by (auto simp: arm_rollback_def Let_def logged_fst log_grows_def allowed_cmd_def)
  have g4: "log_grows ?P sl s3" if "(if nic = ''eth0'' then arm_rollback e (logged run) nic old (posted_config e) 512 (w, sl2)
      else ((w, sl2), None)) = ((w3, s3), x)" for old w3 s3 x
    using log_grows_trans [OF g2 g3 [of old]] that g2 by (auto split: if_splits)
  show "log_grows ?P sl (snd (fst (handle_set e (logged run) nic (w, sl))))"
    using g1 g2 g4 r1 r2
    by (cases r1; cases r2) (auto simp: handle_set_def Let_def split: option.split prod.split simp del: log_grows_def)
  show "snd (fst (handle_set e (logged run) nic (w, sl))) \<noteq> sl \<Longrightarrow> nmcli_validate_params (posted_config e) 512 = None"
    by (auto simp: handle_set_def Let_def split: if_splits option.splits)
qed

lemma log_grows_from_nil: "log_grows P (s, []) sl \<longleftrightarrow> list_all P (snd sl)"
  by (auto simp: log_grows_def)

lemma log_network_main_get:
  assumes "gate_json_session e w = (w1, Some session)" "nmcli_nic_valid (qs_port e)" "qs_action e = ''get''"
  shows "snd (snd (network_main e (logged run) (w, s, []))) =
    [exec_argv e [''nmcli'', ''-t'', ''device'', ''show'', qs_port e]]"
  using log_handle_get [OF assms(2), of e run "auth_cleanup e w1" "(s, [])"] assms
  by (simp add: network_main_def Let_def)

lemma log_network_main_set:
  assumes "gate_json_session e w = (w1, Some session)" "nmcli_nic_valid (qs_port e)" "qs_action e = ''set''"
    "l = snd (snd (network_main e (logged run) (w, s, [])))"
  shows "list_all (allowed_cmd e (qs_port e) (posted_config e)) l"
    "l \<noteq> [] \<Longrightarrow> get_post_param e ''csrf_token'' = Some (si_csrf_token session)"
    "l \<noteq> [] \<Longrightarrow> nmcli_validate_params (posted_config e) 512 = None"
proof -
  obtain w2 ok where g: "gate_require_csrf session (get_post_param e ''csrf_token'') w1 = (w2, ok)" by fastforce
  have c: "ok \<Longrightarrow> get_post_param e ''csrf_token'' = Some (si_csrf_token session)"
    using g by (auto simp: gate_require_csrf_def auth_csrf_verify_def split: option.splits if_splits)
  note h = log_handle_set [where e = e and nic = "qs_port e" and sl = "(s, [])" and run = run and w = w2]
  have l: "l = (if ok then snd (snd (fst (handle_set e (logged run) (qs_port e) (w2, s, [])))) else [])"
    using assms g by (simp add: network_main_def Let_def split: prod.split)
  show "list_all (allowed_cmd e (qs_port e) (posted_config e)) l"
    using h(1) by (simp add: l log_grows_from_nil)
  show "l \<noteq> [] \<Longrightarrow> get_post_param e ''csrf_token'' = Some (si_csrf_token session)"
    using l c by (auto split: if_splits)
  show "l \<noteq> [] \<Longrightarrow> nmcli_validate_params (posted_config e) 512 = None"
    using l h(2) by (metis snd_conv)
qed

lemma log_network_main_none:
  assumes "\<And>w1 session. gate_json_session e w = (w1, Some session) \<Longrightarrow>
    \<not> nmcli_nic_valid (qs_port e) \<or> qs_action e \<noteq> ''get'' \<and> qs_action e \<noteq> ''set''"
  shows "snd (snd (network_main e (logged run) (w, s, []))) = []"
  using assms by (auto simp: network_main_def Let_def split: prod.split option.split)

text \<open>C31: whatever the network answers, a request makes the program run commands only for a valid
  session and one of the fixed interfaces.  Reading the configuration runs one query of that interface;
  changing it runs only the commands of the list above, with the interface name and the configuration
  of the request, and only when the request carries the session's CSRF token and the configuration
  passed validation.  Every other request runs nothing.\<close>

theorem network_commands:
  "let l = snd (snd (network_main e (logged run) (w, s, []))) in
    list_all (allowed_cmd e (qs_port e) (posted_config e)) l \<and>
    (l = [] \<or>
     (\<exists>w1 session. gate_json_session e w = (w1, Some session) \<and> nmcli_nic_valid (qs_port e) \<and>
       (qs_action e = ''get'' \<and> l = [exec_argv e [''nmcli'', ''-t'', ''device'', ''show'', qs_port e]]
        \<or> qs_action e = ''set'' \<and> get_post_param e ''csrf_token'' = Some (si_csrf_token session)
            \<and> nmcli_validate_params (posted_config e) 512 = None)))"
proof (cases "\<exists>w1 session. gate_json_session e w = (w1, Some session) \<and> nmcli_nic_valid (qs_port e)
    \<and> (qs_action e = ''get'' \<or> qs_action e = ''set'')")
  case True
  then obtain w1 session where g: "gate_json_session e w = (w1, Some session)" and n: "nmcli_nic_valid (qs_port e)"
    and a: "qs_action e = ''get'' \<or> qs_action e = ''set''" by blast
  from a show ?thesis
  proof
    assume a: "qs_action e = ''get''"
    then show ?thesis
      using n log_network_main_get [OF g n a, of run s] g
      by (auto simp: Let_def allowed_cmd_def nmcli_nic_valid_def list_ex_iff)
  next
    assume a: "qs_action e = ''set''"
    then show ?thesis
      using n log_network_main_set [OF g n a refl, of run s] g unfolding Let_def by blast
  qed
next
  case False
  then have "snd (snd (network_main e (logged run) (w, s, []))) = []"
    by (intro log_network_main_none) blast
  then show ?thesis by simp
qed

section \<open>What a validated configuration consists of\<close>

text \<open>The bytes of addresses, masks and lists of them: none has a meaning to a shell, ends a line or
  starts an option.\<close>

definition addr_char :: "char \<Rightarrow> bool" where
  "addr_char c \<longleftrightarrow> c_isxdigit c \<or> c = CHR ''.'' \<or> c = CHR '':'' \<or> c = CHR ''/'' \<or> c = CHR '',''"

lemma valid_ipv4_chars: "valid_ipv4 s \<Longrightarrow> list_all addr_char s"
  using split_on_cover [where s = s and p = "\<lambda>c. c = CHR ''.''"]
  by (fastforce simp: valid_ipv4_iff dotted_def list_all_iff octet_def addr_char_def c_isxdigit_def)

lemma valid_ipv6_chars: "valid_ipv6 s \<Longrightarrow> list_all addr_char s"
  by (auto simp: valid_ipv6_def list_all_iff ipv6_char_def addr_char_def split: if_splits)

lemma valid_dns_chars: "valid_dns_list s \<Longrightarrow> length s < 192 \<Longrightarrow> list_all addr_char s"
proof -
  assume v: "valid_dns_list s" and l: "length s < 192"
  have t: "list_all addr_char w" if "w \<in> set (split_on (\<lambda>c. c = CHR '','') s)" for w
    using v l that valid_ipv4_chars by (cases "w = []") (auto simp: valid_dns_list_def strtok_def snprintf_s_def list_all_iff split: if_splits)
  show "list_all addr_char s"
    using split_on_cover [where s = s and p = "\<lambda>c. c = CHR '',''"] t by (fastforce simp: list_all_iff addr_char_def)
qed

lemma posted_config_fits: "length (nc_dns (posted_config e)) < 192"
  by (simp add: posted_config_def snprintf_s_def)

text \<open>Every field of a posted configuration that passes validation consists of hexadecimal digits,
  dots, colons, slashes and commas only, and the address and the mask are not empty; so the snapshot
  file keeps one field per line and the argument vector carries no option of the client's making.\<close>

theorem validated_fields_plain:
  assumes "nmcli_validate_params (posted_config e) errlen = None"
  shows "list_all (\<lambda>f. list_all addr_char (f (posted_config e))) [nc_ip, nc_mask, nc_gateway, nc_dns, nc_ipv6]
    \<and> nc_ip (posted_config e) \<noteq> [] \<and> nc_mask (posted_config e) \<noteq> []"
proof -
  let ?c = "posted_config e"
  have ip: "nc_ip ?c \<noteq> []" "valid_ipv4 (nc_ip ?c)" and m: "nc_mask ?c \<noteq> []" "valid_mask (nc_mask ?c)"
    and g: "nc_gateway ?c = [] \<or> valid_ipv4 (nc_gateway ?c)" and d: "nc_dns ?c = [] \<or> valid_dns_list (nc_dns ?c)"
    and v: "nc_ipv6 ?c = [] \<or> valid_ipv6 (nc_ipv6 ?c)"
    using assms unfolding nmcli_validate_params_def by (auto split: if_splits)
  have "valid_ipv4 (nc_mask ?c)" using m(2) by (simp add: valid_mask_def split: if_splits)
  with ip m g d v show ?thesis
    using valid_ipv4_chars valid_dns_chars [OF _ posted_config_fits] valid_ipv6_chars by auto
qed

definition post_env :: env where
  "post_env = form_env\<lparr>getenv := (\<lambda>k. if k = ''CONTENT_LENGTH'' then Some ''30'' else None),
     stdin_data := ''ip=10.0.0.2&mask=255.255.255.0''\<rparr>"

definition post_cfg :: NicConfig where
  "post_cfg = \<lparr>nc_ip = ''10.0.0.2'', nc_mask = ''255.255.255.0'', nc_gateway = [], nc_dns = [], nc_ipv6 = []\<rparr>"

lemma post_config [simp]: "posted_config post_env = post_cfg" "opt_text (get_post_param post_env ''ip'') = ''10.0.0.2''"
  "opt_text (get_post_param post_env ''mask'') = ''255.255.255.0''"
proof -
  have "atoi ''30'' = 30" by code_simp
  then have b: "cache_post_body post_env = Some ''ip=10.0.0.2&mask=255.255.255.0''"
    by (simp add: cache_post_body_def post_env_def cstr_def)
  let ?p = "\<lambda>k. param_scan k ''ip=10.0.0.2&mask=255.255.255.0''"
  have "?p ''ip'' = Some ''10.0.0.2'' \<and> ?p ''mask'' = Some ''255.255.255.0'' \<and> ?p ''gateway'' = None
      \<and> ?p ''dns'' = None \<and> ?p ''ipv6'' = None" by code_simp
  then show "posted_config post_env = post_cfg" "opt_text (get_post_param post_env ''ip'') = ''10.0.0.2''"
    "opt_text (get_post_param post_env ''mask'') = ''255.255.255.0''"
    by (simp_all add: posted_config_def post_cfg_def get_post_param_def b opt_text_def snprintf_s_def)
qed

lemma post_valid [simp]: "nmcli_validate_params post_cfg 512 = None"
  by code_simp

theorem validated_fields_plain_witness:
  "nmcli_validate_params (posted_config post_env) 512 = None \<and> list_all addr_char (nc_mask (posted_config post_env))"
  using validated_fields_plain [of post_env 512] by simp

end
