(* ===== verification/Host.thy ===== *)
theory Host
  imports Common
begin

text \<open>
  What the programs ask of the operating system besides files and the database: the broken-down
  local time of a clock value (it depends on the time zone) and the attributes of a file.  Both are
  parameters of the model; printing a date is not.
\<close>

record tm =
  tm_year :: int
  tm_mon :: int
  tm_mday :: int
  tm_hour :: int
  tm_min :: int
  tm_sec :: int

record file_stat =
  st_reg :: bool
  st_size :: int
  st_mtime :: int

record host =
  localtime :: "int \<Rightarrow> tm"
  stat :: "string \<Rightarrow> file_stat option"

text \<open>\<open>%0<w>d\<close>.\<close>

definition fmt_0d :: "nat \<Rightarrow> int \<Rightarrow> string" where
  "fmt_0d w i = (if i < 0 then CHR ''-'' # pad0 (w - 1) (dec_nat (nat (- i))) else pad0 w (dec_nat (nat i)))"

definition fmt_ymd :: "tm \<Rightarrow> string" where
  "fmt_ymd t = fmt_0d 4 (tm_year t + 1900) @ ''-'' @ fmt_0d 2 (tm_mon t + 1) @ ''-'' @ fmt_0d 2 (tm_mday t)"

text \<open>\<open>strftime\<close> with \<open>%Y-%m-%d %H:%M:%S\<close>.\<close>

definition fmt_stamp :: "tm \<Rightarrow> string" where
  "fmt_stamp t = dec_int (tm_year t + 1900) @ ''-'' @ fmt_0d 2 (tm_mon t + 1) @ ''-'' @ fmt_0d 2 (tm_mday t)
     @ '' '' @ fmt_0d 2 (tm_hour t) @ '':'' @ fmt_0d 2 (tm_min t) @ '':'' @ fmt_0d 2 (tm_sec t)"

definition env_path :: "env \<Rightarrow> string \<Rightarrow> string \<Rightarrow> string" where
  "env_path e key dflt = (case getenv e key of None \<Rightarrow> dflt | Some p \<Rightarrow> if p = [] then dflt else p)"

section \<open>Scanning input\<close>

text \<open>\<open>%<w>u\<close> and \<open>%<w>d\<close> of \<open>sscanf\<close>: white space, then at most \<open>w\<close> bytes of an optional sign and
  digits; the value and the rest of the input, \<open>None\<close> when no digit is found.\<close>

definition scan_int :: "nat \<Rightarrow> string \<Rightarrow> (int \<times> string) option" where
  "scan_int w s = (let t = dropWhile c_isspace s;
      (neg, r) = split_sign t;
      ds = takeWhile c_isdigit (take (w - (length t - length r)) r)
    in if ds = [] then None else Some (if neg then - dec_val ds else dec_val ds, drop (length ds) r))"

text \<open>\<open>%<w>s\<close>.\<close>

definition scan_word :: "nat \<Rightarrow> string \<Rightarrow> (string \<times> string) option" where
  "scan_word w s = (let t = dropWhile c_isspace s; x = take w (takeWhile (\<lambda>c. \<not> c_isspace c) t)
    in if x = [] then None else Some (x, drop (length x) t))"

text \<open>\<open>strtoll (p, &end, 10)\<close>: \<open>None\<close> when \<open>end == p\<close>.\<close>

definition strtoll_end :: "string \<Rightarrow> (int \<times> string) option" where
  "strtoll_end s = (let (neg, r) = split_sign (dropWhile c_isspace s); ds = takeWhile c_isdigit r
    in if ds = [] then None else Some (clamp64 (if neg then - dec_val ds else dec_val ds), drop (length ds) r))"

end
