(* ===== verification/LogView.thy ===== *)
theory LogView
  imports Gate Json Ring Host Accounts
begin

text \<open>
  The log viewer \<open>src/log.cgi.c\<close>: a table of log files, the list of them, and the last lines of one
  of them that contain a keyword.  Matching lines go through a ring of as many slots as lines are
  wanted, which is shown to be an instance of the ring contract.
\<close>

section \<open>The code\<close>

definition TAIL_WINDOW :: nat where "TAIL_WINDOW = 262144"
definition MAX_LINES :: int where "MAX_LINES = 500"
definition MAX_LINE_CHARS :: nat where "MAX_LINE_CHARS = 1000"
definition MAX_GREP_LEN :: nat where "MAX_GREP_LEN = 64"

record LogSource =
  ls_id :: string
  ls_label :: string
  ls_rel :: string
  ls_dated :: bool

definition g_sources :: "LogSource list" where
  "g_sources =
    [\<lparr>ls_id = ''pps_tod'', ls_label = (utf8 [0xE6, 0x8E, 0x88, 0xE6, 0x97, 0xB6, 0xE5, 0xAE, 0x88, 0xE6, 0x8A, 0xA4, 0xE8, 0xBF, 0x9B, 0xE7, 0xA8, 0x8B, 0xEF, 0xBC, 0x88, 0xE5, 0xBD, 0x93, 0xE6, 0x97, 0xA5, 0xEF, 0xBC, 0x89]), ls_rel = ''pps_tod/pps_tod_%04d-%02d-%02d.log'', ls_dated = True\<rparr>,
     \<lparr>ls_id = ''pps_tod_wd'', ls_label = (utf8 [0xE6, 0x8E, 0x88, 0xE6, 0x97, 0xB6, 0xE7, 0x9C, 0x8B, 0xE9, 0x97, 0xA8, 0xE7, 0x8B, 0x97]), ls_rel = ''pps_tod/watchdog.log'', ls_dated = False\<rparr>,
     \<lparr>ls_id = ''lighttpd_err'', ls_label = (''Web '' @ utf8 [0xE6, 0x9C, 0x8D, 0xE5, 0x8A, 0xA1, 0xE5, 0x99, 0xA8, 0xE9, 0x94, 0x99, 0xE8, 0xAF, 0xAF, 0xE6, 0x97, 0xA5, 0xE5, 0xBF, 0x97]), ls_rel = ''lighttpd/error.log'', ls_dated = False\<rparr>,
     \<lparr>ls_id = ''lighttpd_acc'', ls_label = (''Web '' @ utf8 [0xE6, 0x9C, 0x8D, 0xE5, 0x8A, 0xA1, 0xE5, 0x99, 0xA8, 0xE8, 0xAE, 0xBF, 0xE9, 0x97, 0xAE, 0xE6, 0x97, 0xA5, 0xE5, 0xBF, 0x97]), ls_rel = ''lighttpd/access.log'', ls_dated = False\<rparr>]"

definition log_root :: "env \<Rightarrow> string" where
  "log_root e = env_path e ''LOGVIEW_ROOT'' ''/var/log''"

definition find_source :: "string option \<Rightarrow> LogSource option" where
  "find_source sid = (case sid of None \<Rightarrow> None
     | Some k \<Rightarrow> if k = [] then None else List.find (\<lambda>s. ls_id s = k) g_sources)"

definition source_path :: "env \<Rightarrow> host \<Rightarrow> LogSource \<Rightarrow> nat \<Rightarrow> string" where
  "source_path e h s outlen = (if ls_dated s
     then snprintf_s outlen (log_root e @ ''/pps_tod/pps_tod_'' @ fmt_ymd (localtime h (time_now e)) @ ''.log'')
     else snprintf_s outlen (log_root e @ ''/'' @ ls_rel s))"

definition get_qs_param :: "env \<Rightarrow> string \<Rightarrow> string option" where
  "get_qs_param e name = (case getenv e ''QUERY_STRING'' of None \<Rightarrow> None | Some qs \<Rightarrow> param_scan name qs)"

definition err_json :: "string \<Rightarrow> 'a world_scheme \<Rightarrow> 'a world_scheme" where
  "err_json msg w = emit (json_status ''error'' (json_str msg 256)) (cgi_header ''application/json'' w)"

definition source_entry :: "env \<Rightarrow> host \<Rightarrow> LogSource \<Rightarrow> string" where
  "source_entry e h s =
    (let path = source_path e h s 512;
         (ok, sz, tmstr) = (case stat h path of
            Some st \<Rightarrow> if st_reg st then (True, st_size st, fmt_stamp (localtime h (st_mtime st))) else (False, 0, [])
          | None \<Rightarrow> (False, 0, []))
     in ''{\"id\":\"'' @ ls_id s @ ''\",\"label\":\"'' @ ls_label s @ ''\",\"path\":\"'' @ json_str path 512
        @ ''\",\"exists\":'' @ (if ok then ''true'' else ''false'') @ '',\"size\":'' @ dec_int sz
        @ '',\"mtime\":\"'' @ tmstr @ ''\"}'')"

definition handle_sources :: "env \<Rightarrow> host \<Rightarrow> 'a world_scheme \<Rightarrow> 'a world_scheme" where
  "handle_sources e h w = emit (''{\"status\":\"ok\",\"root\":\"'' @ json_str (log_root e) 512 @ ''\",\"sources\":[''
      @ comma_join (map (source_entry e h) g_sources) @ '']}'') (cgi_header ''application/json'' w)"

text \<open>\<open>keep_ptr\<close> and \<open>keep_len\<close> as the text they delimit; \<open>want\<close>, \<open>ring\<close>, \<open>nkeep\<close>, \<open>matched\<close> as in
  the code.\<close>

record tail_ring =
  tr_want :: nat
  tr_keep :: "string list"
  tr_ring :: nat
  tr_nkeep :: nat
  tr_matched :: int

definition tail_init :: "nat \<Rightarrow> tail_ring" where
  "tail_init want = \<lparr>tr_want = want, tr_keep = replicate (nat MAX_LINES) [], tr_ring = 0, tr_nkeep = 0, tr_matched = 0\<rparr>"

definition tail_keep :: "string \<Rightarrow> tail_ring \<Rightarrow> tail_ring" where
  "tail_keep line t = t\<lparr>tr_keep := (tr_keep t)[tr_ring t := line],
     tr_ring := (tr_ring t + 1) mod tr_want t,
     tr_nkeep := (if tr_nkeep t < tr_want t then tr_nkeep t + 1 else tr_nkeep t),
     tr_matched := tr_matched t + 1\<rparr>"

definition chop_cr :: "string \<Rightarrow> string" where
  "chop_cr line = (if line \<noteq> [] \<and> last line = CHR 0x0D then butlast line else line)"

definition line_matches :: "string option \<Rightarrow> string \<Rightarrow> bool" where
  "line_matches grep line = (case grep of None \<Rightarrow> True | Some g \<Rightarrow> g = [] \<or> strstr g (cstr line) \<noteq> None)"

text \<open>\<open>while (p < end)\<close>; the string is the bytes from \<open>p\<close> to \<open>end\<close>.\<close>

function tail_scan :: "string option \<Rightarrow> string \<Rightarrow> tail_ring \<Rightarrow> tail_ring" where
  "tail_scan grep p t = (if p = [] then t
     else let line = chop_cr (before_chr nl p);
              t' = (if line_matches grep line then tail_keep (take MAX_LINE_CHARS line) t else t)
          in (case after_chr nl p of None \<Rightarrow> t' | Some r \<Rightarrow> tail_scan grep r t'))"
  by pat_completeness auto
termination
  by (relation "measure (\<lambda>(g, p, t). length p)") (auto dest: after_chr_shorter)

declare tail_scan.simps [simp del]

definition tail_base :: "tail_ring \<Rightarrow> nat" where
  "tail_base t = (if tr_nkeep t = tr_want t then tr_ring t else 0)"

definition tail_entry :: "tail_ring \<Rightarrow> nat \<Rightarrow> string" where
  "tail_entry t i = ''\"'' @ json_str (cstr (tr_keep t ! ((tail_base t + i) mod tr_want t))) (MAX_LINE_CHARS * 2 + 8) @ ''\"''"

definition clamp_lines :: "string option \<Rightarrow> int" where
  "clamp_lines s = (let n = (case s of None \<Rightarrow> 200 | Some x \<Rightarrow> atoi x) in
     if n < 1 then 1 else if n > MAX_LINES then MAX_LINES else n)"

definition tail_answer :: "LogSource \<Rightarrow> string \<Rightarrow> int \<Rightarrow> bool \<Rightarrow> tail_ring \<Rightarrow> string" where
  "tail_answer s path sz windowed t =
     ''{\"status\":\"ok\",\"id\":\"'' @ ls_id s @ ''\",\"path\":\"'' @ json_str path 512
     @ ''\",\"exists\":true,\"size\":'' @ dec_int sz @ '',\"windowed\":'' @ json_bool windowed
     @ '',\"matched\":'' @ dec_int (tr_matched t) @ '',\"returned\":'' @ dec_nat (tr_nkeep t)
     @ '',\"truncated\":'' @ json_bool (tr_matched t > int (tr_nkeep t)) @ '',\"lines\":[''
     @ comma_join (map (tail_entry t) [0..<tr_nkeep t]) @ '']}''"

text \<open>The bytes of the file from \<open>start\<close> on, at most a window of them; a window that starts inside the
  file loses its first, partial line.\<close>

definition tail_window :: "bool \<Rightarrow> nat \<Rightarrow> string \<Rightarrow> string" where
  "tail_window windowed start content = (let buf = take TAIL_WINDOW (drop start content) in
     if windowed then (case after_chr nl buf of None \<Rightarrow> [] | Some r \<Rightarrow> r) else buf)"

definition handle_tail :: "env \<Rightarrow> host \<Rightarrow> 'a world_scheme \<Rightarrow> 'a world_scheme" where
  "handle_tail e h w =
    (case find_source (get_qs_param e ''id'') of
       None \<Rightarrow> err_json (utf8 [0xE6, 0x9C, 0xAA, 0xE7, 0x9F, 0xA5, 0xE7, 0x9A, 0x84, 0xE6, 0x97, 0xA5, 0xE5, 0xBF, 0x97, 0xE6, 0xBA, 0x90]) w
     | Some s \<Rightarrow>
       let want = clamp_lines (get_qs_param e ''lines'');
           grep = map_option (take MAX_GREP_LEN) (get_qs_param e ''grep'');
           path = source_path e h s 512
       in case w_files w path of
            None \<Rightarrow> emit (''{\"status\":\"ok\",\"id\":\"'' @ ls_id s @ ''\",\"path\":\"'' @ json_str path 512
                @ ''\",\"exists\":false,\"size\":0,\"windowed\":false,\"matched\":0,\"returned\":0,\"truncated\":false,\"lines\":[]}'')
                (cgi_header ''application/json'' w)
          | Some content \<Rightarrow>
            let sz = (case stat h path of Some st \<Rightarrow> if st_reg st then st_size st else 0 | None \<Rightarrow> 0);
                windowed = (sz > int TAIL_WINDOW);
                start = (if windowed then nat (sz - int TAIL_WINDOW) else 0);
                t = tail_scan grep (tail_window windowed start content) (tail_init (nat want))
            in emit (tail_answer s path sz windowed t) (cgi_header ''application/json'' w))"

definition log_main :: "env \<Rightarrow> host \<Rightarrow> 'a world_scheme \<Rightarrow> 'a world_scheme" where
  "log_main e h w = (case gate_json_session e w of
     (w1, None) \<Rightarrow> w1
   | (w1, Some session) \<Rightarrow>
     (case gate_require_role session ''root'' w1 of
        (w2, False) \<Rightarrow> auth_cleanup e w2
      | (w2, True) \<Rightarrow> auth_cleanup e (case get_qs_param e ''action'' of
            None \<Rightarrow> err_json (utf8 [0xE7, 0xBC, 0xBA, 0xE5, 0xB0, 0x91] @ '' action'') w2
          | Some action \<Rightarrow> if action = ''sources'' then handle_sources e h w2
              else if action = ''tail'' then handle_tail e h w2
              else err_json (utf8 [0xE6, 0x97, 0xA0, 0xE6, 0x95, 0x88, 0xE7, 0x9A, 0x84] @ '' action'') w2)))"

section \<open>The ring of matching lines\<close>

definition tail_ok :: "tail_ring \<Rightarrow> bool" where
  "tail_ok t \<longleftrightarrow> 1 \<le> tr_want t \<and> tr_want t \<le> length (tr_keep t) \<and> tr_ring t < tr_want t
     \<and> tr_nkeep t \<le> tr_want t \<and> (tr_nkeep t < tr_want t \<longrightarrow> tr_ring t = tr_nkeep t)"

interpretation tail: slot_ring tr_keep tail_base tr_nkeep tr_want tail_ok tail_keep
proof unfold_locales
  fix t :: tail_ring and x
  assume t: "tail_ok t"
  then have b: "0 < tr_want t" "tr_ring t < tr_want t" "tr_nkeep t \<le> tr_want t" "tr_want t \<le> length (tr_keep t)"
    "tr_nkeep t \<noteq> tr_want t \<Longrightarrow> tr_ring t = tr_nkeep t" by (auto simp: tail_ok_def)
  show "0 < tr_want t \<and> tail_base t < tr_want t \<and> tr_nkeep t \<le> tr_want t \<and> tr_want t \<le> length (tr_keep t)"
    using b by (simp add: tail_base_def)
  have "(tr_ring t + 1) mod tr_want t < tr_want t" using b by simp
  then show "tail_ok (tail_keep x t)"
    using b by (auto simp: tail_ok_def tail_keep_def split: if_splits)
  show "tr_want (tail_keep x t) = tr_want t" by (simp add: tail_keep_def)
  have "(tail_base t + tr_nkeep t) mod tr_want t = tr_ring t"
    using b by (cases "tr_nkeep t = tr_want t") (simp_all add: tail_base_def)
  then show "tr_keep (tail_keep x t) = (tr_keep t)[(tail_base t + tr_nkeep t) mod tr_want t := x]"
    by (simp add: tail_keep_def)
  show "tr_nkeep (tail_keep x t) = (if tr_nkeep t < tr_want t then Suc (tr_nkeep t) else tr_nkeep t)"
    by (simp add: tail_keep_def)
  show "tail_base (tail_keep x t) = (if tr_nkeep t < tr_want t then tail_base t else (tail_base t + 1) mod tr_want t)"
    using b by (auto simp: tail_base_def tail_keep_def)
qed

definition tail_items :: "tail_ring \<Rightarrow> string list" where
  "tail_items t = ring_items (tr_want t) (tail_base t) (tr_nkeep t) (tr_keep t)"

lemma tail_init_ok: "1 \<le> want \<Longrightarrow> want \<le> 500 \<Longrightarrow> tail_ok (tail_init want)"
  by (simp add: tail_ok_def tail_init_def MAX_LINES_def)

section \<open>The scan is a fold over the lines\<close>

text \<open>The lines of a text; a newline at its very end does not start another one.\<close>

definition lines_of :: "string \<Rightarrow> string list" where
  "lines_of s = (let ls = split_on (\<lambda>c. c = nl) s in if last ls = [] then butlast ls else ls)"

lemma lines_of_nil [simp]: "lines_of [] = []"
  by (simp add: lines_of_def)

lemma split_on_first:
  "split_on (\<lambda>c. c = x) s = before_chr x s # (case after_chr x s of None \<Rightarrow> [] | Some r \<Rightarrow> split_on (\<lambda>c. c = x) r)"
  by (induction s) (auto simp: before_chr_def after_chr_def split: list.split)

lemma lines_of_step:
  assumes "s \<noteq> []"
  shows "lines_of s = before_chr nl s # (case after_chr nl s of None \<Rightarrow> [] | Some r \<Rightarrow> lines_of r)"
proof (cases "after_chr nl s")
  case None
  then have "nl \<notin> set s" by (auto simp: after_chr_def split: list.splits)
  then have "before_chr nl s = s" by (auto simp: before_chr_def takeWhile_eq_all_conv)
  with None assms show ?thesis by (simp add: lines_of_def split_on_first [of nl s])
next
  case (Some r)
  then show ?thesis by (simp add: lines_of_def split_on_first [of nl s] Let_def)
qed

definition matching :: "string option \<Rightarrow> string \<Rightarrow> string list" where
  "matching grep s = filter (line_matches grep) (map chop_cr (lines_of s))"

lemma tail_scan_fold:
  "tail_scan grep p t = fold tail_keep (map (take MAX_LINE_CHARS) (matching grep p)) t"
proof (induction grep p t rule: tail_scan.induct)
  case (1 grep p t)
  show ?case
  proof (cases "p = []")
    case True
    then show ?thesis by (simp add: tail_scan.simps matching_def)
  next
    case False
    then show ?thesis
      using 1 [OF False refl refl] lines_of_step [OF False]
      by (cases "after_chr nl p") (simp_all add: tail_scan.simps [of grep p] matching_def Let_def)
  qed
qed

lemma fold_keep_matched: "tr_matched (fold tail_keep xs t) = tr_matched t + int (length xs)"
  by (induction xs arbitrary: t) (simp_all add: tail_keep_def)

lemma tail_scan_items:
  assumes "1 \<le> want" "want \<le> 500"
  shows "tail_items (tail_scan grep p (tail_init want)) = last_n want (map (take MAX_LINE_CHARS) (matching grep p))"
    "tr_matched (tail_scan grep p (tail_init want)) = int (length (matching grep p))"
    "tr_nkeep (tail_scan grep p (tail_init want)) = min want (length (matching grep p))"
proof -
  have "tail_items (tail_init want) = []" "tr_want (tail_init want) = want" "tr_matched (tail_init want) = 0"
    by (simp_all add: tail_items_def ring_items_def tail_init_def)
  then show i: "tail_items (tail_scan grep p (tail_init want)) = last_n want (map (take MAX_LINE_CHARS) (matching grep p))"
    and "tr_matched (tail_scan grep p (tail_init want)) = int (length (matching grep p))"
    using tail.ring.from_empty [OF tail_init_ok [OF assms]]
    by (simp_all add: tail_scan_fold tail_items_def fold_keep_matched)
  have "length (tail_items t) = tr_nkeep t" for t by (simp add: tail_items_def)
  then show "tr_nkeep (tail_scan grep p (tail_init want)) = min want (length (matching grep p))"
    by (metis i length_last_n length_map)
qed

section \<open>What the viewer shows\<close>

definition shown_line :: "string \<Rightarrow> string" where
  "shown_line l = ''\"'' @ json_str (cstr (take MAX_LINE_CHARS l)) (MAX_LINE_CHARS * 2 + 8) @ ''\"''"

text \<open>The part of a file the viewer looks at: all of it, or what follows the first line break of its
  last 256 KB.\<close>

definition viewed :: "string \<Rightarrow> string" where
  "viewed content = (if length content \<le> TAIL_WINDOW then content
     else (case after_chr nl (last_n TAIL_WINDOW content) of None \<Rightarrow> [] | Some r \<Rightarrow> r))"

lemma tail_entries: "map (tail_entry t) [0..<tr_nkeep t] =
    map (\<lambda>l. ''\"'' @ json_str (cstr l) (MAX_LINE_CHARS * 2 + 8) @ ''\"'') (tail_items t)"
  by (simp add: tail_items_def ring_items_def tail_entry_def)

lemma clamp_lines_range: "1 \<le> clamp_lines x \<and> clamp_lines x \<le> 500"
  by (simp add: clamp_lines_def MAX_LINES_def Let_def)

lemma map_last_n: "map f (last_n n xs) = last_n n (map f xs)"
  by (simp add: last_n_def drop_map)

lemma tail_window_viewed:
  "tail_window (int (length content) > int TAIL_WINDOW)
     (if int (length content) > int TAIL_WINDOW then nat (int (length content) - int TAIL_WINDOW) else 0) content
   = viewed content"
proof -
  have "nat (int (length content) - int TAIL_WINDOW) = length content - TAIL_WINDOW" by simp
  then show ?thesis by (simp add: tail_window_def viewed_def last_n_def Let_def)
qed

text \<open>C20: the viewer shows the end of the log.  For a request that names a known source whose file
  exists, the answer is the JSON object with the number of matching lines in the viewed part of the
  file and, in order, the last of them, as many as wanted (between 1 and 500, 200 by default), each
  cut at 1000 bytes and escaped; \<open>truncated\<close> says whether some were left out.\<close>

theorem log_tail_shows_last:
  assumes "find_source (get_qs_param e ''id'') = Some s" "path = source_path e h s 512"
    "w_files w path = Some content" "stat h path = Some st" "st_reg st" "st_size st = int (length content)"
    "want = nat (clamp_lines (get_qs_param e ''lines''))"
    "ls = matching (map_option (take 64) (get_qs_param e ''grep'')) (viewed content)"
  shows "handle_tail e h w = emit (''{\"status\":\"ok\",\"id\":\"'' @ ls_id s @ ''\",\"path\":\"'' @ json_str path 512
     @ ''\",\"exists\":true,\"size\":'' @ dec_nat (length content) @ '',\"windowed\":'' @ json_bool (length content > TAIL_WINDOW)
     @ '',\"matched\":'' @ dec_nat (length ls) @ '',\"returned\":'' @ dec_nat (min want (length ls))
     @ '',\"truncated\":'' @ json_bool (length ls > want) @ '',\"lines\":[''
     @ comma_join (map shown_line (last_n want ls)) @ '']}'') (cgi_header ''application/json'' w)
   \<and> 1 \<le> want \<and> want \<le> 500"
proof -
  let ?g = "map_option (take 64) (get_qs_param e ''grep'')"
  have w: "1 \<le> want" "want \<le> 500" using clamp_lines_range [of "get_qs_param e ''lines''"] assms(7) by linarith+
  let ?t = "tail_scan ?g (viewed content) (tail_init want)"
  note t = tail_scan_items [OF w, of ?g "viewed content", folded assms(8)]
  have e: "map (tail_entry ?t) [0..<tr_nkeep ?t] = map shown_line (last_n want ls)"
    by (simp add: tail_entries t(1) map_last_n shown_line_def [abs_def] o_def)
  have a: "handle_tail e h w = emit (tail_answer s path (int (length content)) (int (length content) > int TAIL_WINDOW) ?t)
      (cgi_header ''application/json'' w)"
    using assms(1-7) tail_window_viewed [of content] by (simp add: handle_tail_def Let_def MAX_GREP_LEN_def)
  have m: "(min want (length ls) < length ls) = (want < length ls)" by linarith
  have d: "dec_int (int n) = dec_nat n" for n by (simp add: dec_int_def)
  show ?thesis
    using w a [unfolded tail_answer_def e, unfolded t(2,3) d of_nat_less_iff, unfolded m] by blast
qed

section \<open>Which files are read\<close>

lemma files_err_json [simp]: "err_json s (w\<lparr>w_files := fs\<rparr>) = (err_json s w)\<lparr>w_files := fs\<rparr>"
  by (simp add: err_json_def)

lemma files_log_main:
  assumes "\<And>s. s \<in> set g_sources \<Longrightarrow> fs (source_path e h s 512) = w_files w (source_path e h s 512)"
    "\<And>s. s \<in> set g_sources \<Longrightarrow> stat h' (source_path e h s 512) = stat h (source_path e h s 512)"
    "localtime h' = localtime h" "w_files v = w_files w"
  shows "handle_tail e h' (v\<lparr>w_files := fs\<rparr>) = (handle_tail e h v)\<lparr>w_files := fs\<rparr>"
    "handle_sources e h' (v\<lparr>w_files := fs\<rparr>) = (handle_sources e h v)\<lparr>w_files := fs\<rparr>"
proof -
  have p: "source_path e h' s n = source_path e h s n" for s n by (simp add: source_path_def assms(3))
  have "find_source k = Some s \<Longrightarrow> s \<in> set g_sources" for k s
    by (auto simp: find_source_def find_Some_iff in_set_conv_nth split: option.splits if_splits)
  then show "handle_tail e h' (v\<lparr>w_files := fs\<rparr>) = (handle_tail e h v)\<lparr>w_files := fs\<rparr>"
    using assms p by (simp add: handle_tail_def Let_def split: option.split)
  have "source_entry e h' s = source_entry e h s" if "s \<in> set g_sources" for s
    unfolding source_entry_def p assms(3) Let_def assms(2) [OF that] ..
  then show "handle_sources e h' (v\<lparr>w_files := fs\<rparr>) = (handle_sources e h v)\<lparr>w_files := fs\<rparr>"
    by (simp add: handle_sources_def cong: map_cong)
qed

text \<open>The viewer reads the listed logs and nothing else, and only for a root session.  Two file
  systems that agree on the paths of the source table (for a request that carries a root session;
  any two otherwise) give the same answer, whatever the query string asks for, and the program writes
  to no file.\<close>

theorem log_reads_only_sources:
  assumes "\<And>w1 session s. gate_json_session e w = (w1, Some session) \<Longrightarrow> auth_require_role session ''root'' \<Longrightarrow>
      s \<in> set g_sources \<Longrightarrow> fs (source_path e h s 512) = w_files w (source_path e h s 512)
        \<and> stat h' (source_path e h s 512) = stat h (source_path e h s 512)"
    and "localtime h' = localtime h"
  shows "log_main e h' (w\<lparr>w_files := fs\<rparr>) = (log_main e h w)\<lparr>w_files := fs\<rparr> \<and> w_files (log_main e h w) = w_files w"
proof -
  have eq: "log_main e h' (w\<lparr>w_files := fs\<rparr>) = (log_main e h w)\<lparr>w_files := fs\<rparr>"
    if ag: "\<And>w1 session s. gate_json_session e w = (w1, Some session) \<Longrightarrow> auth_require_role session ''root'' \<Longrightarrow>
        s \<in> set g_sources \<Longrightarrow> fs (source_path e h s 512) = w_files w (source_path e h s 512)
        \<and> stat h' (source_path e h s 512) = stat h (source_path e h s 512)" and lt: "localtime h' = localtime h" for fs h'
  proof -
    obtain w1 r where g: "gate_json_session e w = (w1, r)" by fastforce
    note f = gate_keeps_files [OF g]
    show ?thesis
    proof (cases "\<exists>session. r = Some session \<and> auth_require_role session ''root''")
      case True
      then obtain session where r: "r = Some session" "auth_require_role session ''root''" by blast
      note a = ag [OF g [unfolded r(1)] r(2)]
      note hs = files_log_main [where e = e and h = h and h' = h' and fs = fs and w = w and v = w1, OF _ _ lt f]
      show ?thesis
        using g r hs a by (simp add: log_main_def files_gate gate_require_role_def split: option.split)
    next
      case False
      with g show ?thesis
        by (auto simp: log_main_def files_gate gate_require_role_def split: option.split)
    qed
  qed
  have "w\<lparr>w_files := w_files w\<rparr> = w" by simp
  with eq [of "w_files w" h] have "log_main e h w = (log_main e h w)\<lparr>w_files := w_files w\<rparr>" by simp
  then have "w_files (log_main e h w) = w_files w"
    by (metis world.select_convs(2) world.surjective world.update_convs(2))
  moreover have "log_main e h' (w\<lparr>w_files := fs\<rparr>) = (log_main e h w)\<lparr>w_files := fs\<rparr>"
    by (rule eq) (use assms in blast)+
  ultimately show ?thesis by blast
qed

definition sample_host :: host where
  "sample_host = \<lparr>localtime = (\<lambda>_. \<lparr>tm_year = 126, tm_mon = 8, tm_mday = 17, tm_hour = 0, tm_min = 0, tm_sec = 0\<rparr>),
     stat = (\<lambda>_. Some \<lparr>st_reg = True, st_size = 8, st_mtime = 0\<rparr>)\<rparr>"

theorem log_reads_only_sources_witness:
  "log_main (req_env [] []) sample_host (sample_world\<lparr>w_files := Map.empty(''/etc/shadow'' \<mapsto> ''x'')\<rparr>)
     = (log_main (req_env [] []) sample_host sample_world)\<lparr>w_files := Map.empty(''/etc/shadow'' \<mapsto> ''x'')\<rparr>"
proof -
  have "source_path (req_env [] []) sample_host s 512 \<noteq> ''/etc/shadow''" for s
    by (simp add: source_path_def log_root_def env_path_def req_env_def snprintf_s_def)
  then show ?thesis
    using log_reads_only_sources [of "req_env [] []" sample_world "Map.empty(''/etc/shadow'' \<mapsto> ''x'')" sample_host sample_host]
    by (simp add: sample_world_def)
qed

definition tail_req :: env where
  "tail_req = req_env [(''QUERY_STRING'', ''action=tail&id=pps_tod_wd&lines=1'')] []"

theorem log_tail_shows_last_witness:
  "handle_tail tail_req sample_host (sample_world\<lparr>w_files := (\<lambda>_. Some (''one'' @ [nl] @ ''two'' @ [nl]))\<rparr>)
    = emit (''{\"status\":\"ok\",\"id\":\"pps_tod_wd\",\"path\":\"/var/log/pps_tod/watchdog.log\",\"exists\":true,\"size\":8,\"windowed\":false,\"matched\":2,\"returned\":1,\"truncated\":true,\"lines\":[\"two\"]}'')
       (cgi_header ''application/json'' (sample_world\<lparr>w_files := (\<lambda>_. Some (''one'' @ [nl] @ ''two'' @ [nl]))\<rparr>))"
proof -
  let ?s = "\<lparr>ls_id = ''pps_tod_wd'', ls_label = utf8 [0xE6, 0x8E, 0x88, 0xE6, 0x97, 0xB6, 0xE7, 0x9C, 0x8B, 0xE9, 0x97, 0xA8, 0xE7, 0x8B, 0x97],
     ls_rel = ''pps_tod/watchdog.log'', ls_dated = False\<rparr>"
  let ?qs = "''action=tail&id=pps_tod_wd&lines=1''"
  let ?c = "''one'' @ [nl] @ ''two'' @ [nl]"
  have q: "get_qs_param tail_req k = param_scan k ?qs" for k
    by (simp add: get_qs_param_def tail_req_def req_env_def)
  have "param_scan ''id'' ?qs = Some ''pps_tod_wd'' \<and> param_scan ''lines'' ?qs = Some ''1'' \<and> param_scan ''grep'' ?qs = None"
    by code_simp
  then have p: "get_qs_param tail_req ''id'' = Some ''pps_tod_wd''" "get_qs_param tail_req ''lines'' = Some ''1''"
    "get_qs_param tail_req ''grep'' = None" by (simp_all add: q)
  have s: "find_source (Some ''pps_tod_wd'') = Some ?s" by (simp add: find_source_def g_sources_def utf8_def)
  have path: "source_path tail_req sample_host ?s 512 = ''/var/log/pps_tod/watchdog.log''"
    by (simp add: source_path_def log_root_def env_path_def tail_req_def req_env_def snprintf_s_def)
  have ls: "matching None (viewed ?c) = [''one'', ''two'']"
    by (simp add: viewed_def TAIL_WINDOW_def matching_def line_matches_def lines_of_def chop_cr_def Let_def)
  have cl: "clamp_lines (Some ''1'') = 1" by code_simp
  have sh: "shown_line ''two'' = ''\"two\"''" "json_str ''/var/log/pps_tod/watchdog.log'' 512 = ''/var/log/pps_tod/watchdog.log''"
    by code_simp+
  have d: "dec_nat (Suc (Suc (Suc (Suc (Suc (Suc (Suc (Suc 0)))))))) = ''8''" "dec_nat (Suc (Suc 0)) = ''2''"
    "dec_nat (Suc 0) = ''1''" by code_simp+
  have st: "stat sample_host x = Some \<lparr>st_reg = True, st_size = 8, st_mtime = 0\<rparr>" for x by (simp add: sample_host_def)
  let ?w = "sample_world\<lparr>w_files := (\<lambda>_. Some ?c)\<rparr>"
  have prem: "find_source (get_qs_param tail_req ''id'') = Some ?s" "''/var/log/pps_tod/watchdog.log'' = source_path tail_req sample_host ?s 512"
    "w_files ?w ''/var/log/pps_tod/watchdog.log'' = Some ?c" "1 = nat (clamp_lines (get_qs_param tail_req ''lines''))"
    "[''one'', ''two''] = matching (map_option (take 64) (get_qs_param tail_req ''grep'')) (viewed ?c)"
    unfolding p path ls cl option.map(1) by (rule s refl | simp)+
  show ?thesis
    using log_tail_shows_last [OF prem(1-3) st _ _ prem(4,5)]
    by (simp add: sh d last_n_def TAIL_WINDOW_def json_bool_def)
qed

end
