(* ===== verification/Ntpmon.thy ===== *)
theory Ntpmon
  imports Network Ring Host
begin

text \<open>
  NTP access control and traffic statistics: \<open>src/ntpmon.c\<close> and its adapter \<open>src/ntpmon.cgi.c\<close>.
  The helper program that applies a rule is a parameter, as in \<open>Nmcli\<close>.  Samples go through a ring of
  1441 rows, shown to be an instance of the ring contract; the statistics document is built by bounded
  appends, shown to be all or nothing.  Counters are mathematical integers: the code's \<open>long long\<close>
  differences are exact for the counts a file of samples holds.
\<close>

section \<open>Addresses\<close>

definition u32_of :: "int \<Rightarrow> int" where
  "u32_of v = v mod 4294967296"

fun v4_fields :: "nat \<Rightarrow> string \<Rightarrow> int list option" where
  "v4_fields 0 s = None"
| "v4_fields (Suc n) s = (case scan_int 3 s of None \<Rightarrow> None
     | Some (v, r) \<Rightarrow>
       if n = 0 then (if r = [] then Some [u32_of v] else None)
       else (case r of [] \<Rightarrow> None
         | c # r' \<Rightarrow> if c = CHR ''.'' then map_option (Cons (u32_of v)) (v4_fields n r') else None))"

definition v4_shape :: "string \<Rightarrow> bool" where
  "v4_shape s = (case v4_fields 4 s of None \<Rightarrow> False | Some vs \<Rightarrow> list_all (\<lambda>v. v \<le> 255) vs)"

lemma dropWhile_shorter: "dropWhile P p = d # r \<Longrightarrow> length r < length p"
  by (metis length_dropWhile_le length_Cons Suc_le_eq)

function v6_scan :: "nat \<Rightarrow> nat \<Rightarrow> string \<Rightarrow> (nat \<times> nat) option" where
  "v6_scan dcolon groups p = (case p of [] \<Rightarrow> Some (dcolon, groups)
     | c # r \<Rightarrow>
       if c = CHR '':''
       then (case r of d # r' \<Rightarrow> if d = CHR '':'' then v6_scan (dcolon + 1) groups r' else v6_scan dcolon groups r
             | [] \<Rightarrow> v6_scan dcolon groups r)
       else let n = length (takeWhile c_isxdigit p) in
         if n = 0 \<or> n > 4 then None
         else (case dropWhile c_isxdigit p of [] \<Rightarrow> Some (dcolon, groups + 1)
             | d # r' \<Rightarrow> if d \<noteq> CHR '':'' then None else v6_scan dcolon (groups + 1) (d # r')))"
  by pat_completeness auto
termination
  by (relation "measure (\<lambda>(d, g, p). length p)") (auto dest: dropWhile_shorter split: if_splits)

declare v6_scan.simps [simp del]

definition v6_shape :: "string \<Rightarrow> bool" where
  "v6_shape s = (if CHR '':'' \<notin> set s then False
     else (case v6_scan 0 0 s of None \<Rightarrow> False
       | Some (dcolon, groups) \<Rightarrow> if dcolon > 1 then False else if dcolon = 1 then groups \<le> 7 else groups = 8))"

text \<open>The prefix loop; \<open>None\<close> is the early \<open>return 0\<close>.\<close>

fun prefix_scan :: "int \<Rightarrow> string \<Rightarrow> int option" where
  "prefix_scan v [] = Some v"
| "prefix_scan v (c # cs) = (if \<not> c_isdigit c then None
     else let v' = v * 10 + digit_val c in if v' > 128 then None else prefix_scan v' cs)"

definition ntpmon_cidr_valid :: "string \<Rightarrow> bool" where
  "ntpmon_cidr_valid cidr =
    (if cidr = [] \<or> length cidr \<ge> 64 then False
     else let addr = before_chr (CHR ''/'') cidr in
       if addr = [] \<or> length addr \<ge> 64 then False
       else (case (case after_chr (CHR ''/'') cidr of None \<Rightarrow> Some (-1)
                   | Some p \<Rightarrow> if p = [] \<or> \<not> c_isdigit (hd p) then None else prefix_scan 0 p) of
           None \<Rightarrow> False
         | Some prefix \<Rightarrow>
           if CHR '':'' \<in> set addr then (if prefix > 128 then False else v6_shape addr)
           else if prefix > 32 then False else v4_shape addr))"

section \<open>The managed rules\<close>

abbreviation (input) NTPMON_MAX_RULES :: nat where "NTPMON_MAX_RULES \<equiv> 64"

record NtpAclRule =
  ar_action :: string
  ar_cidr :: string

definition acl_file :: "env \<Rightarrow> string" where
  "acl_file e = env_path e ''NTPMON_ACL_FILE'' ''/etc/chrony/acl-web.conf''"

definition csv_file :: "env \<Rightarrow> string" where
  "csv_file e = env_path e ''NTPMON_CSV'' ''/var/db/ntp_stats.csv''"

definition acl_line :: "string \<Rightarrow> NtpAclRule option" where
  "acl_line line = (let p = dropWhile (\<lambda>c. c = CHR '' '' \<or> c = CHR 0x09) (cstr line) in
     if p = [] \<or> hd p = CHR ''#'' \<or> hd p = nl then None
     else (case scan_word 7 p of None \<Rightarrow> None
       | Some (act, r) \<Rightarrow> (case scan_word 63 r of None \<Rightarrow> None
         | Some (cidr, _) \<Rightarrow> if act \<noteq> ''allow'' \<and> act \<noteq> ''deny'' then None
             else Some \<lparr>ar_action = snprintf_s 8 act, ar_cidr = snprintf_s 64 cidr\<rparr>)))"

definition ntpmon_acl_load :: "env \<Rightarrow> (string \<Rightarrow> string option) \<Rightarrow> nat \<Rightarrow> NtpAclRule list option" where
  "ntpmon_acl_load e files mx = (case files (acl_file e) of None \<Rightarrow> None
     | Some text \<Rightarrow> Some (take mx (List.map_filter acl_line (fgets_lines 256 text))))"

fun acl_find_from :: "int \<Rightarrow> NtpAclRule list \<Rightarrow> string option \<Rightarrow> string \<Rightarrow> int" where
  "acl_find_from i [] action cidr = -1"
| "acl_find_from i (r # rs) action cidr =
     (if ar_cidr r \<noteq> cidr then acl_find_from (i + 1) rs action cidr
      else if opt_text action \<noteq> [] \<and> ar_action r \<noteq> opt_text action then acl_find_from (i + 1) rs action cidr
      else i)"

definition ntpmon_acl_find :: "NtpAclRule list \<Rightarrow> string option \<Rightarrow> string \<Rightarrow> int" where
  "ntpmon_acl_find rules action cidr = acl_find_from 0 rules action cidr"

definition helper_argv :: "env \<Rightarrow> string \<Rightarrow> string option \<Rightarrow> string \<Rightarrow> string list" where
  "helper_argv e op action cidr =
    (let ov = opt_text (getenv e ''NTPMON_HELPER_OVERRIDE'') in
     (if ov = [] then [''sudo'', ''-n'', ''/usr/local/bin/chrony_acl_apply.sh''] else [ov])
     @ [op] @ (if opt_text action \<noteq> [] then [opt_text action] else []) @ [cidr])"

text \<open>\<open>None\<close>: the return value 0; otherwise the text left in \<open>err\<close>.\<close>

definition ntpmon_acl_apply ::
  "env \<Rightarrow> 's nmcli \<Rightarrow> string \<Rightarrow> string option \<Rightarrow> string \<Rightarrow> nat \<Rightarrow> 's \<Rightarrow> 's \<times> string option" where
  "ntpmon_acl_apply e run op action cidr errlen s =
    (case run s (helper_argv e op action cidr) of
       (s', PipeFailed) \<Rightarrow> (s', Some (snprintf_s errlen ((''pipe '' @ utf8 [0xE5, 0xA4, 0xB1, 0xE8, 0xB4, 0xA5]))))
     | (s', ForkFailed) \<Rightarrow> (s', Some (snprintf_s errlen ((''fork '' @ utf8 [0xE5, 0xA4, 0xB1, 0xE8, 0xB4, 0xA5]))))
     | (s', Exited ok text) \<Rightarrow>
         if ok then (s', None)
         else let out = before_chr nl (cstr (take 511 text)) in
           (s', Some (snprintf_s errlen (if out \<noteq> [] then out else (utf8 [0xE8, 0xA7, 0x84, 0xE5, 0x88, 0x99, 0xE5, 0xBA, 0x94, 0xE7, 0x94, 0xA8, 0xE5, 0xA4, 0xB1, 0xE8, 0xB4, 0xA5, 0xEF, 0xBC, 0x88] @ ''helper '' @ utf8 [0xE6, 0x97, 0xA0, 0xE8, 0xBE, 0x93, 0xE5, 0x87, 0xBA, 0xEF, 0xBC, 0x89])))))"

section \<open>Samples\<close>

abbreviation (input) NTPMON_MAX_ROWS :: nat where "NTPMON_MAX_ROWS \<equiv> 1441"

record NtpMonRow =
  nr_t :: int
  nr_hits :: int
  nr_drops :: int
  nr_cmd_hits :: int
  nr_cmd_drops :: int
  nr_log_drops :: int
  nr_eth :: "int list"

fun parse_vals :: "nat \<Rightarrow> string \<Rightarrow> int list option" where
  "parse_vals 0 p = Some []"
| "parse_vals (Suc n) p = (case strtoll_end p of None \<Rightarrow> None
     | Some (v, r) \<Rightarrow>
       if n = 0 then Some [v]
       else (case r of [] \<Rightarrow> None
         | c # r' \<Rightarrow> if c \<noteq> CHR '','' then None else map_option (Cons v) (parse_vals n r')))"

definition parse_row :: "string \<Rightarrow> NtpMonRow option" where
  "parse_row line = map_option (\<lambda>v. \<lparr>nr_t = v ! 0, nr_hits = v ! 1, nr_drops = v ! 2, nr_cmd_hits = v ! 3,
     nr_cmd_drops = v ! 4, nr_log_drops = v ! 5, nr_eth = [v ! 6, v ! 7, v ! 8, v ! 9]\<rparr>) (parse_vals 10 line)"

text \<open>The static array with \<open>nrows\<close> and \<open>head\<close>.\<close>

record row_ring =
  rr_rows :: "NtpMonRow list"
  rr_nrows :: nat
  rr_head :: nat

definition rows_init :: row_ring where
  "rows_init = \<lparr>rr_rows = replicate NTPMON_MAX_ROWS \<lparr>nr_t = 0, nr_hits = 0, nr_drops = 0, nr_cmd_hits = 0,
     nr_cmd_drops = 0, nr_log_drops = 0, nr_eth = [0, 0, 0, 0]\<rparr>, rr_nrows = 0, rr_head = 0\<rparr>"

definition row_put :: "NtpMonRow \<Rightarrow> row_ring \<Rightarrow> row_ring" where
  "row_put r q = (let q' = q\<lparr>rr_rows := (rr_rows q)[(rr_head q + rr_nrows q) mod NTPMON_MAX_ROWS := r]\<rparr> in
     if rr_nrows q < NTPMON_MAX_ROWS then q'\<lparr>rr_nrows := rr_nrows q + 1\<rparr>
     else q'\<lparr>rr_head := (rr_head q + 1) mod NTPMON_MAX_ROWS\<rparr>)"

definition row_line :: "string \<Rightarrow> row_ring \<Rightarrow> row_ring" where
  "row_line buf q = (case parse_row (cstr buf) of None \<Rightarrow> q | Some r \<Rightarrow> row_put r q)"

definition load_rows :: "string option \<Rightarrow> row_ring" where
  "load_rows f = (case f of None \<Rightarrow> rows_init | Some text \<Rightarrow> fold row_line (fgets_lines 512 text) rows_init)"

definition row_at :: "row_ring \<Rightarrow> nat \<Rightarrow> NtpMonRow" where
  "row_at q i = rr_rows q ! ((rr_head q + i) mod NTPMON_MAX_ROWS)"

text \<open>The loop of \<open>eth_delta\<close> from \<open>j - 1\<close> down.\<close>

fun eth_base :: "row_ring \<Rightarrow> int \<Rightarrow> int \<Rightarrow> nat \<Rightarrow> nat \<Rightarrow> nat" where
  "eth_base q last_t window_s 0 base = base"
| "eth_base q last_t window_s (Suc j) base =
     (if last_t - nr_t (row_at q j) > window_s then base else eth_base q last_t window_s j j)"

definition eth_delta :: "row_ring \<Rightarrow> nat \<Rightarrow> int \<Rightarrow> int" where
  "eth_delta q nic window_s =
    (if rr_nrows q = 0 then 0
     else let last_row = row_at q (rr_nrows q - 1);
              base = eth_base q (nr_t last_row) window_s (rr_nrows q) 0;
              v = nr_eth last_row ! nic - nr_eth (row_at q base) ! nic
          in if v < 0 then 0 else v)"

definition g_eth_win :: "(string \<times> int) list" where
  "g_eth_win = [(''1m'', 90), (''1h'', 3600), (''5h'', 18000), (''24h'', 86400)]"

section \<open>The statistics document\<close>

fun m_series :: "(int \<times> int) option \<Rightarrow> NtpMonRow list \<Rightarrow> int list" where
  "m_series prev [] = []"
| "m_series prev (r # rs) =
     (case prev of None \<Rightarrow> -1
      | Some (hits, t) \<Rightarrow>
        let dt = nr_t r - t; d = nr_hits r - hits in
        if d \<ge> 0 \<and> dt > 0 \<and> dt \<le> 180 then cdiv (d * 60) dt else -1) # m_series (Some (nr_hits r, nr_t r)) rs"

definition rule_json :: "NtpAclRule \<Rightarrow> string" where
  "rule_json r = ''{\"action\":\"'' @ ar_action r @ ''\",\"cidr\":\"'' @ json_escape (ar_cidr r) 96 @ ''\"}''"

definition acl_pieces :: "env \<Rightarrow> host \<Rightarrow> NtpAclRule list option \<Rightarrow> string list" where
  "acl_pieces e h rules =
     [''{\"status\":\"ok\",\"acl\":{\"ok\":'' @ json_bool (rules \<noteq> None) @ '',\"rules\":['']
     @ commas (map rule_json (case rules of None \<Rightarrow> [] | Some rs \<Rightarrow> rs)) @ ['']'']
     @ [case stat h (acl_file e) of
          Some st \<Rightarrow> '',\"file_mtime\":\"'' @ fmt_stamp (localtime h (st_mtime st)) @ ''\"''
        | None \<Rightarrow> '',\"file_mtime\":\"\"'']
     @ [''},'']"

definition series_pieces :: "row_ring \<Rightarrow> string list" where
  "series_pieces q = (let rows = map (row_at q) [0..<rr_nrows q] in
     [''\"series\":{\"t\":['']
     @ commas (map (\<lambda>r. dec_int (nr_t r)) rows) @ [''],\"m\":['']
     @ commas (map dec_int (m_series None rows)) @ [''],\"c\":['']
     @ commas (map (\<lambda>r. dec_int (nr_hits r)) rows) @ ['']},''])"

definition eth_pieces :: "row_ring \<Rightarrow> string list" where
  "eth_pieces q =
     [''\"eth\":{\"names\":[\"eth0\",\"eth1\",\"eth2\",\"eth3\"],\"total\":['']
     @ commas (map (\<lambda>i. dec_int (if rr_nrows q > 0 then nr_eth (row_at q (rr_nrows q - 1)) ! i else 0)) [0..<4])
     @ [''],'']
     @ concat (map (\<lambda>(w, sfx, win). [(if w > (0::nat) then '','' else []) @ ''\"last_'' @ sfx @ ''\":['']
          @ commas (map (\<lambda>i. dec_int (eth_delta q i win)) [0..<4]) @ ['']'']) (zip [0..<4] g_eth_win))
     @ [''},'']"

definition nic_pieces :: "env \<Rightarrow> (string \<Rightarrow> string option) \<Rightarrow> string list" where
  "nic_pieces e files = (case files (env_path e ''NTPMON_NIC_FILE'' ''/var/db/ntp_nic.json'') of
     None \<Rightarrow> [''\"nic\":{\"ok\":false},'']
   | Some text \<Rightarrow>
     let buf = take 131071 text in
     if length buf \<ge> 131071 then [''\"nic\":{\"ok\":false,\"too_large\":true},'']
     else (case after_chr (CHR ''{'') (cstr buf) of None \<Rightarrow> [''\"nic\":{\"ok\":false},'']
       | Some body \<Rightarrow>
         let ts = (case strstr ''\"ts\":'' (CHR ''{'' # body) of None \<Rightarrow> 0 | Some p \<Rightarrow> strtol10 (drop 5 p)) in
         [''\"nic\":{\"ok\":true,\"age_s\":'' @ dec_int (if ts \<noteq> 0 then time_now e - ts else -1) @ '','', body, '','']))"

definition meta_pieces :: "env \<Rightarrow> bool \<Rightarrow> row_ring \<Rightarrow> string list" where
  "meta_pieces e csv_ok q =
    (let csv_ts = (if rr_nrows q > 0 then nr_t (row_at q (rr_nrows q - 1)) else 0) in
     [''\"meta\":{\"csv_ok\":'' @ json_bool csv_ok @ '',\"csv_ts\":'' @ dec_int csv_ts @ '',\"csv_age_s\":''
      @ dec_int (if csv_ts \<noteq> 0 then time_now e - csv_ts else -1) @ '',\"samples\":'' @ dec_nat (rr_nrows q) @ ''}}''])"

definition stats_pieces :: "env \<Rightarrow> host \<Rightarrow> (string \<Rightarrow> string option) \<Rightarrow> string list" where
  "stats_pieces e h files = (let q = load_rows (files (csv_file e)) in
     acl_pieces e h (ntpmon_acl_load e files NTPMON_MAX_RULES) @ series_pieces q @ eth_pieces q
     @ nic_pieces e files @ meta_pieces e (files (csv_file e) \<noteq> None) q)"

text \<open>\<open>None\<close>: the return value -1.\<close>

definition ntpmon_stats_json :: "env \<Rightarrow> host \<Rightarrow> (string \<Rightarrow> string option) \<Rightarrow> nat \<Rightarrow> string option" where
  "ntpmon_stats_json e h files outlen = fold (jappend outlen) (stats_pieces e h files) (Some [])"

section \<open>ntpmon.cgi\<close>

abbreviation (input) NTPMON_JSON_MAX :: nat where "NTPMON_JSON_MAX \<equiv> 262144"

definition handle_stats :: "env \<Rightarrow> host \<Rightarrow> 'a world_scheme \<Rightarrow> 'a world_scheme" where
  "handle_stats e h w = (case ntpmon_stats_json e h (w_files w) NTPMON_JSON_MAX of
     None \<Rightarrow> json_plain ''error'' (utf8 [0xE7, 0xBB, 0x9F, 0xE8, 0xAE, 0xA1, 0xE6, 0x95, 0xB0, 0xE6, 0x8D, 0xAE, 0xE8, 0xBF, 0x87, 0xE5, 0xA4, 0xA7]) w
   | Some out \<Rightarrow> emit out (cgi_header ''application/json'' w))"

definition acl_detail :: "string \<Rightarrow> string option \<Rightarrow> string \<Rightarrow> string" where
  "acl_detail op action cidr = snprintf_s 160 (if op = ''add''
     then (utf8 [0xE6, 0x96, 0xB0, 0xE5, 0xA2, 0x9E] @ '' '') @ opt_text action @ '' '' @ cidr
     else (utf8 [0xE5, 0x88, 0xA0, 0xE9, 0x99, 0xA4] @ '' '') @ opt_text action @ '' '' @ cidr @ (utf8 [0xEF, 0xBC, 0x88] @ ''chrony '' @ utf8 [0xE5, 0xB7, 0xB2, 0xE9, 0x87, 0x8D, 0xE5, 0x90, 0xAF, 0xE9, 0x87, 0x8D, 0xE8, 0xBD, 0xBD, 0xEF, 0xBC, 0x89]))"

definition acl_request_error :: "string option \<Rightarrow> string option \<Rightarrow> string option \<Rightarrow> string option" where
  "acl_request_error op action cidr =
    (if op = None \<or> (op = Some ''add'' \<and> action = None) \<or> opt_text cidr = [] then Some (utf8 [0xE7, 0xBC, 0xBA, 0xE5, 0xB0, 0x91, 0xE5, 0x8F, 0x82, 0xE6, 0x95, 0xB0])
     else if the op \<noteq> ''add'' \<and> the op \<noteq> ''remove'' then Some (utf8 [0xE6, 0x97, 0xA0, 0xE6, 0x95, 0x88, 0xE7, 0x9A, 0x84, 0xE6, 0x93, 0x8D, 0xE4, 0xBD, 0x9C])
     else if the op = ''add'' \<and> the action \<noteq> ''allow'' \<and> the action \<noteq> ''deny''
     then Some (utf8 [0xE5, 0x8A, 0xA8, 0xE4, 0xBD, 0x9C, 0xE5, 0xBF, 0x85, 0xE9, 0xA1, 0xBB, 0xE6, 0x98, 0xAF] @ '' allow '' @ utf8 [0xE6, 0x88, 0x96] @ '' deny'')
     else if the op = ''remove'' \<and> opt_text action \<noteq> [] \<and> the action \<noteq> ''allow'' \<and> the action \<noteq> ''deny''
     then Some (utf8 [0xE5, 0x8A, 0xA8, 0xE4, 0xBD, 0x9C, 0xE5, 0xBF, 0x85, 0xE9, 0xA1, 0xBB, 0xE6, 0x98, 0xAF] @ '' allow '' @ utf8 [0xE6, 0x88, 0x96] @ '' deny'')
     else if \<not> ntpmon_cidr_valid (the cidr) then Some (utf8 [0xE6, 0x97, 0xA0, 0xE6, 0x95, 0x88, 0xE7, 0x9A, 0x84] @ '' CIDR '' @ utf8 [0xE6, 0xA0, 0xBC, 0xE5, 0xBC, 0x8F])
     else None)"

definition handle_acl_op ::
  "env \<Rightarrow> 's nmcli \<Rightarrow> SessionInfo \<Rightarrow> 'a world_scheme \<times> 's \<Rightarrow> 'a world_scheme \<times> 's" where
  "handle_acl_op e run session ws = (case ws of (w0, s) \<Rightarrow>
     let p_op = get_post_param e ''op''; p_action = get_post_param e ''action''; p_cidr = get_post_param e ''cidr'';
         w = cgi_header ''application/json'' w0
     in case acl_request_error p_op p_action p_cidr of
       Some msg \<Rightarrow> (emit (json_status ''error'' msg) w, s)
     | None \<Rightarrow>
       let op = the p_op; cidr = the p_cidr;
           rules = ntpmon_acl_load e (w_files w) NTPMON_MAX_RULES;
           idx = (case rules of None \<Rightarrow> -1 | Some rs \<Rightarrow> ntpmon_acl_find rs p_action cidr)
       in if op = ''add'' \<and> idx \<ge> 0 then (emit (json_status ''error'' (utf8 [0xE8, 0xA7, 0x84, 0xE5, 0x88, 0x99, 0xE5, 0xB7, 0xB2, 0xE5, 0xAD, 0x98, 0xE5, 0x9C, 0xA8])) w, s)
          else if op = ''remove'' \<and> idx < 0 then (emit (json_status ''error'' (utf8 [0xE8, 0xA7, 0x84, 0xE5, 0x88, 0x99, 0xE4, 0xB8, 0x8D, 0xE5, 0xAD, 0x98, 0xE5, 0x9C, 0xA8])) w, s)
          else
            let action = (if op = ''remove'' \<and> opt_text p_action = [] \<and> idx \<ge> 0
                          then Some (ar_action (the rules ! nat idx)) else p_action)
            in case ntpmon_acl_apply e run op action cidr 512 s of
                 (s', Some err) \<Rightarrow> (emit (json_status ''error'' (json_escape err 1024)) w, s')
               | (s', None) \<Rightarrow>
                 (emit (json_status ''ok'' (if op = ''add'' then (utf8 [0xE8, 0xA7, 0x84, 0xE5, 0x88, 0x99, 0xE5, 0xB7, 0xB2, 0xE6, 0xB7, 0xBB, 0xE5, 0x8A, 0xA0, 0xE5, 0xB9, 0xB6, 0xE5, 0x8D, 0xB3, 0xE6, 0x97, 0xB6, 0xE7, 0x94, 0x9F, 0xE6, 0x95, 0x88]) else (utf8 [0xE8, 0xA7, 0x84, 0xE5, 0x88, 0x99, 0xE5, 0xB7, 0xB2, 0xE5, 0x88, 0xA0, 0xE9, 0x99, 0xA4, 0xEF, 0xBC, 0x88] @ ''chrony '' @ utf8 [0xE5, 0xB7, 0xB2, 0xE9, 0x87, 0x8D, 0xE5, 0x90, 0xAF, 0xEF, 0xBC, 0x89])))
                    (auth_audit_log e (si_user_id session) ''ntp_acl_change'' (si_user_id session)
                       (Some (acl_detail op action cidr)) (getenv e ''REMOTE_ADDR'') w), s'))"

definition ntpmon_main :: "env \<Rightarrow> host \<Rightarrow> 's nmcli \<Rightarrow> 'a world_scheme \<times> 's \<Rightarrow> 'a world_scheme \<times> 's" where
  "ntpmon_main e h run ws = (case ws of (w, s) \<Rightarrow>
     (case gate_json_session e w of
        (w1, None) \<Rightarrow> (w1, s)
      | (w1, Some session) \<Rightarrow>
        if qs_action e = ''stats'' then (handle_stats e h (auth_cleanup e w1), s)
        else if qs_action e = ''acl_op''
        then (case gate_require_role session ''root'' w1 of
            (w2, False) \<Rightarrow> (auth_cleanup e w2, s)
          | (w2, True) \<Rightarrow>
            (case gate_require_csrf session (get_post_param e ''csrf_token'') w2 of
               (w3, False) \<Rightarrow> (auth_cleanup e w3, s)
             | (w3, True) \<Rightarrow> (case handle_acl_op e run session (w3, s) of (w4, s4) \<Rightarrow> (auth_cleanup e w4, s4))))
        else (auth_cleanup e (json_plain ''error'' ''Invalid action'' w1), s)))"

section \<open>The ring of samples\<close>

definition rows_ok :: "row_ring \<Rightarrow> bool" where
  "rows_ok q \<longleftrightarrow> length (rr_rows q) = NTPMON_MAX_ROWS \<and> rr_head q < NTPMON_MAX_ROWS \<and> rr_nrows q \<le> NTPMON_MAX_ROWS"

interpretation rows: slot_ring rr_rows rr_head rr_nrows "\<lambda>_. NTPMON_MAX_ROWS" rows_ok row_put
  by unfold_locales (auto simp: rows_ok_def row_put_def Let_def)

definition row_items :: "row_ring \<Rightarrow> NtpMonRow list" where
  "row_items q = map (row_at q) [0..<rr_nrows q]"

lemma row_items_ring: "row_items q = ring_items NTPMON_MAX_ROWS (rr_head q) (rr_nrows q) (rr_rows q)"
  by (simp add: row_items_def ring_items_def row_at_def)

text \<open>The rows a file of samples holds: one for each line that parses.\<close>

definition csv_rows :: "string option \<Rightarrow> NtpMonRow list" where
  "csv_rows f = (case f of None \<Rightarrow> [] | Some text \<Rightarrow> List.map_filter (\<lambda>l. parse_row (cstr l)) (fgets_lines 512 text))"

lemma fold_row_line: "fold row_line ls q = fold row_put (List.map_filter (\<lambda>l. parse_row (cstr l)) ls) q"
  by (induction ls arbitrary: q) (auto simp: row_line_def List.map_filter_def split: option.split)

lemma load_rows_items: "row_items (load_rows f) = last_n NTPMON_MAX_ROWS (csv_rows f)"
proof -
  have ok: "rows_ok rows_init" by (simp add: rows_ok_def rows_init_def)
  have e: "ring_items NTPMON_MAX_ROWS (rr_head rows_init) (rr_nrows rows_init) (rr_rows rows_init) = []"
    by (simp add: ring_items_def rows_init_def)
  show ?thesis
    using rows.ring.from_empty [OF ok e] e
    by (cases f) (simp_all add: load_rows_def csv_rows_def fold_row_line row_items_ring)
qed

section \<open>Counter deltas\<close>

text \<open>The newest rows no older than \<open>win\<close> seconds, counted back from the last one.\<close>

definition recent :: "int \<Rightarrow> NtpMonRow list \<Rightarrow> NtpMonRow list" where
  "recent win rs = rev (takeWhile (\<lambda>r. nr_t (last rs) - nr_t r \<le> win) (rev rs))"

lemma eth_base_spec:
  "eth_base q t win n base = (let k = length (takeWhile (\<lambda>r. t - nr_t r \<le> win) (rev (map (row_at q) [0..<n])))
     in if k = 0 then base else n - k)"
proof (induction n arbitrary: base)
  case (Suc n)
  then show ?case by (auto simp: Let_def not_le)
qed simp

lemma last_row_items: "rr_nrows q > 0 \<Longrightarrow> last (row_items q) = row_at q (rr_nrows q - 1)"
  by (simp add: row_items_def last_map)

lemma recent_nonempty: "rs \<noteq> [] \<Longrightarrow> 0 \<le> win \<Longrightarrow> recent win rs \<noteq> []"
  by (cases rs rule: rev_cases) (simp_all add: recent_def)

lemma hd_recent:
  assumes "rs \<noteq> []" "0 \<le> win"
  shows "hd (recent win rs) = rs ! (length rs - length (recent win rs))"
proof -
  have s: "rs = take (length rs - length (recent win rs)) rs @ recent win rs"
  proof -
    have "rev rs = rev (recent win rs) @ dropWhile (\<lambda>r. nr_t (last rs) - nr_t r \<le> win) (rev rs)"
      by (simp add: recent_def)
    then have "rs = rev (dropWhile (\<lambda>r. nr_t (last rs) - nr_t r \<le> win) (rev rs)) @ recent win rs"
      by (metis rev_append rev_rev_ident)
    then show ?thesis by (metis append_eq_conv_conj length_append diff_add_inverse2)
  qed
  have l: "length (take (length rs - length (recent win rs)) rs) = length rs - length (recent win rs)" by simp
  show ?thesis
    by (subst (2) s) (use recent_nonempty [OF assms] in \<open>simp add: nth_append hd_conv_nth\<close>)
qed

lemma eth_delta_recent:
  assumes "0 \<le> win"
  shows "eth_delta q i win = (if row_items q = [] then 0
     else max 0 (nr_eth (last (row_items q)) ! i - nr_eth (hd (recent win (row_items q))) ! i))"
proof (cases "rr_nrows q = 0")
  case False
  let ?rs = "row_items q"
  have ne: "?rs \<noteq> []" using False by (simp add: row_items_def)
  have len: "length ?rs = rr_nrows q" by (simp add: row_items_def)
  have l: "last ?rs = row_at q (rr_nrows q - 1)" using False last_row_items by blast
  have k: "length (takeWhile (\<lambda>r. nr_t (last ?rs) - nr_t r \<le> win) (rev ?rs)) = length (recent win ?rs)"
    by (simp add: recent_def)
  have pos: "0 < length (recent win ?rs)" using recent_nonempty [OF ne assms] by simp
  then have b: "eth_base q (nr_t (last ?rs)) win (rr_nrows q) 0 = length ?rs - length (recent win ?rs)"
    using k by (simp add: eth_base_spec Let_def row_items_def [symmetric] len)
  have "length ?rs - length (recent win ?rs) < rr_nrows q" using pos len ne False by linarith
  then have "row_at q (length ?rs - length (recent win ?rs)) = hd (recent win ?rs)"
    using hd_recent [OF ne assms] by (simp add: row_items_def)
  then show ?thesis
    using False ne b l by (simp add: eth_delta_def Let_def max_def)
qed (simp add: eth_delta_def row_items_def)

lemma recent_sorted:
  assumes "sorted (map nr_t rs)"
  shows "recent win rs = filter (\<lambda>r. nr_t (last rs) - nr_t r \<le> win) rs"
proof -
  have "takeWhile (\<lambda>r. T - nr_t r \<le> win) (rev rs) = filter (\<lambda>r. T - nr_t r \<le> win) (rev rs)" for T
    using assms
  proof (induction rs rule: rev_induct)
    case (snoc r rs)
    show ?case
    proof (cases "T - nr_t r \<le> win")
      case False
      have "\<not> T - nr_t x \<le> win" if "x \<in> set rs" for x
        using snoc.prems False that by (fastforce simp: sorted_append)
      then have "filter (\<lambda>r. T - nr_t r \<le> win) (rev rs) = []" by (auto simp: filter_empty_conv)
      with False show ?thesis by simp
    qed (use snoc in \<open>simp add: sorted_append\<close>)
  qed simp
  then show ?thesis by (simp add: recent_def rev_filter)
qed

text \<open>The interface counters shown.  The ring holds the last 1441 rows of the sample file that
  parse.  For every window length, interface and sample file, the shown delta is the newest counter
  minus the counter of the oldest row reached from the end without meeting a row older than the window,
  or 0 when the counter went down or there is no row; when the rows are in order of time, these rows
  are exactly those of the window.\<close>

theorem eth_delta_window:
  assumes "0 \<le> win" "rs = last_n 1441 (csv_rows f)"
  shows "eth_delta (load_rows f) i win =
      (if rs = [] then 0 else max 0 (nr_eth (last rs) ! i - nr_eth (hd (recent win rs)) ! i))
    \<and> (if sorted (map nr_t rs) then recent win rs = filter (\<lambda>r. nr_t (last rs) - nr_t r \<le> win) rs else True)
    \<and> (rs = [] \<or> last rs \<in> set (recent win rs))"
proof -
  have "last rs \<in> set (recent win rs)" if "rs \<noteq> []"
    using that assms(1) by (cases rs rule: rev_cases) (simp_all add: recent_def)
  then show ?thesis
    using eth_delta_recent [OF assms(1), of "load_rows f" i] recent_sorted [of rs win]
    unfolding load_rows_items assms(2) [symmetric] by auto
qed

section \<open>The document over the list of rows\<close>

definition acl_doc :: "env \<Rightarrow> host \<Rightarrow> NtpAclRule list option \<Rightarrow> string" where
  "acl_doc e h rules = ''{\"status\":\"ok\",\"acl\":{\"ok\":'' @ json_bool (rules \<noteq> None) @ '',\"rules\":[''
     @ comma_join (map rule_json (case rules of None \<Rightarrow> [] | Some rs \<Rightarrow> rs)) @ ''],\"file_mtime\":\"''
     @ (case stat h (acl_file e) of Some st \<Rightarrow> fmt_stamp (localtime h (st_mtime st)) | None \<Rightarrow> []) @ ''\"},''"

definition series_doc :: "NtpMonRow list \<Rightarrow> string" where
  "series_doc rs = ''\"series\":{\"t\":['' @ comma_join (map (\<lambda>r. dec_int (nr_t r)) rs)
     @ ''],\"m\":['' @ comma_join (map dec_int (m_series None rs))
     @ ''],\"c\":['' @ comma_join (map (\<lambda>r. dec_int (nr_hits r)) rs) @ '']},''"

definition delta_of :: "NtpMonRow list \<Rightarrow> nat \<Rightarrow> int \<Rightarrow> int" where
  "delta_of rs i win = (if rs = [] then 0 else max 0 (nr_eth (last rs) ! i - nr_eth (hd (recent win rs)) ! i))"

definition eth_doc :: "NtpMonRow list \<Rightarrow> string" where
  "eth_doc rs = ''\"eth\":{\"names\":[\"eth0\",\"eth1\",\"eth2\",\"eth3\"],\"total\":[''
     @ comma_join (map (\<lambda>i. dec_int (if rs = [] then 0 else nr_eth (last rs) ! i)) [0..<4]) @ ''],''
     @ comma_join (map (\<lambda>(sfx, win). ''\"last_'' @ sfx @ ''\":['' @ comma_join (map (\<lambda>i. dec_int (delta_of rs i win)) [0..<4]) @ '']'') g_eth_win)
     @ ''},''"

definition meta_doc :: "env \<Rightarrow> bool \<Rightarrow> NtpMonRow list \<Rightarrow> string" where
  "meta_doc e csv_ok rs =
    (let csv_ts = (if rs = [] then 0 else nr_t (last rs)) in
     ''\"meta\":{\"csv_ok\":'' @ json_bool csv_ok @ '',\"csv_ts\":'' @ dec_int csv_ts @ '',\"csv_age_s\":''
      @ dec_int (if csv_ts \<noteq> 0 then time_now e - csv_ts else -1) @ '',\"samples\":'' @ dec_nat (length rs) @ ''}}'')"

definition stats_doc :: "env \<Rightarrow> host \<Rightarrow> (string \<Rightarrow> string option) \<Rightarrow> string" where
  "stats_doc e h files = (let rs = last_n 1441 (csv_rows (files (csv_file e))) in
     acl_doc e h (ntpmon_acl_load e files 64) @ series_doc rs @ eth_doc rs @ concat (nic_pieces e files)
     @ meta_doc e (files (csv_file e) \<noteq> None) rs)"

lemma concat_acl_pieces: "concat (acl_pieces e h rules) = acl_doc e h rules"
  by (simp add: acl_pieces_def acl_doc_def split: option.split)

lemma concat_series_pieces: "concat (series_pieces q) = series_doc (row_items q)"
  by (simp add: series_pieces_def series_doc_def row_items_def Let_def)

lemma last_item: "(if rr_nrows q > 0 then f (row_at q (rr_nrows q - 1)) else d) = (if row_items q = [] then d else f (last (row_items q)))"
  using last_row_items [of q] by (auto simp: row_items_def)

lemma concat_eth_pieces: "concat (eth_pieces q) = eth_doc (row_items q)"
proof -
  have "eth_delta q i win = delta_of (row_items q) i win" if "0 \<le> win" for i win
    using eth_delta_recent [OF that] by (simp add: delta_of_def)
  moreover have "(row_items q = []) = (rr_nrows q = 0)" by (simp add: row_items_def)
  ultimately show ?thesis
    unfolding eth_pieces_def eth_doc_def
    by (cases "rr_nrows q = 0") (simp_all add: g_eth_win_def upt_rec numeral_eq_Suc last_row_items)
qed

lemma concat_meta_pieces: "concat (meta_pieces e ok q) = meta_doc e ok (row_items q)"
  unfolding meta_pieces_def meta_doc_def last_item by (simp add: row_items_def Let_def)

text \<open>C19: the statistics document.  For every set of files, \<open>ntpmon_stats_json\<close> fails exactly when
  the document does not fit the buffer with its terminating NUL, and otherwise produces, whole, the
  document over plain lists: the first 64 rules, the last 1441 samples with their per-minute series
  (-1 after a counter reset, at a gap and at the start), totals and window deltas, the embedded
  interface snapshot and the age of the data.\<close>

theorem stats_json_document:
  "ntpmon_stats_json e h files (Suc n) =
     (if length (stats_doc e h files) < Suc n then Some (stats_doc e h files) else None)"
proof -
  have "concat (stats_pieces e h files) = stats_doc e h files"
    by (simp add: stats_pieces_def stats_doc_def Let_def concat_acl_pieces concat_series_pieces concat_eth_pieces
        concat_meta_pieces load_rows_items)
  then show ?thesis by (simp add: ntpmon_stats_json_def fold_jappend_doc)
qed

section \<open>Which address ranges are accepted\<close>

definition colons :: "string \<Rightarrow> string list" where
  "colons s = split_on (\<lambda>c. c = CHR '':'') s"

definition v6_group :: "string \<Rightarrow> bool" where
  "v6_group w \<longleftrightarrow> list_all c_isxdigit w \<and> length w \<le> 4"

fun dcolons :: "string \<Rightarrow> nat" where
  "dcolons [] = 0"
| "dcolons [c] = 0"
| "dcolons (c # d # r) = (if c = CHR '':'' then if d = CHR '':'' then Suc (dcolons r) else dcolons (d # r) else dcolons (d # r))"

lemma colon_not_xdigit [simp]: "\<not> c_isxdigit (CHR '':'')"
  by (simp add: c_isxdigit_def c_isdigit_def)

lemma dcolons_skip: "c \<noteq> CHR '':'' \<Longrightarrow> dcolons (c # r) = dcolons r"
  by (cases r) simp_all

lemma dcolons_group: "CHR '':'' \<notin> set g \<Longrightarrow> dcolons (g @ r) = dcolons r"
  by (induction g) (auto simp: dcolons_skip)

lemma colons_Nil [simp]: "colons [] = [[]]"
  by (simp add: colons_def)

lemma colons_sep [simp]: "colons (CHR '':'' # s) = [] # colons s"
  by (simp add: colons_def)

lemma colons_group:
  "list_all c_isxdigit g \<Longrightarrow> colons (g @ s) = (g @ hd (colons s)) # tl (colons s)"
  unfolding colons_def by (rule split_on_word) (auto simp: list_all_iff)

lemma hd_colons: "c \<noteq> CHR '':'' \<Longrightarrow> \<exists>w. hd (colons (c # s)) = c # w"
  by (auto simp: colons_def split: list.split)

lemma colons_ne [simp]: "colons s \<noteq> []"
  by (simp add: colons_def)

definition v6_counts :: "nat \<Rightarrow> nat \<Rightarrow> string \<Rightarrow> (nat \<times> nat) option" where
  "v6_counts d g p = (if list_all v6_group (colons p)
     then Some (d + dcolons p, g + length (filter (\<lambda>w. w \<noteq> []) (colons p))) else None)"

lemma v6_counts_group:
  assumes c: "c \<noteq> CHR '':''" and n: "p = c # r" "m = takeWhile c_isxdigit p"
    and ih: "\<And>r'. dropWhile c_isxdigit p = CHR '':'' # r' \<Longrightarrow> v6_scan d (g + 1) (CHR '':'' # r') = v6_counts d (g + 1) (CHR '':'' # r')"
  shows "v6_scan d g p = v6_counts d g p"
proof -
  let ?r = "dropWhile c_isxdigit p"
  have p: "p = m @ ?r" using n by simp
  have m: "list_all c_isxdigit m" using n(2) by (auto simp: list_all_iff dest: set_takeWhileD)
  have cp: "colons p = (m @ hd (colons ?r)) # tl (colons ?r)" by (subst p) (rule colons_group [OF m])
  have dp: "dcolons p = dcolons ?r" by (subst p) (rule dcolons_group, use m in \<open>auto simp: list_all_iff\<close>)
  have sc: "v6_scan d g p = (if length m = 0 \<or> length m > 4 then None else
      case ?r of [] \<Rightarrow> Some (d, g + 1) | x # r' \<Rightarrow> if x \<noteq> CHR '':'' then None else v6_scan d (g + 1) (x # r'))"
    using c by (subst v6_scan.simps) (simp add: n Let_def)
  show ?thesis
  proof (cases ?r)
    case Nil
    have "m \<noteq> []" using p n(1) Nil by (metis append_Nil2 list.discI)
    then show ?thesis
      unfolding sc v6_counts_def cp dp Nil using m by (auto simp: v6_group_def)
  next
    case (Cons x r')
    show ?thesis
    proof (cases "x = CHR '':''")
      case True
      have cr: "colons ?r = [] # colons r'" using Cons True by simp
      have r: "hd (colons ?r) = []" "tl (colons ?r) = colons r'" unfolding cr by simp_all
      have e: "v6_scan d (g + 1) ?r = v6_counts d (g + 1) ?r" using ih [of r'] Cons True by simp
      have "m = [] \<Longrightarrow> False" using Cons True n c p by (metis append_Nil list.inject)
      then show ?thesis
        unfolding sc using Cons True e cp dp m r cr by (auto simp: v6_counts_def v6_group_def)
    next
      case False
      have "\<not> c_isxdigit x" using Cons by (metis hd_dropWhile list.discI list.sel(1))
      moreover obtain w where "hd (colons ?r) = x # w" using hd_colons [OF False] Cons by metis
      ultimately have "\<not> v6_group (m @ hd (colons ?r))" by (simp add: v6_group_def)
      then show ?thesis unfolding sc using Cons False cp by (simp add: v6_counts_def)
    qed
  qed
qed

lemma v6_scan_counts: "v6_scan d g p = v6_counts d g p"
proof (induction "length p" arbitrary: d g p rule: less_induct)
  case less
  show ?case
  proof (cases p)
    case Nil
    then show ?thesis by (simp add: v6_scan.simps v6_counts_def v6_group_def)
  next
    case (Cons c r)
    show ?thesis
    proof (cases "c = CHR '':''")
      case True
      have s: "v6_scan d g p = (case r of x # r' \<Rightarrow> if x = CHR '':'' then v6_scan (d + 1) g r' else v6_scan d g r | [] \<Rightarrow> v6_scan d g r)"
        by (subst v6_scan.simps) (simp add: Cons True)
      show ?thesis
        using less [of r d g] less [of "tl r" "d + 1" g] Cons True s
        by (cases r) (auto simp: v6_counts_def v6_group_def dcolons_skip)
    next
      case False
      show ?thesis
      proof (rule v6_counts_group [OF False Cons refl])
        fix r' assume r': "dropWhile c_isxdigit p = CHR '':'' # r'"
        have "length (dropWhile c_isxdigit p) < length p" if "c_isxdigit c"
          using that Cons length_dropWhile_le [of c_isxdigit r] by simp
        then show "v6_scan d (g + 1) (CHR '':'' # r') = v6_counts d (g + 1) (CHR '':'' # r')"
          using less [of "CHR '':'' # r'" d "g + 1"] r' Cons False by fastforce
      qed
    qed
  qed
qed

text \<open>A field \<open>%3u\<close> reads: white space, then up to three bytes of a sign and digits.\<close>

definition v4_field :: "string \<Rightarrow> bool" where
  "v4_field w = (let t = dropWhile c_isspace w; (neg, r) = split_sign t in
     length t \<le> 3 \<and> r \<noteq> [] \<and> list_all c_isdigit r \<and> (if neg then dec_val r = 0 else dec_val r \<le> 255))"

definition scan_field :: "string \<Rightarrow> int option" where
  "scan_field w = (let t = dropWhile c_isspace w; (neg, r) = split_sign t in
     if length t \<le> 3 \<and> r \<noteq> [] \<and> list_all c_isdigit r then Some (if neg then - dec_val r else dec_val r) else None)"

lemma space_dot: "\<not> c_isspace (CHR ''.'')" "\<not> c_isdigit (CHR ''.'')"
  by (simp_all add: c_isspace_def c_isdigit_def)

lemma split_sign_append:
  assumes "rest = [] \<or> hd rest = CHR ''.''"
  shows "split_sign (t @ rest) = (fst (split_sign t), snd (split_sign t) @ rest)"
  using assms by (cases t; cases rest) (auto simp: split_sign_def)

lemma split_sign_length: "length t - length (snd (split_sign t)) + length (snd (split_sign t)) = length t"
  by (auto simp: split_sign_def split: list.split)

lemma takeWhile_take_append:
  assumes "rest = [] \<or> \<not> P (hd rest)"
  shows "takeWhile P (take m (xs @ rest)) = takeWhile P (take m xs)"
proof -
  have "takeWhile P (take k rest) = []" for k using assms by (cases rest; cases k) auto
  then show ?thesis
    by (simp add: takeWhile_append) (metis takeWhile_eq_all_conv)
qed

lemma scan_int_field:
  assumes rest: "rest = [] \<or> hd rest = CHR ''.''" and w: "CHR ''.'' \<notin> set w"
  shows "scan_int 3 (w @ rest) = (case scan_field w of
      Some v \<Rightarrow> Some (v, rest)
    | None \<Rightarrow> scan_int 3 (w @ rest)) \<and>
    (scan_field w = None \<longrightarrow> scan_int 3 (w @ rest) = None \<or>
      (\<exists>v c r. scan_int 3 (w @ rest) = Some (v, c # r) \<and> c \<noteq> CHR ''.''))"
proof -
  define t where "t = dropWhile c_isspace w"
  obtain neg r where sr: "split_sign t = (neg, r)" by fastforce
  define m where "m = 3 - (length t - length r)"
  define ds where "ds = takeWhile c_isdigit (take m r)"
  have tw: "set t \<subseteq> set w" unfolding t_def by (auto dest: set_dropWhileD)
  have rt: "set r \<subseteq> set t" "length t - length r + length r = length t"
    using sr split_sign_length [of t] by (auto simp: split_sign_def split: list.splits if_splits)
  have d: "dropWhile c_isspace (w @ rest) = t @ rest"
    using rest space_dot(1) unfolding t_def by (cases rest) (auto simp: dropWhile_append dropWhile_eq_Nil_conv)
  have "takeWhile c_isdigit (take m (r @ rest)) = ds"
    unfolding ds_def by (rule takeWhile_take_append) (use rest space_dot(2) in auto)
  then have si: "scan_int 3 (w @ rest) = (if ds = [] then None
      else Some (if neg then - dec_val ds else dec_val ds, drop (length ds) r @ rest))"
    using takeWhile_eq_take [of c_isdigit "take m r"] length_takeWhile_le [of c_isdigit "take m r"]
    by (simp add: scan_int_def d split_sign_append [OF rest] sr Let_def m_def [symmetric] ds_def [symmetric])
  have "length t \<le> 3 \<longleftrightarrow> length r \<le> m" using rt(2) sr unfolding m_def
    by (auto simp: split_sign_def split: list.splits if_splits)
  then have full: "scan_field w = (if r \<noteq> [] \<and> list_all c_isdigit r \<and> length r \<le> m
      then Some (if neg then - dec_val r else dec_val r) else None)"
    by (simp add: scan_field_def t_def [symmetric] sr Let_def)
  have dsr: "list_all c_isdigit r \<and> length r \<le> m \<Longrightarrow> ds = r"
    unfolding ds_def by (auto simp: list_all_iff takeWhile_eq_all_conv)
  have ddig: "list_all c_isdigit ds" "length ds \<le> m" "ds = take (length ds) r"
    unfolding ds_def using length_takeWhile_le [of c_isdigit "take m r"]
    by (auto simp: list_all_iff dest: set_takeWhileD) (metis min.absorb1 take_take takeWhile_eq_take length_take min.bounded_iff)
  show ?thesis
  proof (cases "scan_field w")
    case (Some v)
    then have r: "r \<noteq> []" "list_all c_isdigit r" "length r \<le> m" "v = (if neg then - dec_val r else dec_val r)"
      using full by (auto split: if_splits)
    then show ?thesis using si dsr Some by simp
  next
    case None
    have "drop (length ds) r \<noteq> []" if "ds \<noteq> []"
    proof
      assume "drop (length ds) r = []"
      then have "ds = r" using ddig(3) by simp
      then show False using None full ddig(1,2) that by (simp split: if_splits)
    qed
    moreover have "c \<noteq> CHR ''.''" if "drop (length ds) r = c # u" for c u
      using that w tw rt(1) by (metis in_set_dropD list.set_intros(1) subsetD)
    ultimately show ?thesis using si None by (cases "drop (length ds) r") auto
  qed
qed

lemma dotted_cases:
  obtains (one) "dotted s = [s]" "CHR ''.'' \<notin> set s"
  | (more) w s' where "s = w @ CHR ''.'' # s'" "CHR ''.'' \<notin> set w" "dotted s = w # dotted s'"
proof (cases "CHR ''.'' \<in> set s")
  case True
  then obtain w s' where s: "s = w @ CHR ''.'' # s'" "CHR ''.'' \<notin> set w" by (metis split_list_first)
  moreover have "dotted s = w # dotted s'"
    unfolding dotted_def s(1) using split_on_word [of w "\<lambda>c. c = CHR ''.''" "CHR ''.'' # s'"] s(2) by auto
  ultimately show ?thesis by (rule more)
next
  case False
  then have "dotted s = [s]" using split_on_word [of s "\<lambda>c. c = CHR ''.''" "[]"] by (auto simp: dotted_def)
  then show ?thesis using False by (rule one)
qed

lemma dotted_ne [simp]: "dotted s \<noteq> []"
  by (simp add: dotted_def)

lemma v4_fields_dotted:
  "v4_fields (Suc n) s = (if length (dotted s) = Suc n \<and> list_all (\<lambda>w. scan_field w \<noteq> None) (dotted s)
     then Some (map (\<lambda>w. u32_of (the (scan_field w))) (dotted s)) else None)"
proof (induction n arbitrary: s)
  case 0
  show ?case
  proof (cases s rule: dotted_cases)
    case one
    then show ?thesis using scan_int_field [of "[]" s] by (cases "scan_field s") auto
  next
    case (more w s')
    then show ?thesis
      using scan_int_field [of "CHR ''.'' # s'" w] by (cases "scan_field w") auto
  qed
next
  case (Suc n)
  show ?case
  proof (cases s rule: dotted_cases)
    case one
    then show ?thesis using scan_int_field [of "[]" s] by (cases "scan_field s") auto
  next
    case (more w s')
    then show ?thesis
      using scan_int_field [of "CHR ''.'' # s'" w] Suc [of s'] by (cases "scan_field w") (auto simp del: v4_fields.simps(2) simp: v4_fields.simps(2) [of "Suc n"])
  qed
qed

lemma dec_val_nonneg: "list_all c_isdigit ds \<Longrightarrow> 0 \<le> dec_val ds"
  using dec_val_mono [of ds "[]"] by simp

lemma dec_val_short: "list_all c_isdigit ds \<Longrightarrow> dec_val ds < 10 ^ length ds"
proof (induction ds rule: rev_induct)
  case (snoc c ds)
  then have "dec_val ds + 1 \<le> 10 ^ length ds" "digit_val c \<le> 9" by (simp_all add: c_isdigit_def digit_val_def)
  then show ?case by (simp add: dec_val_snoc)
qed (simp add: dec_val_def)

lemma v4_field_scan: "v4_field w \<longleftrightarrow> (case scan_field w of None \<Rightarrow> False | Some v \<Rightarrow> u32_of v \<le> 255)"
proof -
  define t where "t = dropWhile c_isspace w"
  obtain neg r where sr: "split_sign t = (neg, r)" by fastforce
  have "u32_of (if neg then - dec_val r else dec_val r) \<le> 255 \<longleftrightarrow> (if neg then dec_val r = 0 else dec_val r \<le> 255)"
    if "length t \<le> 3" "list_all c_isdigit r"
  proof -
    have "length r \<le> length t" using sr by (auto simp: split_sign_def split: list.splits if_splits)
    then have "dec_val r < 10 ^ 3"
      using dec_val_short [OF that(2)] power_increasing [of "length r" 3 "10::int"] that(1) by linarith
    then have "0 \<le> dec_val r" "dec_val r < 1000" using dec_val_nonneg [OF that(2)] by auto
    then show ?thesis by (auto simp: u32_of_def zmod_zminus1_eq_if)
  qed
  then show ?thesis
    by (auto simp: v4_field_def scan_field_def t_def [symmetric] sr Let_def)
qed

lemma v4_shape_fields: "v4_shape s \<longleftrightarrow> length (dotted s) = 4 \<and> list_all v4_field (dotted s)"
proof -
  have "v4_fields 4 s = (if length (dotted s) = 4 \<and> list_all (\<lambda>w. scan_field w \<noteq> None) (dotted s)
     then Some (map (\<lambda>w. u32_of (the (scan_field w))) (dotted s)) else None)"
    using v4_fields_dotted [of 3 s] by simp
  moreover have "list_all v4_field ws \<longleftrightarrow> list_all (\<lambda>w. scan_field w \<noteq> None) ws
      \<and> list_all (\<lambda>v. v \<le> 255) (map (\<lambda>w. u32_of (the (scan_field w))) ws)" for ws
    by (induction ws) (auto simp: v4_field_scan split: option.splits)
  ultimately show ?thesis unfolding v4_shape_def by (auto split: if_splits)
qed

lemma prefix_scan_spec:
  assumes "list_all c_isdigit w" "dec_val w \<le> 128"
  shows "prefix_scan (dec_val w) p = (if list_all c_isdigit p \<and> dec_val (w @ p) \<le> 128 then Some (dec_val (w @ p)) else None)"
  using assms
proof (induction p arbitrary: w)
  case (Cons c p)
  show ?case
  proof (cases "c_isdigit c")
    case True
    have "dec_val (w @ [c]) \<le> dec_val (w @ c # p)" if "list_all c_isdigit p"
      using dec_val_mono [of "w @ [c]" p] Cons.prems(1) True that by simp
    then show ?thesis
      using Cons.IH [of "w @ [c]"] Cons.prems True by (auto simp: dec_val_snoc Let_def)
  qed simp
qed simp

text \<open>Which address ranges pass the check.  Accepted are exactly the strings of 1 to 63 bytes that
  consist of an address and optionally a slash and a decimal prefix length of at most 128, or 32
  without a colon, where an address without a colon has four fields between dots, each of white space
  followed by up to three bytes of sign and digits with a value of at most 255, and an address with
  colons has groups of at most four hexadecimal digits between them: eight non-empty groups, or up to
  seven and one double colon.\<close>

theorem cidr_valid_spec:
  "ntpmon_cidr_valid s \<longleftrightarrow> s \<noteq> [] \<and> length s < 64 \<and>
    (let a = before_chr (CHR ''/'') s in
      (case after_chr (CHR ''/'') s of None \<Rightarrow> True
       | Some p \<Rightarrow> p \<noteq> [] \<and> list_all c_isdigit p \<and> dec_val p \<le> (if CHR '':'' \<in> set a then 128 else 32)) \<and>
      (if CHR '':'' \<in> set a
       then list_all v6_group (colons a) \<and>
         (dcolons a, length (filter (\<lambda>w. w \<noteq> []) (colons a))) \<in> {(0, 8)} \<union> {1} \<times> {..7}
       else length (dotted a) = 4 \<and> list_all v4_field (dotted a)))"
proof -
  let ?a = "before_chr (CHR ''/'') s"
  have v6: "v6_shape ?a \<longleftrightarrow> list_all v6_group (colons ?a) \<and>
      (dcolons ?a, length (filter (\<lambda>w. w \<noteq> []) (colons ?a))) \<in> {(0, 8)} \<union> {1} \<times> {..7}" if "CHR '':'' \<in> set ?a"
    using that by (auto simp: v6_shape_def v6_scan_counts v6_counts_def)
  have pre: "prefix_scan 0 p = (if list_all c_isdigit p \<and> dec_val p \<le> 128 then Some (dec_val p) else None)" for p
    using prefix_scan_spec [of "[]" p] by (simp add: dec_val_def)
  have ne: "?a \<noteq> [] \<or> \<not> (length (dotted ?a) = 4)" by (auto simp: dotted_def)
  have len: "length s < 64 \<Longrightarrow> length ?a < 64"
    using length_takeWhile_le [of "\<lambda>x. x \<noteq> CHR ''/''" s] by (simp add: before_chr_def)
  have h: "p \<noteq> [] \<Longrightarrow> list_all c_isdigit p \<Longrightarrow> c_isdigit (hd p)" for p by (cases p) simp_all
  show ?thesis
  proof (cases "CHR '':'' \<in> set ?a")
    case True
    then have "?a \<noteq> []" by auto
    with True v6 len h show ?thesis
      by (cases "after_chr (CHR ''/'') s") (auto simp: ntpmon_cidr_valid_def pre Let_def)
  next
    case False
    with ne len h show ?thesis
      by (cases "after_chr (CHR ''/'') s") (auto simp: ntpmon_cidr_valid_def pre Let_def v4_shape_fields)
  qed
qed

text \<open>Signs and white space, line breaks included, are accepted where no address has them.\<close>

lemma cidr_accepts_blanks: "ntpmon_cidr_valid (nl # ''10.0.0.0/8'')" "ntpmon_cidr_valid ''-0.0.0.0''"
  by code_simp+

section \<open>The rule file\<close>

text \<open>A rule file: comments and one rule per line.\<close>

fun print_entry :: "string + NtpAclRule \<Rightarrow> string" where
  "print_entry (Inl c) = CHR ''#'' # c @ [nl]"
| "print_entry (Inr r) = ar_action r @ '' '' @ ar_cidr r @ [nl]"

definition print_acl :: "(string + NtpAclRule) list \<Rightarrow> string" where
  "print_acl es = concat (map print_entry es)"

definition plain_text :: "string \<Rightarrow> bool" where
  "plain_text s = list_all (\<lambda>c. \<not> c_isspace c \<and> code c \<noteq> 0) s"

fun entry_ok :: "string + NtpAclRule \<Rightarrow> bool" where
  "entry_ok (Inl c) = (list_all (\<lambda>c. c \<noteq> nl \<and> code c \<noteq> 0) c \<and> length c \<le> 250)"
| "entry_ok (Inr r) = ((ar_action r = ''allow'' \<or> ar_action r = ''deny'') \<and> ar_cidr r \<noteq> [] \<and> length (ar_cidr r) < 64
     \<and> plain_text (ar_cidr r))"

lemma fgets_lines_concat:
  assumes "\<And>l. l \<in> set ls \<Longrightarrow> \<exists>u. l = u @ [nl] \<and> nl \<notin> set u \<and> length l < n"
  shows "fgets_lines n (concat ls) = ls"
  using assms
proof (induction ls)
  case Nil
  then show ?case by (simp add: fgets_lines.simps)
next
  case (Cons l ls)
  obtain u where u: "l = u @ [nl]" "nl \<notin> set u" "length l < n" using Cons.prems [of l] by auto
  have "length (takeWhile (\<lambda>c. c \<noteq> nl) (concat (l # ls))) = length u"
  proof -
    have "takeWhile (\<lambda>c. c \<noteq> nl) (u @ nl # concat ls) = u"
      using u(2) by (subst takeWhile_append2) auto
    then show ?thesis by (simp add: u(1))
  qed
  then have f: "fgets_len n (concat (l # ls)) = length l" using u by (simp add: fgets_len_def)
  have "concat (l # ls) \<noteq> []" using u by simp
  then have "fgets_lines n (concat (l # ls)) = l # fgets_lines n (concat ls)"
    unfolding fgets_lines.simps [of n "concat (l # ls)"] f by simp
  with Cons show ?case by simp
qed

lemma plain_text_simps: "plain_text s \<Longrightarrow> c \<in> set s \<Longrightarrow> \<not> c_isspace c" "plain_text s \<Longrightarrow> c \<in> set s \<Longrightarrow> code c \<noteq> 0"
  by (auto simp: plain_text_def list_all_iff)

lemma scan_word_plain:
  assumes "plain_text x" "x \<noteq> []" "length x \<le> w" "rest = [] \<or> c_isspace (hd rest)"
  shows "scan_word w (x @ rest) = Some (x, rest)"
proof -
  have h: "\<not> c_isspace (hd x)" using assms(1,2) by (cases x) (auto simp: plain_text_def)
  have d: "dropWhile c_isspace (x @ rest) = x @ rest" using h assms(2) by (cases x) auto
  have "takeWhile (\<lambda>c. \<not> c_isspace c) (x @ rest) = x"
    using assms(1,4) by (cases rest) (auto simp: takeWhile_append plain_text_def list_all_iff)
  moreover have "0 < w" using assms(2,3) by (cases w) auto
  ultimately show ?thesis using d assms(2,3) by (simp add: scan_word_def Let_def)
qed

lemma scan_word_skip: "scan_word w (CHR '' '' # s) = scan_word w s"
  by (simp add: scan_word_def c_isspace_def)

lemma acl_line_entry:
  "entry_ok en \<Longrightarrow> acl_line (print_entry en) = (case en of Inl _ \<Rightarrow> None | Inr r \<Rightarrow> Some r)"
proof (cases en)
  case (Inl c)
  then show ?thesis by (simp add: acl_line_def cstr_def)
next
  case (Inr r)
  assume ok: "entry_ok en"
  then have a: "ar_action r = ''allow'' \<or> ar_action r = ''deny''" and c: "ar_cidr r \<noteq> []" "length (ar_cidr r) < 64" "plain_text (ar_cidr r)"
    using Inr by auto
  have pa: "plain_text (ar_action r)" "ar_action r \<noteq> []" "length (ar_action r) \<le> 7"
    using a by (auto simp: plain_text_def c_isspace_def)
  have nz: "cstr (print_entry en) = print_entry en"
    by (rule cstr_id) (use Inr pa(1) c(3) plain_text_simps in auto)
  have "hd (ar_action r) \<notin> {CHR '' '', CHR 0x09, CHR ''#'', nl}" using a by auto
  then have d: "dropWhile (\<lambda>c. c = CHR '' '' \<or> c = CHR 0x09) (print_entry en) = print_entry en"
    "hd (print_entry en) \<noteq> CHR ''#''" "hd (print_entry en) \<noteq> nl" "print_entry en \<noteq> []"
    using pa(2) Inr by (cases "ar_action r"; auto)+
  have s1: "scan_word 7 (print_entry en) = Some (ar_action r, '' '' @ ar_cidr r @ [nl])"
    using scan_word_plain [OF pa, of "'' '' @ ar_cidr r @ [nl]"] Inr by (simp add: c_isspace_def)
  have s2: "scan_word 63 ('' '' @ ar_cidr r @ [nl]) = Some (ar_cidr r, [nl])"
    using scan_word_plain [OF c(3,1), of 63 "[nl]"] c(2) by (simp add: scan_word_skip c_isspace_def)
  have "snprintf_s 8 (ar_action r) = ar_action r" "snprintf_s 64 (ar_cidr r) = ar_cidr r"
    using pa(3) c(2) by (simp_all add: snprintf_s_def)
  then show ?thesis
    using nz d s1 s2 a Inr by (simp add: acl_line_def Let_def)
qed

lemma entry_line: "entry_ok en \<Longrightarrow> \<exists>u. print_entry en = u @ [nl] \<and> nl \<notin> set u \<and> length (print_entry en) < 256"
proof (cases en)
  case (Inl c)
  assume "entry_ok en"
  with Inl show ?thesis by (intro exI [of _ "CHR ''#'' # c"]) (auto simp: list_all_iff)
next
  case (Inr r)
  assume ok: "entry_ok en"
  have "nl \<notin> set (ar_cidr r)" using ok Inr plain_text_simps(1) [of "ar_cidr r" nl] by (auto simp: c_isspace_def)
  moreover have "nl \<notin> set (ar_action r)" "length (ar_action r) \<le> 7" using ok Inr by auto
  ultimately show ?thesis using ok Inr by (intro exI [of _ "ar_action r @ '' '' @ ar_cidr r"]) auto
qed

lemma acl_find_iff:
  "a \<noteq> [] \<Longrightarrow> 0 \<le> i \<Longrightarrow> 0 \<le> acl_find_from i rs (Some a) c \<longleftrightarrow> (\<exists>r \<in> set rs. ar_action r = a \<and> ar_cidr r = c)"
  by (induction rs arbitrary: i) (auto simp: opt_text_def)

text \<open>The rule file is read back.  From a file of comments and rules, one per line, loading
  returns the rules in order, the first 64 of them, and the search for an action and a range finds
  it exactly when such a rule was loaded.\<close>

theorem acl_load_roundtrip:
  assumes "list_all entry_ok es" "files (acl_file e) = Some (print_acl es)" "a \<noteq> []"
  shows "\<exists>rs. ntpmon_acl_load e files 64 = Some rs \<and> rs = take 64 (List.map_filter (case_sum (\<lambda>_. None) Some) es)
    \<and> (0 \<le> ntpmon_acl_find rs (Some a) c \<longleftrightarrow> \<lparr>ar_action = a, ar_cidr = c\<rparr> \<in> set rs)"
proof -
  have "fgets_lines 256 (print_acl es) = map print_entry es"
    unfolding print_acl_def
    by (rule fgets_lines_concat) (use assms(1) entry_line in \<open>auto simp: list_all_iff\<close>)
  moreover have "List.map_filter acl_line (map print_entry es) = List.map_filter (case_sum (\<lambda>_. None) Some) es"
    using assms(1) by (induction es) (auto simp: List.map_filter_simps acl_line_entry split: sum.split option.split)
  ultimately have "ntpmon_acl_load e files 64 = Some (take 64 (List.map_filter (case_sum (\<lambda>_. None) Some) es))"
    using assms(2) by (simp add: ntpmon_acl_load_def)
  moreover have "0 \<le> ntpmon_acl_find rs (Some a) c \<longleftrightarrow> \<lparr>ar_action = a, ar_cidr = c\<rparr> \<in> set rs" for rs
  proof -
    have "(\<exists>r \<in> set rs. ar_action r = a \<and> ar_cidr r = c) \<longleftrightarrow> \<lparr>ar_action = a, ar_cidr = c\<rparr> \<in> set rs"
    proof
      assume "\<exists>r \<in> set rs. ar_action r = a \<and> ar_cidr r = c"
      then obtain r where r: "r \<in> set rs" "ar_action r = a" "ar_cidr r = c" by blast
      then have "r = \<lparr>ar_action = a, ar_cidr = c\<rparr>" by simp
      with r(1) show "\<lparr>ar_action = a, ar_cidr = c\<rparr> \<in> set rs" by simp
    next
      assume "\<lparr>ar_action = a, ar_cidr = c\<rparr> \<in> set rs"
      then show "\<exists>r \<in> set rs. ar_action r = a \<and> ar_cidr r = c" by (rule bexI [rotated]) simp
    qed
    then show ?thesis using acl_find_iff [OF assms(3), of 0 rs c] by (simp add: ntpmon_acl_find_def)
  qed
  ultimately show ?thesis by blast
qed

theorem acl_load_roundtrip_witness:
  "ntpmon_acl_load form_env (\<lambda>_. Some (print_acl [Inl '' rules'', Inr \<lparr>ar_action = ''allow'', ar_cidr = ''10.0.0.0/8''\<rparr>])) 64
    = Some [\<lparr>ar_action = ''allow'', ar_cidr = ''10.0.0.0/8''\<rparr>]"
  using acl_load_roundtrip [of "[Inl '' rules'', Inr \<lparr>ar_action = ''allow'', ar_cidr = ''10.0.0.0/8''\<rparr>]"
      "\<lambda>_. Some (print_acl [Inl '' rules'', Inr \<lparr>ar_action = ''allow'', ar_cidr = ''10.0.0.0/8''\<rparr>])" form_env "''deny''" "[]"]
  by (auto simp: plain_text_def c_isspace_def List.map_filter_simps)

section \<open>When the helper runs\<close>

lemma acl_line_action: "acl_line l = Some r \<Longrightarrow> ar_action r = ''allow'' \<or> ar_action r = ''deny''"
  by (auto simp: acl_line_def Let_def snprintf_s_def split: if_splits option.splits)

lemma acl_load_action:
  assumes "ntpmon_acl_load e files n = Some rs" "r \<in> set rs"
  shows "ar_action r = ''allow'' \<or> ar_action r = ''deny''"
  using assms acl_line_action
  by (fastforce simp: ntpmon_acl_load_def List.map_filter_def split: option.splits dest: in_set_takeD)

lemma acl_find_nth:
  "0 \<le> acl_find_from i rs a c \<Longrightarrow> 0 \<le> i \<Longrightarrow> i \<le> acl_find_from i rs a c
     \<and> nat (acl_find_from i rs a c - i) < length rs
     \<and> ar_cidr (rs ! nat (acl_find_from i rs a c - i)) = c
     \<and> (opt_text a = [] \<or> ar_action (rs ! nat (acl_find_from i rs a c - i)) = opt_text a)"
proof (induction rs arbitrary: i)
  case (Cons r rs)
  show ?case
  proof (cases "ar_cidr r = c \<and> (opt_text a = [] \<or> ar_action r = opt_text a)")
    case False
    then have e: "acl_find_from i (r # rs) a c = acl_find_from (i + 1) rs a c" by auto
    have "nat (acl_find_from (i + 1) rs a c - i) = Suc (nat (acl_find_from (i + 1) rs a c - (i + 1)))"
      using Cons.IH [of "i + 1"] Cons.prems e by auto
    then show ?thesis using Cons.IH [of "i + 1"] Cons.prems e by auto
  qed auto
qed simp

text \<open>The rule a request is about, and whether it is in the file.\<close>

definition acl_known :: "env \<Rightarrow> (string \<Rightarrow> string option) \<Rightarrow> string \<Rightarrow> string \<Rightarrow> bool" where
  "acl_known e files action cidr = (case ntpmon_acl_load e files NTPMON_MAX_RULES of None \<Rightarrow> False
     | Some rs \<Rightarrow> list_ex (\<lambda>r. ar_action r = action \<and> ar_cidr r = cidr) rs)"

definition acl_cmd_ok :: "env \<Rightarrow> (string \<Rightarrow> string option) \<Rightarrow> string list \<Rightarrow> bool" where
  "acl_cmd_ok e files argv \<longleftrightarrow> (\<exists>op action cidr. argv = helper_argv e op (Some action) cidr
     \<and> get_post_param e ''op'' = Some op \<and> get_post_param e ''cidr'' = Some cidr \<and> ntpmon_cidr_valid cidr
     \<and> (action = ''allow'' \<or> action = ''deny'')
     \<and> (op = ''add'' \<and> get_post_param e ''action'' = Some action \<and> \<not> acl_known e files action cidr
        \<or> op = ''remove'' \<and> acl_known e files action cidr))"

lemma acl_request_ok:
  assumes "acl_request_error op action cidr = None"
  obtains c o' where "op = Some o'" "cidr = Some c" "ntpmon_cidr_valid c"
    "o' = ''add'' \<and> (action = Some ''allow'' \<or> action = Some ''deny'')
     \<or> o' = ''remove'' \<and> (opt_text action = [] \<or> action = Some ''allow'' \<or> action = Some ''deny'')"
  using assms
  by (cases op; cases cidr; cases action) (auto simp: acl_request_error_def opt_text_def split: if_splits)

lemma log_acl_apply:
  "snd (fst (ntpmon_acl_apply e (logged run) op action cidr n sl)) = snd sl @ [helper_argv e op action cidr]"
  by (auto simp: ntpmon_acl_apply_def logged_def Let_def split: prod.split nm_result.split)

lemma snd_answer: "snd (case x of (s', None) \<Rightarrow> (F s', s') | (s', Some err) \<Rightarrow> (G s' err, s')) = fst x"
  by (auto split: prod.split option.split)

lemma log_acl_op:
  "snd (snd (handle_acl_op e (logged run) session (w, s, []))) = [] \<or>
   (\<exists>argv. snd (snd (handle_acl_op e (logged run) session (w, s, []))) = [argv] \<and> acl_cmd_ok e (w_files w) argv)"
proof (cases "acl_request_error (get_post_param e ''op'') (get_post_param e ''action'') (get_post_param e ''cidr'')")
  case None
  obtain c op where r: "get_post_param e ''op'' = Some op" "get_post_param e ''cidr'' = Some c" "ntpmon_cidr_valid c"
    "op = ''add'' \<and> (get_post_param e ''action'' = Some ''allow'' \<or> get_post_param e ''action'' = Some ''deny'')
     \<or> op = ''remove'' \<and> (opt_text (get_post_param e ''action'') = [] \<or> get_post_param e ''action'' = Some ''allow'' \<or> get_post_param e ''action'' = Some ''deny'')"
    by (rule acl_request_ok [OF None])
  define act where "act = get_post_param e ''action''"
  define rules where "rules = ntpmon_acl_load e (w_files w) 64"
  define idx where "idx = (case rules of None \<Rightarrow> -1 | Some rs \<Rightarrow> ntpmon_acl_find rs act c)"
  define a where "a = (if op = ''remove'' \<and> opt_text act = [] \<and> idx \<ge> 0 then Some (ar_action (the rules ! nat idx)) else act)"
  have l: "snd (snd (handle_acl_op e (logged run) session (w, s, []))) =
    (if op = ''add'' \<and> idx \<ge> 0 \<or> op = ''remove'' \<and> idx < 0 then [] else [helper_argv e op a c])"
  proof -
    have "op = ''add'' \<longleftrightarrow> op \<noteq> ''remove''" using r(4) by auto
    moreover have "w_files (cgi_header x w) = w_files w" for x by (simp add: cgi_header_def emit_def)
    ultimately show ?thesis
      using None r(1,2)
      by (auto simp: handle_acl_op_def Let_def act_def [symmetric] rules_def [symmetric] idx_def [symmetric]
          a_def snd_answer log_acl_apply)
  qed
  have known: "acl_known e (w_files w) x c \<longleftrightarrow> 0 \<le> idx" if "act = Some x" "x \<noteq> []" for x
    using acl_find_iff [OF that(2), of 0] that(1)
    by (auto simp: acl_known_def idx_def rules_def ntpmon_acl_find_def list_ex_iff split: option.splits)
  have found: "acl_known e (w_files w) (ar_action (the rules ! nat idx)) c
      \<and> (ar_action (the rules ! nat idx) = ''allow'' \<or> ar_action (the rules ! nat idx) = ''deny'')" if "0 \<le> idx"
  proof -
    obtain rs where rs: "rules = Some rs" using \<open>0 \<le> idx\<close> by (cases rules) (auto simp: idx_def)
    have n: "nat idx < length rs" "ar_cidr (rs ! nat idx) = c"
      using acl_find_nth [of 0 rs act c] \<open>0 \<le> idx\<close> by (auto simp: idx_def rs ntpmon_acl_find_def)
    then show ?thesis
      using acl_load_action [of e "w_files w" 64 rs "rs ! nat idx"] rs
      by (auto simp: acl_known_def rules_def list_ex_iff)
  qed
  show ?thesis
  proof (cases "op = ''add'' \<and> idx \<ge> 0 \<or> op = ''remove'' \<and> idx < 0")
    case False
    have "acl_cmd_ok e (w_files w) (helper_argv e op a c)"
    proof (cases "op = ''remove'' \<and> opt_text act = []")
      case True
      then have "idx \<ge> 0" using False by auto
      then show ?thesis using found r(1-3) True by (auto simp: acl_cmd_ok_def a_def)
    next
      case no: False
      then obtain x where x: "act = Some x" "x = ''allow'' \<or> x = ''deny''" "a = Some x"
        using r(4) by (auto simp: act_def a_def)
      then have "acl_known e (w_files w) x c \<longleftrightarrow> 0 \<le> idx" by (intro known) auto
      then show ?thesis using x r False unfolding acl_cmd_ok_def act_def by force
    qed
    then show ?thesis using l False by auto
  qed (use l in auto)
qed (simp add: handle_acl_op_def Let_def)

text \<open>C33: rules are changed only on behalf of root, and only meaningful changes are asked for.  Whatever
  the request, the program runs at most one command, the rule helper, and only for a root session that
  presents its CSRF token: to add a rule, allow or deny, for an accepted range that is not in the rule
  file with that action, or to remove one that is, always naming the action.\<close>

theorem ntpmon_commands:
  "let l = snd (snd (ntpmon_main e h (logged run) (w, s, []))) in
    l = [] \<or> (\<exists>argv w1 session. l = [argv] \<and> acl_cmd_ok e (w_files w) argv \<and> qs_action e = ''acl_op''
      \<and> gate_json_session e w = (w1, Some session) \<and> si_role session = ''root''
      \<and> get_post_param e ''csrf_token'' = Some (si_csrf_token session))"
proof -
  obtain w1 r where g: "gate_json_session e w = (w1, r)" by fastforce
  show ?thesis
  proof (cases "\<exists>session. r = Some session \<and> qs_action e = ''acl_op'' \<and> auth_require_role session ''root''
      \<and> auth_csrf_verify session (get_post_param e ''csrf_token'')")
    case True
    then obtain session where t: "r = Some session" "qs_action e = ''acl_op''" "auth_require_role session ''root''"
      "auth_csrf_verify session (get_post_param e ''csrf_token'')" by blast
    have "snd (snd (ntpmon_main e h (logged run) (w, s, []))) = snd (snd (handle_acl_op e (logged run) session (w1, s, [])))"
      using g t by (simp add: ntpmon_main_def gate_require_role_def gate_require_csrf_def split: prod.split)
    moreover have "si_role session = ''root''" "get_post_param e ''csrf_token'' = Some (si_csrf_token session)"
      using t(3,4) by (auto simp: auth_require_role_def auth_csrf_verify_def split: option.splits)
    ultimately show ?thesis
      using log_acl_op [of e run session w1 s] g t(1,2) gate_keeps_files [OF g] unfolding Let_def by auto
  next
    case False
    then have "snd (snd (ntpmon_main e h (logged run) (w, s, []))) = []"
      using g by (auto simp: ntpmon_main_def gate_require_role_def gate_require_csrf_def split: option.splits)
    then show ?thesis by simp
  qed
qed

definition sample_csv :: string where
  "sample_csv = ''100,5,0,0,0,0,1,2,3,4'' @ [nl] @ ''junk'' @ [nl] @ ''160,9,0,0,0,0,11,2,3,4'' @ [nl] @ ''220,9,0,0,0,0,12,2,3,4'' @ [nl]"

theorem eth_delta_window_witness:
  "eth_delta (load_rows (Some sample_csv)) 0 90 = 1 \<and> eth_delta (load_rows (Some sample_csv)) 0 3600 = 11"
proof -
  let ?rs = "[\<lparr>nr_t = 100, nr_hits = 5, nr_drops = 0, nr_cmd_hits = 0, nr_cmd_drops = 0, nr_log_drops = 0, nr_eth = [1, 2, 3, 4]\<rparr>,
     \<lparr>nr_t = 160, nr_hits = 9, nr_drops = 0, nr_cmd_hits = 0, nr_cmd_drops = 0, nr_log_drops = 0, nr_eth = [11, 2, 3, 4]\<rparr>,
     \<lparr>nr_t = 220, nr_hits = 9, nr_drops = 0, nr_cmd_hits = 0, nr_cmd_drops = 0, nr_log_drops = 0, nr_eth = [12, 2, 3, 4]\<rparr>]"
  have "csv_rows (Some sample_csv) = ?rs" by code_simp
  then have rs: "?rs = last_n 1441 (csv_rows (Some sample_csv))" by simp
  show ?thesis
    using eth_delta_window [OF _ rs, of 90 0] eth_delta_window [OF _ rs, of 3600 0] by simp
qed

end
