(* ===== verification/Timesync.thy ===== *)
theory Timesync
  imports Network Host
begin

text \<open>
  Synchronisation status and receiver mode control: \<open>src/timesync.c\<close> and \<open>src/timesync.cgi.c\<close>.  The
  serial device and the program \<open>chronyc\<close> are parameters: functions of a state that yield the new state
  and what the program sees of them.
\<close>

section \<open>Receiver modes\<close>

datatype TimesyncMode = TS_MODE_UNKNOWN | TS_MODE_GNSS | TS_MODE_GPS | TS_MODE_BDS | TS_MODE_GAL | TS_MODE_GLO

record ModeEntry =
  me_name :: string
  me_label :: string
  me_cmd :: string

definition g_modes :: "(TimesyncMode \<times> ModeEntry) list" where
  "g_modes =
    [(TS_MODE_GNSS, \<lparr>me_name = ''gnss'', me_label = (''GNSS '' @ utf8 [0xE5, 0x85, 0xA8, 0xE7, 0xB3, 0xBB, 0xE7, 0xBB, 0x9F]), me_cmd = ''$CFGGNSS,h70717D*7D'' @ crlf @ ''$CFGSAVE,h10*06'' @ crlf\<rparr>),
     (TS_MODE_GPS, \<lparr>me_name = ''gps'', me_label = ''GPS'', me_cmd = ''$CFGGNSS,h0D*7B'' @ crlf @ ''$CFGSAVE,h10*06'' @ crlf\<rparr>),
     (TS_MODE_BDS, \<lparr>me_name = ''bds'', me_label = (utf8 [0xE5, 0x8C, 0x97, 0xE6, 0x96, 0x97]), me_cmd = ''$CFGGNSS,h70*08'' @ crlf @ ''$CFGSAVE,h10*06'' @ crlf\<rparr>),
     (TS_MODE_GAL, \<lparr>me_name = ''gal'', me_label = ''Galileo'', me_cmd = ''$CFGGNSS,h7000*08'' @ crlf @ ''$CFGSAVE,h10*06'' @ crlf\<rparr>),
     (TS_MODE_GLO, \<lparr>me_name = ''glo'', me_label = ''GLONASS'', me_cmd = ''$CFGGNSS,h100*3E'' @ crlf @ ''$CFGSAVE,h10*06'' @ crlf\<rparr>)]"

definition mode_entry :: "TimesyncMode \<Rightarrow> ModeEntry option" where
  "mode_entry m = map_of g_modes m"

definition timesync_mode_parse :: "string \<Rightarrow> TimesyncMode" where
  "timesync_mode_parse name = (case List.find (\<lambda>(m, en). me_name en = name) g_modes of
     None \<Rightarrow> TS_MODE_UNKNOWN | Some (m, _) \<Rightarrow> m)"

definition timesync_mode_label :: "TimesyncMode \<Rightarrow> string option" where
  "timesync_mode_label m = map_option me_label (mode_entry m)"

section \<open>The serial device\<close>

text \<open>One \<open>open\<close> and one \<open>write\<close>: refused, or so many bytes accepted; the text is what \<open>strerror\<close> says.\<close>

datatype tty_result = OpenFailed string | Wrote int string

type_synonym 's tty = "'s \<Rightarrow> string \<Rightarrow> string \<Rightarrow> 's \<times> tty_result"

definition ts_dev_path :: "env \<Rightarrow> string" where
  "ts_dev_path e = env_path e ''TIMESYNC_DEV'' ''/dev/ttyS7''"

definition msg_bad_mode :: string where
  "msg_bad_mode = (utf8 [0xE6, 0x97, 0xA0, 0xE6, 0x95, 0x88, 0xE7, 0x9A, 0x84, 0xE6, 0x8E, 0xA5, 0xE6, 0x94, 0xB6, 0xE6, 0x9C, 0xBA, 0xE6, 0xA8, 0xA1, 0xE5, 0xBC, 0x8F])"

definition timesync_set_mode ::
  "env \<Rightarrow> 's tty \<Rightarrow> TimesyncMode \<Rightarrow> nat \<Rightarrow> 's \<Rightarrow> 's \<times> string option" where
  "timesync_set_mode e tty m errlen s = (case mode_entry m of
     None \<Rightarrow> (s, Some (snprintf_s errlen msg_bad_mode))
   | Some en \<Rightarrow>
     let dev = ts_dev_path e; cmd = me_cmd en in
     (case tty s dev cmd of
        (s', OpenFailed er) \<Rightarrow> (s', Some (snprintf_s errlen ((utf8 [0xE6, 0x97, 0xA0, 0xE6, 0xB3, 0x95, 0xE6, 0x89, 0x93, 0xE5, 0xBC, 0x80, 0xE4, 0xB8, 0xB2, 0xE5, 0x8F, 0xA3] @ '' '') @ dev @ '': '' @ er)))
      | (s', Wrote n er) \<Rightarrow>
        if n \<noteq> int (length cmd) then (s', Some (snprintf_s errlen ((utf8 [0xE5, 0x86, 0x99, 0xE5, 0x85, 0xA5, 0xE4, 0xB8, 0xB2, 0xE5, 0x8F, 0xA3] @ '' '') @ dev @ ('' '' @ utf8 [0xE5, 0xA4, 0xB1, 0xE8, 0xB4, 0xA5] @ '': '') @ er)))
        else (s', None)))"

section \<open>The last mode set\<close>

definition ts_modefile_path :: "env \<Rightarrow> string" where
  "ts_modefile_path e = env_path e ''TIMESYNC_MODE_FILE'' ''/var/db/ut986_mode''"

definition mode_text :: "string \<Rightarrow> string \<Rightarrow> string" where
  "mode_text name now = ''mode='' @ name @ [nl] @ ''ts='' @ now @ [nl]"

text \<open>\<open>er\<close> is what \<open>strerror\<close> says of a failure.\<close>

definition timesync_mode_save ::
  "env \<Rightarrow> host \<Rightarrow> string \<Rightarrow> TimesyncMode \<Rightarrow> nat \<Rightarrow> 'a world_scheme \<Rightarrow> 'a world_scheme \<times> string option" where
  "timesync_mode_save e h er m errlen w = (case mode_entry m of
     None \<Rightarrow> (w, Some (snprintf_s errlen msg_bad_mode))
   | Some en \<Rightarrow>
     let path = ts_modefile_path e;
         tmp = snprintf_s 320 (path @ ''.tmp'');
         now = fmt_stamp (localtime h (time_now e));
         text = mode_text (me_name en) now
     in if \<not> w_writable w tmp then (w, Some (snprintf_s errlen ((utf8 [0xE6, 0x97, 0xA0, 0xE6, 0xB3, 0x95, 0xE5, 0x86, 0x99, 0xE5, 0x85, 0xA5] @ '' '') @ tmp @ '': '' @ er)))
        else if \<not> w_writable w path
        then (w\<lparr>w_files := (w_files w)(tmp := Some text)\<rparr>, Some (snprintf_s errlen ((utf8 [0xE6, 0x97, 0xA0, 0xE6, 0xB3, 0x95, 0xE6, 0x9B, 0xB4, 0xE6, 0x96, 0xB0] @ '' '') @ path @ '': '' @ er)))
        else (w\<lparr>w_files := (w_files w)(tmp := None, path := Some text)\<rparr>, None))"

definition strip_eol :: "string \<Rightarrow> string" where
  "strip_eol s = rev (dropWhile (\<lambda>c. c = nl \<or> c = CHR 0x0D) (rev s))"

definition mode_line :: "nat \<Rightarrow> nat \<Rightarrow> string \<Rightarrow> bool \<times> string \<times> string \<Rightarrow> bool \<times> string \<times> string" where
  "mode_line outlen tslen raw st = (case st of (found, out, ts) \<Rightarrow>
     let line = strip_eol (cstr raw) in
     if has_prefix ''mode='' line then (True, snprintf_s outlen (drop 5 line), ts)
     else if has_prefix ''ts='' line then (found, out, snprintf_s tslen (drop 3 line))
     else st)"

definition timesync_mode_last :: "env \<Rightarrow> nat \<Rightarrow> nat \<Rightarrow> (string \<Rightarrow> string option) \<Rightarrow> bool \<times> string \<times> string" where
  "timesync_mode_last e outlen tslen files = (case files (ts_modefile_path e) of
     None \<Rightarrow> (False, [], [])
   | Some text \<Rightarrow> fold (mode_line outlen tslen) (fgets_lines 128 text) (False, [], []))"

section \<open>Running chronyc\<close>

definition ts_argv :: "env \<Rightarrow> string list \<Rightarrow> string list" where
  "ts_argv e argv = (let ov = opt_text (getenv e ''CHRONYC_OVERRIDE'') in
     (if ov = [] then hd argv else ov) # take 14 (tl argv))"

definition ts_exec :: "env \<Rightarrow> 's nmcli \<Rightarrow> string list \<Rightarrow> nat \<Rightarrow> nat \<Rightarrow> 's \<Rightarrow> 's \<times> (string + string)" where
  "ts_exec e run argv outlen errlen s = (case run s (ts_argv e argv) of
     (s', PipeFailed) \<Rightarrow> (s', Inl (snprintf_s errlen ''pipe failed''))
   | (s', ForkFailed) \<Rightarrow> (s', Inl (snprintf_s errlen ''fork failed''))
   | (s', Exited ok text) \<Rightarrow>
       let out = cstr (take (outlen - 1) text) in
       if ok then (s', Inr out) else (s', Inl (snprintf_s errlen (hd argv @ ('' '' @ utf8 [0xE5, 0xA4, 0xB1, 0xE8, 0xB4, 0xA5] @ '': '') @ out))))"

section \<open>chronyc output\<close>

fun hex_pairs :: "string \<Rightarrow> string" where
  "hex_pairs (a # b # s) = to_char (hexs_val [a, b]) # hex_pairs s"
| "hex_pairs _ = []"

definition decode_field :: "string \<Rightarrow> nat \<Rightarrow> string" where
  "decode_field s outlen =
    (if length s \<ge> 16 \<and> even (length s) \<and> list_all c_isxdigit s then cstr (take (outlen - 1) (hex_pairs s))
     else snprintf_s outlen s)"

primrec split_csv :: "nat \<Rightarrow> string \<Rightarrow> string list" where
  "split_csv 0 s = [s]"
| "split_csv (Suc n) s = (if n = 0 then [s]
     else (case after_chr (CHR '','') s of None \<Rightarrow> [s] | Some r \<Rightarrow> before_chr (CHR '','') s # split_csv n r))"

definition fld :: "string list \<Rightarrow> nat \<Rightarrow> string" where
  "fld f k = (if k < length f then f ! k else [])"

definition source_json :: "string list \<Rightarrow> string" where
  "source_json f =
    (let three = (length f > 1 \<and> length (f ! 1) = 1); k = (if three then 1 else 0);
         ms = snprintf_s 64 (if three then f ! 0 @ f ! 1 else fld f 0);
         nm = snprintf_s 128 (fld f (k + 1)); stratum = snprintf_s 32 (fld f (k + 2));
         pol = snprintf_s 32 (fld f (k + 3)); reach = snprintf_s 32 (fld f (k + 4));
         last_rx = snprintf_s 32 (fld f (k + 5)); last_sample = decode_field (fld f (k + 6)) 128
     in ''{\"ms\":\"'' @ json_escape ms 256 @ ''\",\"name\":\"'' @ json_escape nm 512 @ ''\",\"stratum\":\"'' @ json_escape stratum 64
        @ ''\",\"poll\":\"'' @ json_escape pol 64 @ ''\",\"reach\":\"'' @ json_escape reach 64 @ ''\",\"last_rx\":\"''
        @ json_escape last_rx 64 @ ''\",\"last_sample\":\"'' @ json_escape last_sample 128 @ ''\"}'')"

definition is_eol :: "char \<Rightarrow> bool" where
  "is_eol c \<longleftrightarrow> c = CHR 0x0D \<or> c = nl"

lemma dropWhile_tail_shorter: "dropWhile P s = x # r \<Longrightarrow> length (dropWhile Q r) < length s"
  using length_dropWhile_le [of P s] length_dropWhile_le [of Q r] by simp

text \<open>The row loop; the first argument is \<open>TS_MAX_SOURCES - rows\<close>.\<close>

function source_rows :: "nat \<Rightarrow> string \<Rightarrow> string list" where
  "source_rows room line =
    (if line = [] \<or> room = 0 then []
     else let row = takeWhile (\<lambda>c. \<not> is_eol c) line;
              objs = (if row = [] then [] else [source_json (split_csv 8 row)])
          in case dropWhile (\<lambda>c. \<not> is_eol c) line of
               [] \<Rightarrow> objs
             | _ # r \<Rightarrow> objs @ source_rows (room - length objs) (dropWhile (\<lambda>c. c = nl) r))"
  by pat_completeness auto
termination
  by (relation "measure (length \<circ> snd)") (auto dest: dropWhile_tail_shorter)

declare source_rows.simps [simp del]

definition emit_sources :: "string \<Rightarrow> string list" where
  "emit_sources csv = commas (source_rows 8 (snprintf_s 4096 csv))"

definition keys3 :: "string list" where
  "keys3 = [''ref_id'', ''ref_name'', ''stratum'', ''ref_time'', ''system_time'', ''last_offset'', ''rms_offset'', ''frequency'',
     ''residual_freq'', ''skew'', ''root_delay'', ''root_dispersion'', ''update_interval'', ''leap_status'']"

definition keys4 :: "string list" where
  "keys4 = [''ref_id'', ''stratum'', ''ref_time'', ''system_time'', ''last_offset'', ''rms_offset'', ''frequency'',
     ''residual_freq'', ''skew'', ''root_delay'', ''root_dispersion'', ''update_interval'', ''leap_status'']"

definition tracking_member :: "string list \<Rightarrow> nat \<Rightarrow> string \<Rightarrow> string" where
  "tracking_member f i k = ''\"'' @ k @ ''\":\"'' @ json_escape (decode_field (fld f i) 128) 256 @ ''\"''"

definition emit_tracking :: "string \<Rightarrow> string list" where
  "emit_tracking csv = (let f = split_csv 14 (strip_eol (snprintf_s 4096 csv));
       ks = (if length f \<ge> 14 then keys3 else keys4)
     in [''{''] @ commas (map (\<lambda>(i, k). tracking_member f i k) (zip [0..<length ks] ks)) @ [''}''])"

section \<open>State files and the status document\<close>

definition kv_line :: "string \<Rightarrow> string option" where
  "kv_line raw = (let line = cstr raw in case after_chr (CHR ''='') line of None \<Rightarrow> None
     | Some v \<Rightarrow>
       let key = before_chr (CHR ''='') line; val = strip_eol v in
       if key = [] then None
       else if \<not> list_all (\<lambda>c. c_isalnum c \<or> c = CHR ''_'') key then None
       else Some ('',\"'' @ key @ ''\":\"'' @ json_escape val 256 @ ''\"''))"

definition emit_kv_file :: "string option \<Rightarrow> string list" where
  "emit_kv_file f = (case f of None \<Rightarrow> [] | Some text \<Rightarrow> List.map_filter kv_line (fgets_lines 256 text))"

definition ts_dir :: "env \<Rightarrow> string" where
  "ts_dir e = env_path e ''TIMESYNC_STATUS_DIR'' ''/run/pps_tod''"

definition ts_file_age :: "env \<Rightarrow> host \<Rightarrow> string \<Rightarrow> int" where
  "ts_file_age e h path = (case stat h path of None \<Rightarrow> -1 | Some st \<Rightarrow> time_now e - st_mtime st)"

definition state_pieces :: "env \<Rightarrow> host \<Rightarrow> (string \<Rightarrow> string option) \<Rightarrow> string \<Rightarrow> string \<Rightarrow> string list" where
  "state_pieces e h files key file = (let p = snprintf_s 256 (ts_dir e @ ''/'' @ file); age = ts_file_age e h p in
     [''\"'' @ key @ ''\":{\"ok\":'' @ json_bool (age \<ge> 0) @ '',\"age_s\":'' @ dec_int age]
     @ (if age \<ge> 0 then emit_kv_file (files p) else []) @ [''},''])"

definition receiver_pieces :: "env \<Rightarrow> (string \<Rightarrow> string option) \<Rightarrow> string list" where
  "receiver_pieces e files = (case timesync_mode_last e 32 64 files of (have, mode, setat) \<Rightarrow>
     [''\"receiver\":{\"last_mode\":\"'' @ json_escape (if have then mode else []) 64 @ ''\",\"set_at\":\"''
      @ json_escape (if have then setat else []) 128 @ ''\"}'', ''}''])"

definition sources_pieces :: "string + string \<Rightarrow> string list" where
  "sources_pieces r = (case r of
     Inr buf \<Rightarrow> [''true,\"sources\":[''] @ emit_sources buf @ ['']'']
   | Inl cerr \<Rightarrow> [''false,\"error\":\"'' @ json_escape cerr 300 @ ''\"''])"

definition tracking_pieces :: "string + string \<Rightarrow> string list" where
  "tracking_pieces r = (case r of Inr buf \<Rightarrow> emit_tracking buf
   | Inl cerr \<Rightarrow> [''{\"error\":\"'' @ json_escape cerr 300 @ ''\"}''])"

definition timesync_status_json ::
  "env \<Rightarrow> host \<Rightarrow> 's nmcli \<Rightarrow> (string \<Rightarrow> string option) \<Rightarrow> nat \<Rightarrow> 's \<Rightarrow> 's \<times> string option" where
  "timesync_status_json e h run files outlen s =
    (let (s1, r1) = ts_exec e run [''chronyc'', ''-c'', ''sources''] 4096 256 s;
         (s2, r2) = ts_exec e run [''chronyc'', ''-c'', ''tracking''] 4096 256 s1
     in (s2, fold (jappend outlen)
          ([''{\"status\":\"ok\",\"ts\":\"'' @ fmt_stamp (localtime h (time_now e)) @ ''\",'', ''\"chrony\":{\"ok\":'']
           @ sources_pieces r1 @ ['',\"tracking\":''] @ tracking_pieces r2 @ [''},'']
           @ state_pieces e h files ''pps_tod'' ''status'' @ state_pieces e h files ''watchdog'' ''watchdog.state''
           @ receiver_pieces e files) (Some [])))"

section \<open>timesync.cgi\<close>

abbreviation (input) TS_JSON_MAX :: nat where "TS_JSON_MAX \<equiv> 16384"

definition handle_status ::
  "env \<Rightarrow> host \<Rightarrow> 's nmcli \<Rightarrow> 'a world_scheme \<times> 's \<Rightarrow> 'a world_scheme \<times> 's" where
  "handle_status e h run ws = (case ws of (w, s) \<Rightarrow>
     (case timesync_status_json e h run (w_files w) TS_JSON_MAX s of
        (s', None) \<Rightarrow> (json_plain ''error'' (utf8 [0xE7, 0x8A, 0xB6, 0xE6, 0x80, 0x81, 0xE6, 0x95, 0xB0, 0xE6, 0x8D, 0xAE, 0xE8, 0xBF, 0x87, 0xE9, 0x95, 0xBF]) w, s')
      | (s', Some out) \<Rightarrow> (emit out (cgi_header ''application/json'' w), s')))"

definition handle_setmode ::
  "env \<Rightarrow> host \<Rightarrow> string \<Rightarrow> 's tty \<Rightarrow> string \<Rightarrow> SessionInfo \<Rightarrow> 'a world_scheme \<times> 's \<Rightarrow> 'a world_scheme \<times> 's" where
  "handle_setmode e h er tty mode session ws = (case ws of (w0, s) \<Rightarrow>
     let m = timesync_mode_parse mode; w = cgi_header ''application/json'' w0 in
     if m = TS_MODE_UNKNOWN then (emit (json_status ''error'' msg_bad_mode) w, s)
     else (case timesync_set_mode e tty m 256 s of
         (s', Some err) \<Rightarrow> (emit (json_status ''error'' (json_escape err 512)) w, s')
       | (s', None) \<Rightarrow>
         let detail = snprintf_s 128 ((utf8 [0xE6, 0x8E, 0xA5, 0xE6, 0x94, 0xB6, 0xE6, 0x9C, 0xBA, 0xE6, 0xA8, 0xA1, 0xE5, 0xBC, 0x8F, 0xE5, 0x88, 0x87, 0xE6, 0x8D, 0xA2, 0xE4, 0xB8, 0xBA] @ '' '') @ opt_text (timesync_mode_label m));
             w1 = auth_audit_log e (si_user_id session) ''timesync_setmode'' (si_user_id session)
                    (Some detail) (getenv e ''REMOTE_ADDR'') w;
             (w2, saved) = timesync_mode_save e h er m 160 w1
         in (emit (''{\"status\":\"ok\",\"mode\":\"'' @ mode @ ''\",\"saved\":'' @ json_bool (saved = None)
               @ '',\"message\":\"'' @ (utf8 [0xE5, 0x91, 0xBD, 0xE4, 0xBB, 0xA4, 0xE5, 0xB7, 0xB2, 0xE5, 0x8F, 0x91, 0xE9, 0x80, 0x81, 0xEF, 0xBC, 0x8C, 0xE7, 0x94, 0x9F, 0xE6, 0x95, 0x88, 0xE4, 0xBB, 0xA5, 0xE7, 0x8A, 0xB6, 0xE6, 0x80, 0x81, 0xE6, 0x95, 0xB0, 0xE6, 0x8D, 0xAE, 0xE4, 0xB8, 0xBA, 0xE5, 0x87, 0x86]) @ ''\"}'') w2, s')))"

definition timesync_main ::
  "env \<Rightarrow> host \<Rightarrow> string \<Rightarrow> 's nmcli \<Rightarrow> 's tty \<Rightarrow> 'a world_scheme \<times> 's \<Rightarrow> 'a world_scheme \<times> 's" where
  "timesync_main e h er run tty ws = (case ws of (w, s) \<Rightarrow>
     (case gate_json_session e w of
        (w1, None) \<Rightarrow> (w1, s)
      | (w1, Some session) \<Rightarrow>
        if qs_action e = ''status'' then handle_status e h run (auth_cleanup e w1, s)
        else if qs_action e = ''setmode''
        then (case gate_require_csrf session (get_post_param e ''csrf_token'') w1 of
            (w2, False) \<Rightarrow> (auth_cleanup e w2, s)
          | (w2, True) \<Rightarrow>
            (case handle_setmode e h er tty (opt_text (get_post_param e ''mode'')) session (w2, s) of
               (w3, s3) \<Rightarrow> (auth_cleanup e w3, s3)))
        else (auth_cleanup e (json_plain ''error'' ''Invalid action'' w1), s)))"

section \<open>The status document is well formed\<close>

lemma json_body_plain: "list_all (\<lambda>c. c \<noteq> bs \<and> c \<noteq> CHR 0x22 \<and> 32 \<le> code c) s \<Longrightarrow> json_body s"
  by (induction s) auto

lemma list_all_weaken: "list_all P xs \<Longrightarrow> (\<And>x. P x \<Longrightarrow> Q x) \<Longrightarrow> list_all Q xs"
  by (auto simp: list_all_iff)

lemma json_escape_body [simp]: "json_body (json_escape s n)"
  unfolding json_escape_def by (rule ec.loop_body)

definition stamp_char :: "char \<Rightarrow> bool" where
  "stamp_char c \<longleftrightarrow> c_isdigit c \<or> c = CHR ''-'' \<or> c = CHR '':'' \<or> c = CHR '' ''"

lemma dec_stamp [simp]: "list_all stamp_char (dec_nat n)" "list_all stamp_char (dec_int i)" "list_all stamp_char (fmt_0d w i)"
proof -
  show n: "list_all stamp_char (dec_nat n)" for n
    using dec_nat_digits [of _ n] by (auto simp: list_all_iff stamp_char_def)
  show "list_all stamp_char (dec_int i)" using n by (auto simp: dec_int_def stamp_char_def)
  have "list_all stamp_char (pad0 w (dec_nat n))" for w n
    using n [of n] by (auto simp: pad0_def list_all_iff stamp_char_def c_isdigit_def)
  then show "list_all stamp_char (fmt_0d w i)" by (auto simp: fmt_0d_def stamp_char_def)
qed

lemma fmt_stamp_chars: "list_all stamp_char (fmt_stamp t)"
  unfolding fmt_stamp_def by (simp add: stamp_char_def)

lemma fmt_stamp_body [simp]: "json_body (fmt_stamp t)"
  by (rule json_body_plain, rule list_all_weaken [OF fmt_stamp_chars])
    (auto simp: stamp_char_def c_isdigit_def bs_def)

text \<open>A list of texts each of which prints a well-formed value.\<close>

lemma json_list:
  assumes "\<And>x. x \<in> set xs \<Longrightarrow> \<exists>v. json_ok v \<and> x = print_json v"
  shows "\<exists>vs. list_all json_ok vs \<and> xs = map print_json vs"
  using assms
proof (induction xs)
  case (Cons x xs)
  then obtain v vs where "json_ok v" "x = print_json v" "list_all json_ok vs" "xs = map print_json vs" by force
  then show ?case by (intro exI [of _ "v # vs"]) simp
qed simp

lemma print_source:
  "''{\"ms\":\"'' @ a @ ''\",\"name\":\"'' @ b @ ''\",\"stratum\":\"'' @ c @ ''\",\"poll\":\"'' @ d @ ''\",\"reach\":\"'' @ x
     @ ''\",\"last_rx\":\"'' @ y @ ''\",\"last_sample\":\"'' @ z @ ''\"}''
   = print_json (JObj [(''ms'', JStr a), (''name'', JStr b), (''stratum'', JStr c), (''poll'', JStr d), (''reach'', JStr x),
      (''last_rx'', JStr y), (''last_sample'', JStr z)])"
  by (simp add: json_member_def)

lemma source_json_ok: "\<exists>v. json_ok v \<and> source_json f = print_json v"
  unfolding source_json_def Let_def print_source
  by (intro exI conjI [rotated], rule refl) (simp add: bs_def)

lemma source_rows_ok: "x \<in> set (source_rows n s) \<Longrightarrow> \<exists>v. json_ok v \<and> x = print_json v"
proof (induction "length s" arbitrary: n s rule: less_induct)
  case less
  define objs where "objs = (if takeWhile (\<lambda>c. \<not> is_eol c) s = [] then [] else [source_json (split_csv 8 (takeWhile (\<lambda>c. \<not> is_eol c) s))])"
  have o: "\<exists>v. json_ok v \<and> y = print_json v" if "y \<in> set objs" for y
    using that source_json_ok by (auto simp: objs_def split: if_splits)
  show ?case
  proof (cases "s = [] \<or> n = 0")
    case True
    then show ?thesis using less.prems by (simp add: source_rows.simps)
  next
    case False
    have r: "source_rows n s = (case dropWhile (\<lambda>c. \<not> is_eol c) s of [] \<Rightarrow> objs
        | _ # r \<Rightarrow> objs @ source_rows (n - length objs) (dropWhile (\<lambda>c. c = nl) r))"
      by (subst source_rows.simps) (simp only: False objs_def Let_def if_False)
    show ?thesis
      using less.prems o r less.hyps [OF dropWhile_tail_shorter]
      by (cases "dropWhile (\<lambda>c. \<not> is_eol c) s") auto
  qed
qed

lemma sources_ok:
  "\<exists>ms. members_ok ms \<and> ms \<noteq> [] \<and> ''\"ok\":'' @ concat (sources_pieces r) = comma_join (members_text ms)"
proof (cases r)
  case (Inl err)
  then show ?thesis
    by (intro exI [of _ "[(''ok'', JBool False), (''error'', JStr (json_escape err 300))]"])
      (simp add: sources_pieces_def json_member_def json_bool_def bs_def)
next
  case (Inr buf)
  obtain vs where "list_all json_ok vs" "source_rows 8 (snprintf_s 4096 buf) = map print_json vs"
    using json_list [of "source_rows 8 (snprintf_s 4096 buf)"] source_rows_ok by blast
  then show ?thesis using Inr
    by (intro exI [of _ "[(''ok'', JBool True), (''sources'', JArr vs)]"])
      (simp add: sources_pieces_def emit_sources_def json_member_def json_bool_def bs_def list_all_iff)
qed

lemma tracking_ok: "\<exists>v. json_ok v \<and> concat (tracking_pieces r) = print_json v"
proof (cases r)
  case (Inl err)
  then show ?thesis
    by (intro exI [of _ "JObj [(''error'', JStr (json_escape err 300))]"])
      (simp add: tracking_pieces_def json_member_def bs_def)
next
  case (Inr buf)
  define f where "f = split_csv 14 (strip_eol (snprintf_s 4096 buf))"
  define ks where "ks = (if length f \<ge> 14 then keys3 else keys4)"
  define ms where "ms = map (\<lambda>(i, k). (k, JStr (json_escape (decode_field (fld f i) 128) 256))) (zip [0..<length ks] ks)"
  have "k \<in> set ks \<Longrightarrow> json_body k" for k by (auto simp: ks_def keys3_def keys4_def bs_def split: if_splits)
  then have ok: "members_ok ms" by (auto simp: members_ok_def ms_def list_all_iff dest: set_zip_rightD)
  have "concat (emit_tracking buf) = print_json (JObj ms)"
    by (simp add: emit_tracking_def Let_def f_def [symmetric] ks_def [symmetric] ms_def o_def tracking_member_def
        json_member_def case_prod_unfold)
  then show ?thesis using Inr ok by (intro exI [of _ "JObj ms"]) (simp add: tracking_pieces_def members_obj del: print_json.simps json_ok.simps)
qed

lemma kv_lines_ok:
  "\<exists>ms. members_ok ms \<and> List.map_filter kv_line ls = map (Cons (CHR '','')) (members_text ms)"
proof (induction ls)
  case Nil
  show ?case by (intro exI [of _ "[]"]) (simp add: List.map_filter_simps)
next
  case (Cons l ls)
  then obtain ms where ms: "members_ok ms" "List.map_filter kv_line ls = map (Cons (CHR '','')) (members_text ms)" by blast
  show ?case
  proof (cases "kv_line l")
    case None
    with ms show ?thesis by (intro exI [of _ ms]) (simp add: List.map_filter_simps)
  next
    case (Some x)
    then obtain k v where x: "x = CHR '','' # json_member (k, print_json (JStr (json_escape v 256)))"
      "list_all (\<lambda>c. c_isalnum c \<or> c = CHR ''_'') k"
      by (auto simp: kv_line_def Let_def json_member_def split: option.splits if_splits)
    have "json_body k"
      by (rule json_body_plain, rule list_all_weaken [OF x(2)])
        (auto simp: c_isalnum_def c_isdigit_def c_isupper_def c_islower_def bs_def)
    with ms Some x(1) show ?thesis
      by (intro exI [of _ "(k, JStr (json_escape v 256)) # ms"]) (simp add: List.map_filter_simps)
  qed
qed

lemma state_ok:
  "\<exists>ms. members_ok ms \<and> concat (state_pieces e h files key file) = json_member (key, print_json (JObj ms)) @ '',''"
proof -
  define p where "p = snprintf_s 256 (ts_dir e @ ''/'' @ file)"
  define age where "age = ts_file_age e h p"
  obtain kvs where k: "members_ok kvs" "(if age \<ge> 0 then emit_kv_file (files p) else []) = map (Cons (CHR '','')) (members_text kvs)"
  proof (cases "age \<ge> 0 \<and> files p \<noteq> None")
    case True
    then obtain body where "files p = Some body" by blast
    then show ?thesis using that True kv_lines_ok [of "fgets_lines 256 body"] by (auto simp: emit_kv_file_def)
  next
    case False
    then show ?thesis using that [of "[]"] by (auto simp: emit_kv_file_def)
  qed
  let ?ms = "[(''ok'', JBool (age \<ge> 0)), (''age_s'', JInt age)] @ kvs"
  have "members_text ?ms = members_text [(''ok'', JBool (age \<ge> 0)), (''age_s'', JInt age)] @ members_text kvs" by simp
  then have "comma_join (members_text ?ms) = ''\"ok\":'' @ json_bool (age \<ge> 0) @ '',\"age_s\":'' @ dec_int age
      @ concat (map (Cons (CHR '','')) (members_text kvs))"
    using concat_with_commas [of "[x]" "members_text kvs" for x] by (simp add: json_member_def)
  then have pr: "print_json (JObj ?ms) = ''{\"ok\":'' @ json_bool (age \<ge> 0) @ '',\"age_s\":'' @ dec_int age
      @ concat (map (Cons (CHR '','')) (members_text kvs)) @ ''}''"
    unfolding members_obj(2) by simp
  have "concat (state_pieces e h files key file) = ''\"'' @ key @ ''\":{\"ok\":'' @ json_bool (age \<ge> 0) @ '',\"age_s\":''
      @ dec_int age @ concat (map (Cons (CHR '','')) (members_text kvs)) @ ''},''"
    unfolding state_pieces_def Let_def p_def [symmetric] age_def [symmetric] k(2) by simp
  then have "concat (state_pieces e h files key file) = json_member (key, print_json (JObj ?ms)) @ '',''"
    unfolding pr json_member_def by simp
  moreover have "members_ok ?ms" using k(1) by (simp add: bs_def)
  ultimately show ?thesis by blast
qed

lemma receiver_ok: "\<exists>v. json_ok v \<and> concat (receiver_pieces e files) = json_member (''receiver'', print_json v) @ ''}''"
proof -
  obtain hv mode setat where t: "timesync_mode_last e 32 64 files = (hv, mode, setat)" by (metis prod_cases3)
  show ?thesis
    by (intro exI [of _ "JObj [(''last_mode'', JStr (json_escape (if hv then mode else []) 64)),
        (''set_at'', JStr (json_escape (if hv then setat else []) 128))]"])
      (simp add: receiver_pieces_def t json_member_def bs_def)
qed

text \<open>The status document is always well-formed JSON with its six sections.  Whatever \<open>chronyc\<close>
  prints or fails with, whatever the state files hold and whether they exist, the document is the text
  of a JSON object whose members are status, ts, chrony, pps_tod, watchdog and receiver, in this order,
  all strings properly escaped; it is delivered whole or, when it does not fit the buffer, not at all.\<close>

theorem status_json_wellformed:
  "\<exists>ms. map fst ms = [''status'', ''ts'', ''chrony'', ''pps_tod'', ''watchdog'', ''receiver''] \<and> json_ok (JObj ms)
    \<and> snd (timesync_status_json e h run files (Suc n) s) =
        (if length (print_json (JObj ms)) < Suc n then Some (print_json (JObj ms)) else None)"
proof -
  obtain s1 r1 where r1: "ts_exec e run [''chronyc'', ''-c'', ''sources''] 4096 256 s = (s1, r1)" by fastforce
  obtain s2 r2 where r2: "ts_exec e run [''chronyc'', ''-c'', ''tracking''] 4096 256 s1 = (s2, r2)" by fastforce
  obtain cs where cs: "members_ok cs" "cs \<noteq> []" "''\"ok\":'' @ concat (sources_pieces r1) = comma_join (members_text cs)"
    using sources_ok by blast
  obtain tv where tv: "json_ok tv" "concat (tracking_pieces r2) = print_json tv" using tracking_ok by blast
  obtain ps where ps: "members_ok ps" "concat (state_pieces e h files ''pps_tod'' ''status'') = json_member (''pps_tod'', print_json (JObj ps)) @ '',''"
    using state_ok by blast
  obtain wd where wd: "members_ok wd" "concat (state_pieces e h files ''watchdog'' ''watchdog.state'') = json_member (''watchdog'', print_json (JObj wd)) @ '',''"
    using state_ok by blast
  obtain rv where rv: "json_ok rv" "concat (receiver_pieces e files) = json_member (''receiver'', print_json rv) @ ''}''"
    using receiver_ok by blast
  let ?now = "fmt_stamp (localtime h (time_now e))"
  let ?ms = "[(''status'', JStr ''ok''), (''ts'', JStr ?now), (''chrony'', JObj (cs @ [(''tracking'', tv)])),
      (''pps_tod'', JObj ps), (''watchdog'', JObj wd), (''receiver'', rv)]"
  have ct: "comma_join (members_text (cs @ [(''tracking'', tv)])) =
      ''\"ok\":'' @ concat (sources_pieces r1) @ '',\"tracking\":'' @ print_json tv"
  proof -
    have "members_text cs \<noteq> []" using cs(2) by (simp add: members_text_def)
    then have "comma_join (members_text cs @ members_text [(''tracking'', tv)])
        = comma_join (members_text cs) @ '','' @ json_member (''tracking'', print_json tv)"
      by (subst comma_join_append) simp_all
    then show ?thesis unfolding members_simps(6) cs(3) [symmetric] by (simp add: json_member_def)
  qed
  define cc where "cc = print_json (JObj (cs @ [(''tracking'', tv)]))"
  define pp where "pp = print_json (JObj ps)"
  define ww where "ww = print_json (JObj wd)"
  have cc: "cc = ''{\"ok\":'' @ concat (sources_pieces r1) @ '',\"tracking\":'' @ print_json tv @ ''}''"
    unfolding cc_def members_obj(2) ct by simp
  have ms: "print_json (JObj ?ms) = ''{'' @ comma_join [json_member (''status'', ''\"ok\"''), json_member (''ts'', ''\"'' @ ?now @ ''\"''),
      json_member (''chrony'', cc), json_member (''pps_tod'', pp), json_member (''watchdog'', ww), json_member (''receiver'', print_json rv)] @ ''}''"
    by (simp add: cc_def pp_def ww_def)
  have doc: "concat ([''{\"status\":\"ok\",\"ts\":\"'' @ ?now @ ''\",'', ''\"chrony\":{\"ok\":'']
           @ sources_pieces r1 @ ['',\"tracking\":''] @ tracking_pieces r2 @ [''},'']
           @ state_pieces e h files ''pps_tod'' ''status'' @ state_pieces e h files ''watchdog'' ''watchdog.state''
           @ receiver_pieces e files) = print_json (JObj ?ms)"
    unfolding ms cc by (simp add: tv(2) ps(2) [folded pp_def] wd(2) [folded ww_def] rv(2) json_member_def)
  have "members_ok ?ms" using cs tv ps wd rv by (simp add: members_obj bs_def del: json_ok.simps(5))
  then have ok: "json_ok (JObj ?ms)" by (simp only: members_obj)
  have "snd (timesync_status_json e h run files (Suc n) s) =
        (if length (print_json (JObj ?ms)) < Suc n then Some (print_json (JObj ?ms)) else None)"
    unfolding timesync_status_json_def r1 r2 Let_def prod.case snd_conv doc [symmetric] by (rule fold_jappend_doc) simp
  moreover have "map fst ?ms = [''status'', ''ts'', ''chrony'', ''pps_tod'', ''watchdog'', ''receiver'']" by simp
  ultimately show ?thesis using ok by (intro exI conjI)
qed

section \<open>The last mode is read back\<close>

lemma mode_entry_parse:
  "mode_entry m = Some en \<Longrightarrow> timesync_mode_parse (me_name en) = m"
  "m = TS_MODE_UNKNOWN \<longleftrightarrow> mode_entry m = None"
  by (cases m; auto simp: mode_entry_def g_modes_def timesync_mode_parse_def)+

lemma mode_names: "mode_entry m = Some en \<Longrightarrow> me_name en \<in> {''gnss'', ''gps'', ''bds'', ''gal'', ''glo''}"
  by (cases m) (auto simp: mode_entry_def g_modes_def)

definition plain_line :: "string \<Rightarrow> bool" where
  "plain_line s = list_all (\<lambda>c. c \<noteq> nl \<and> c \<noteq> CHR 0x0D \<and> code c \<noteq> 0) s"

lemma strip_line: "plain_line s \<Longrightarrow> strip_eol (cstr (s @ [nl])) = s"
proof -
  assume p: "plain_line s"
  have c: "cstr (s @ [nl]) = s @ [nl]" 
  proof (rule cstr_id)
    fix x assume "x \<in> set (s @ [nl])"
    then have "x \<in> set s \<or> x = nl" by auto
    then show "code x \<noteq> 0"
    proof
      assume "x \<in> set s"
      then show ?thesis using p by (simp add: plain_line_def list_all_iff)
    qed simp
  qed
  have "dropWhile (\<lambda>c. c = nl \<or> c = CHR 0x0D) (rev s) = rev s"
    using p by (cases s rule: rev_cases) (auto simp: plain_line_def)
  then show ?thesis by (simp add: c strip_eol_def)
qed

lemma fgets_first:
  "nl \<notin> set u \<Longrightarrow> length u + 1 < n \<Longrightarrow> fgets_lines n (u @ nl # r) = (u @ [nl]) # fgets_lines n r"
proof -
  assume u: "nl \<notin> set u" "length u + 1 < n"
  have "takeWhile (\<lambda>c. c \<noteq> nl) (u @ nl # r) = u" using u(1) by (intro takeWhile_append_stop) auto
  then have "fgets_len n (u @ nl # r) = length u + 1" using u(2) by (simp add: fgets_len_def)
  then show ?thesis by (subst fgets_lines.simps) simp
qed

lemma mode_text_read:
  assumes "plain_line name" "plain_line now" "length name < 32" "length now < 64"
  shows "fold (mode_line 32 64) (fgets_lines 128 (mode_text name now)) (False, [], []) = (True, name, now)"
proof -
  have nn: "nl \<notin> set name" "nl \<notin> set now" using assms(1,2) by (auto simp: plain_line_def list_all_iff)
  have "mode_text name now = (''mode='' @ name) @ nl # (''ts='' @ now) @ nl # []" by (simp add: mode_text_def)
  moreover have "fgets_lines 128 ((''ts='' @ now) @ nl # []) = [(''ts='' @ now) @ [nl]]"
    using fgets_first [of "''ts='' @ now" 128 "[]"] nn assms(4) by (simp add: fgets_lines.simps [of 128 "[]"])
  ultimately have "fgets_lines 128 (mode_text name now) = [(''mode='' @ name) @ [nl], (''ts='' @ now) @ [nl]]"
    using fgets_first [of "''mode='' @ name" 128 "(''ts='' @ now) @ nl # []"] nn assms(3) by simp
  moreover have "strip_eol (cstr ((''mode='' @ name) @ [nl])) = ''mode='' @ name"
    "strip_eol (cstr ((''ts='' @ now) @ [nl])) = ''ts='' @ now"
    by (rule strip_line, use assms(1,2) in \<open>simp add: plain_line_def\<close>)+
  ultimately show ?thesis
    using assms(3,4) by (simp add: mode_line_def has_prefix_def snprintf_s_def)
qed

text \<open>The receiver mode shown is the one last set.  When saving a mode reports success, and the
  formatted time fits its buffer, reading the state file back finds a mode; its name parses to the mode
  that was saved, and the time shown is that of saving.\<close>

theorem mode_save_last:
  assumes "timesync_mode_save e h er m n w = (w', None)" "length (fmt_stamp (localtime h (time_now e))) < 32"
  shows "\<exists>name. timesync_mode_last e 32 64 (w_files w') = (True, name, fmt_stamp (localtime h (time_now e)))
    \<and> timesync_mode_parse name = m \<and> m \<noteq> TS_MODE_UNKNOWN"
proof -
  let ?now = "fmt_stamp (localtime h (time_now e))"
  obtain en where en: "mode_entry m = Some en" using assms(1) by (auto simp: timesync_mode_save_def split: option.splits)
  then have f: "w_files w' (ts_modefile_path e) = Some (mode_text (me_name en) ?now)"
    using assms(1) by (auto simp: timesync_mode_save_def Let_def split: if_splits)
  have "plain_line (me_name en)" "length (me_name en) < 32" using mode_names [OF en] by (auto simp: plain_line_def)
  moreover have "plain_line ?now"
    using fmt_stamp_chars [of "localtime h (time_now e)"] by (auto simp: plain_line_def list_all_iff stamp_char_def c_isdigit_def)
  ultimately have "timesync_mode_last e 32 64 (w_files w') = (True, me_name en, ?now)"
    using mode_text_read [of "me_name en" ?now] assms(2) f by (simp add: timesync_mode_last_def)
  then show ?thesis using mode_entry_parse [of m] en by auto
qed

section \<open>What is sent to the receiver\<close>

text \<open>A sentence is a dollar sign, a body, an asterisk and the XOR of the body's bytes in two
  hexadecimal digits, with the line end.\<close>

definition xor_sum :: "string \<Rightarrow> u8" where
  "xor_sum body = foldl (\<lambda>x c. x XOR byte_of_char c) 0 body"

definition sentence :: "string \<Rightarrow> string" where
  "sentence body = ''$'' @ body @ ''*'' @ map (\<lambda>c. if 97 \<le> code c then char_of (code c - 32) else c) (hex_byte (xor_sum body)) @ crlf"

definition mode_payload :: "TimesyncMode \<Rightarrow> string" where
  "mode_payload m = sentence (''CFGGNSS,'' @ (case m of TS_MODE_GPS \<Rightarrow> ''h0D'' | TS_MODE_BDS \<Rightarrow> ''h70'' | TS_MODE_GAL \<Rightarrow> ''h7000''
     | TS_MODE_GLO \<Rightarrow> ''h100'' | _ \<Rightarrow> ''h70717D'')) @ sentence ''CFGSAVE,h10''"

lemma sentence_texts:
  "sentence ''CFGGNSS,h70717D'' = ''$CFGGNSS,h70717D*7D'' @ crlf" "sentence ''CFGGNSS,h0D'' = ''$CFGGNSS,h0D*7B'' @ crlf"
  "sentence ''CFGGNSS,h70'' = ''$CFGGNSS,h70*08'' @ crlf" "sentence ''CFGGNSS,h7000'' = ''$CFGGNSS,h7000*08'' @ crlf"
  "sentence ''CFGGNSS,h100'' = ''$CFGGNSS,h100*3E'' @ crlf" "sentence ''CFGSAVE,h10'' = ''$CFGSAVE,h10*06'' @ crlf"
  by (simp_all add: sentence_def xor_sum_def byte_of_char_def hex_byte_def hex_digit_def char_of_def bit_0)

lemma mode_commands: "mode_entry m = Some en \<Longrightarrow> me_cmd en = mode_payload m"
  by (cases m) (auto simp: mode_entry_def g_modes_def mode_payload_def sentence_texts)

definition tty_logged :: "'s tty \<Rightarrow> ('s \<times> (string \<times> string) list) tty" where
  "tty_logged tty sl dev cmd = (case tty (fst sl) dev cmd of (s', r) \<Rightarrow> ((s', snd sl @ [(dev, cmd)]), r))"

definition run_silent :: "'s nmcli \<Rightarrow> ('s \<times> 'l) nmcli" where
  "run_silent run sl argv = (case run (fst sl) argv of (s', r) \<Rightarrow> ((s', snd sl), r))"

lemma silent_exec: "snd (fst (ts_exec e (run_silent run) argv ol el sl)) = snd sl"
  by (auto simp: ts_exec_def run_silent_def Let_def split: prod.split nm_result.split)

lemma silent_status: "snd (snd (handle_status e h (run_silent run) (w, sl))) = snd sl"
proof -
  obtain sl1 r1 where r1: "ts_exec e (run_silent run) [''chronyc'', ''-c'', ''sources''] 4096 256 sl = (sl1, r1)" by fastforce
  obtain sl2 r2 where r2: "ts_exec e (run_silent run) [''chronyc'', ''-c'', ''tracking''] 4096 256 sl1 = (sl2, r2)" by fastforce
  have "snd sl2 = snd sl"
    using silent_exec [of e run "[''chronyc'', ''-c'', ''sources'']" 4096 256 sl] r1
      silent_exec [of e run "[''chronyc'', ''-c'', ''tracking'']" 4096 256 sl1] r2 by simp
  then show ?thesis by (simp add: handle_status_def timesync_status_json_def r1 r2 split: option.split)
qed

lemma snd_mode_answer:
  "snd (case x of (s', Some err) \<Rightarrow> (G s' err, s') | (s', None) \<Rightarrow> (case F s' of (a, b) \<Rightarrow> (H a b, s'))) = fst x"
  by (auto split: prod.split option.split)

lemma log_setmode:
  "snd (snd (handle_setmode e h er (tty_logged tty) mode session (w, s, []))) =
    (if timesync_mode_parse mode = TS_MODE_UNKNOWN then [] else [(ts_dev_path e, mode_payload (timesync_mode_parse mode))])"
proof (cases "mode_entry (timesync_mode_parse mode)")
  case None
  then show ?thesis using mode_entry_parse(2) by (simp add: handle_setmode_def Let_def)
next
  case (Some en)
  then have "snd (fst (timesync_set_mode e (tty_logged tty) (timesync_mode_parse mode) 256 (s, []))) = [(ts_dev_path e, me_cmd en)]"
    by (auto simp: timesync_set_mode_def tty_logged_def Let_def split: prod.split tty_result.split)
  then show ?thesis
    using Some mode_entry_parse(2) mode_commands [OF Some] by (simp add: handle_setmode_def Let_def snd_mode_answer)
qed

text \<open>Only known commands reach the receiver.  Whatever the request, the program writes at most
  once, to the configured device, and only for a valid session that presents its CSRF token and names
  one of the five modes; what it writes are the two sentences of that mode with correct checksums.
  The status page writes nothing.\<close>

theorem receiver_writes:
  "let l = snd (snd (timesync_main e h er (run_silent run) (tty_logged tty) (w, s, []))) in
    l = [] \<or> (\<exists>w1 session m. l = [(ts_dev_path e, mode_payload m)] \<and> m \<noteq> TS_MODE_UNKNOWN
      \<and> qs_action e = ''setmode'' \<and> timesync_mode_parse (opt_text (get_post_param e ''mode'')) = m
      \<and> gate_json_session e w = (w1, Some session)
      \<and> get_post_param e ''csrf_token'' = Some (si_csrf_token session))"
proof -
  obtain w1 r where g: "gate_json_session e w = (w1, r)" by fastforce
  show ?thesis
  proof (cases "\<exists>session. r = Some session \<and> qs_action e = ''setmode'' \<and> auth_csrf_verify session (get_post_param e ''csrf_token'')")
    case True
    then obtain session where t: "r = Some session" "qs_action e = ''setmode''"
      "auth_csrf_verify session (get_post_param e ''csrf_token'')" by blast
    have "snd (snd (timesync_main e h er (run_silent run) (tty_logged tty) (w, s, []))) =
        snd (snd (handle_setmode e h er (tty_logged tty) (opt_text (get_post_param e ''mode'')) session (w1, s, [])))"
      using g t by (simp add: timesync_main_def gate_require_csrf_def split: prod.split)
    moreover have "get_post_param e ''csrf_token'' = Some (si_csrf_token session)"
      using t(3) by (auto simp: auth_csrf_verify_def split: option.splits)
    ultimately show ?thesis using log_setmode [of e h er tty "opt_text (get_post_param e ''mode'')" session w1 s] g t(1,2)
      by (auto simp: Let_def)
  next
    case False
    then have "snd (snd (timesync_main e h er (run_silent run) (tty_logged tty) (w, s, []))) = []"
      using g by (auto simp: timesync_main_def gate_require_csrf_def silent_status split: option.splits)
    then show ?thesis by simp
  qed
qed

definition ts_host :: host where
  "ts_host = \<lparr>localtime = (\<lambda>_. \<lparr>tm_year = 126, tm_mon = 8, tm_mday = 17, tm_hour = 0, tm_min = 0, tm_sec = 0\<rparr>), stat = (\<lambda>_. None)\<rparr>"

definition ts_world :: world where
  "ts_world = \<lparr>g_db = None, g_db_path = [], disk = Map.empty, w_out = [], w_files = Map.empty, w_writable = (\<lambda>_. True)\<rparr>"

theorem mode_save_last_witness:
  "timesync_mode_last form_env 32 64 (w_files (fst (timesync_mode_save form_env ts_host [] TS_MODE_BDS 160 ts_world)))
    = (True, ''bds'', ''2026-09-17 00:00:00'')"
proof -
  have st: "fmt_stamp (localtime ts_host (time_now form_env)) = ''2026-09-17 00:00:00''"
    by (simp add: ts_host_def) code_simp
  have s: "timesync_mode_save form_env ts_host [] TS_MODE_BDS 160 ts_world =
      (fst (timesync_mode_save form_env ts_host [] TS_MODE_BDS 160 ts_world), None)"
    by (simp add: timesync_mode_save_def mode_entry_def g_modes_def Let_def ts_world_def)
  have "\<exists>name. timesync_mode_last form_env 32 64 (w_files (fst (timesync_mode_save form_env ts_host [] TS_MODE_BDS 160 ts_world)))
      = (True, name, ''2026-09-17 00:00:00'') \<and> timesync_mode_parse name = TS_MODE_BDS \<and> TS_MODE_BDS \<noteq> TS_MODE_UNKNOWN"
    using mode_save_last [OF s] st by simp
  moreover have "timesync_mode_parse name = TS_MODE_BDS \<Longrightarrow> name = ''bds''" for name
    by (auto simp: timesync_mode_parse_def g_modes_def split: if_splits)
  ultimately show ?thesis by blast
qed

end
