(* ===== verification/SiteSpec.thy ===== *)
theory SiteSpec
  imports Accounts
begin

text \<open>
  What a request to the web site may do to the account database: an abstract specification, stated on
  the tables alone, which the theory \<open>Site\<close> shows every CGI program to implement.  The operations
  of \<open>users.c\<close> and \<open>auth.c\<close> are related to it here.
\<close>

section \<open>Quiet changes\<close>

text \<open>Well-formed tables of the current schema stay so.\<close>

definition kept :: "database \<Rightarrow> database \<Rightarrow> bool" where
  "kept d d' \<longleftrightarrow> (db_wf d \<and> schema_current d \<longrightarrow> db_wf d' \<and> schema_current d')"

text \<open>No account changes and no session is added; sessions may end and the audit trail may grow.\<close>

definition quiet :: "database \<Rightarrow> database \<Rightarrow> bool" where
  "quiet d d' \<longleftrightarrow> t_users d' = t_users d \<and> users_seq d' = users_seq d \<and> set (t_sessions d') \<subseteq> set (t_sessions d) \<and> kept d d'"

lemma quiet_refl [simp, intro]: "quiet d d"
  by (simp add: quiet_def kept_def)

lemma quiet_trans [trans]: "quiet d d1 \<Longrightarrow> quiet d1 d2 \<Longrightarrow> quiet d d2"
  by (auto simp: quiet_def kept_def)

lemma quiet_delete_sessions [simp, intro]: "quiet d (sql_delete_sessions q d)"
proof -
  have "kept d (sql_delete_sessions q d)" using wf_delete_sessions by (simp add: kept_def)
  then show ?thesis by (auto simp: quiet_def sql_delete_sessions_def)
qed

lemma audit_quiet: "cur st = Some d \<Longrightarrow> \<exists>d'. cur (auth_audit_log e op act tg det ip st) = Some d' \<and> quiet d d'"
  by (rule cur_audit_log [of st d e op act tg det ip]) (auto simp: quiet_def kept_def)

lemma kick_quiet: "cur st = Some d \<Longrightarrow> \<exists>d'. cur (auth_kick_user_sessions e i k st) = Some d' \<and> quiet d d'"
  by (simp add: auth_kick_user_sessions_def)

lemma destroy_quiet: "cur st = Some d \<Longrightarrow> \<exists>d'. cur (auth_session_destroy e k st) = Some d' \<and> quiet d d'"
  by (simp add: auth_session_destroy_def split: option.split)

section \<open>Account changes\<close>

definition users_become :: "(user_row list \<Rightarrow> user_row list) \<Rightarrow> database \<Rightarrow> database \<Rightarrow> bool" where
  "users_become f d d' \<longleftrightarrow> t_users d' = f (t_users d) \<and> users_seq d' = users_seq d
     \<and> set (t_sessions d') \<subseteq> set (t_sessions d) \<and> kept d d'"

definition with_password :: "env \<Rightarrow> int \<Rightarrow> string \<Rightarrow> user_row list \<Rightarrow> user_row list" where
  "with_password e t h = map (\<lambda>v. if u_id v = t
     then v\<lparr>u_password_hash := h, u_password_changed_at := time_now e, u_updated_at := time_now e\<rparr> else v)"

definition with_enabled :: "env \<Rightarrow> int \<Rightarrow> int \<Rightarrow> user_row list \<Rightarrow> user_row list" where
  "with_enabled e t en = map (\<lambda>v. if u_id v = t then v\<lparr>u_enabled := en, u_updated_at := time_now e\<rparr> else v)"

text \<open>What the root account \<open>a\<close> may do: create an administrator under a fresh name and id, delete an
  account that is not a root account nor its own, enable or disable another account (not the last
  enabled root), set a password that passes the policy.\<close>

definition posted_id :: "env \<Rightarrow> int option" where
  "posted_id e = map_option atoi (get_post_param e ''user_id'')"

inductive acct_change :: "env \<Rightarrow> int \<Rightarrow> admin_cgi \<Rightarrow> database \<Rightarrow> database \<Rightarrow> bool" for e a where
  created: "acct_change e a User_create d d'" if "t_users d' = t_users d @ [v]" "users_seq d' = users_seq d + 1"
    "u_id v = users_seq d + 1" "u_role v = ''admin''" "get_post_param e ''username'' = Some (u_username v)"
    "u_username v \<notin> u_username ` set (t_users d)"
    "u_created_by v = Some a" "set (t_sessions d') \<subseteq> set (t_sessions d)" "kept d d'"
| deleted: "acct_change e a User_delete d d'" if "posted_id e = Some t" "t \<noteq> a" "lookup_user t d = Some v" "u_role v \<noteq> ''root''"
    "users_become (filter (\<lambda>v. u_id v \<noteq> t)) d d'"
| toggled: "acct_change e a User_toggle d d'" if "posted_id e = Some t" "t \<noteq> a" "lookup_user t d = Some v" "en = 0 \<or> en = 1"
    "en = 0 \<Longrightarrow> u_role v = ''root'' \<Longrightarrow> \<exists>r\<in>set (t_users d). u_role r = ''root'' \<and> u_enabled r = 1 \<and> u_id r \<noteq> t"
    "users_become (with_enabled e t en) d d'"
| password: "acct_change e a User_passwd d d'" if "posted_id e = Some t" "get_post_param e ''password'' = Some pw" "auth_password_policy_ok pw = None" "auth_hash_password e (Some pw) 256 = Some h"
    "users_become (with_password e t h) d d'"

lemma users_become_quiet: "users_become f d d1 \<Longrightarrow> quiet d1 d2 \<Longrightarrow> users_become f d d2"
  by (auto simp: users_become_def quiet_def kept_def)

lemma acct_change_quiet: "acct_change e a c d d1 \<Longrightarrow> quiet d1 d2 \<Longrightarrow> acct_change e a c d d2"
proof (induction rule: acct_change.induct)
  case (created d1 d v)
  then show ?case by (intro acct_change.created [of d2 d v]) (auto simp: quiet_def kept_def)
qed (auto intro: acct_change.intros users_become_quiet)

section \<open>The operations of users.c\<close>

lemma create_effect:
  assumes "cur st = Some d" "n = get_post_param e ''username''"
  shows "\<exists>d'. cur (fst (users_create e a n p st)) = Some d' \<and> (quiet d d' \<or> acct_change e a User_create d d')"
proof -
  have step: "\<exists>d'. cur (auth_audit_log e op act tg det ip (set_cur d1 st)) = Some d' \<and> acct_change e a User_create d d'"
    if "sql_insert_user row d = Some (d1, i)" "u_role row = ''admin''" "u_created_by row = Some a" "n = Some (u_username row)" for row d1 i op act tg det ip
  proof -
    have "kept d d1" using that(1) wf_insert_user schema_current_insert by (auto simp: kept_def)
    then have "acct_change e a User_create d d1"
      using that assms(2) by (intro acct_change.created [of d1 d "row\<lparr>u_id := users_seq d + 1\<rparr>"])
        (auto simp: sql_insert_user_def Let_def split: if_splits)
    moreover have "cur (set_cur d1 st) = Some d1" using assms by simp
    ultimately show ?thesis using audit_quiet acct_change_quiet by metis
  qed
  show ?thesis using assms by (auto simp: users_create_def Let_def split: option.splits if_splits dest!: step)
qed

lemma delete_effect:
  assumes "cur st = Some d" "db_wf d \<and> schema_current d" "posted_id e = Some t"
  shows "\<exists>d'. cur (fst (users_delete e a t st)) = Some d' \<and> (quiet d d' \<or> acct_change e a User_delete d d')"
proof -
  have step: "\<exists>d2. cur (set_cur d1' st1) = Some d2 \<and> (quiet d d2 \<or> acct_change e a User_delete d d2)"
    if "quiet d d1" "cur st1 = Some d1" "sql_delete_user t d1 = Some (d1', n)" "lookup_user t d = Some v" "u_role v \<noteq> ''root''" "t \<noteq> a"
    for st1 d1 d1' n v
  proof -
    have "db_wf d1" "schema_current d1" using that(1) assms(2) by (simp_all add: quiet_def kept_def)
    then have k: "kept d d1'" using that(3) wf_delete_user schema_current_fks schema_current_delete unfolding kept_def by blast
    have us: "t_users d1 = t_users d" "users_seq d1 = users_seq d" "set (t_sessions d1) \<subseteq> set (t_sessions d)"
      using that(1) by (simp_all add: quiet_def)
    have "t \<in> user_ids d1" using lookup_userD [OF that(4)] us(1) by (force simp: user_ids_def)
    then have "users_become (filter (\<lambda>v. u_id v \<noteq> t)) d d1'"
      using that(3) us k by (auto simp: sql_delete_user_def users_become_def split: if_splits)
    with that(2,4-6) show ?thesis by (auto intro: acct_change.deleted assms(3))
  qed
  have aud: "\<exists>d1. cur (auth_audit_log e a ''delete_user'' t (Some nm) ip st) = Some d1 \<and> quiet d d1" for nm ip
    by (rule audit_quiet [OF assms(1)])
  show ?thesis
  proof (cases "t = a \<or> \<not> runs (eng e) Q_role_select \<or> lookup_user t d = None \<or> u_role (the (lookup_user t d)) = ''root''")
    case True
    then show ?thesis using assms(1) by (auto simp: users_delete_def cur_def split: option.splits)
  next
    case False
    then obtain v where v: "lookup_user t d = Some v" "u_role v \<noteq> ''root''" "t \<noteq> a" "runs (eng e) Q_role_select" by auto
    let ?st1 = "auth_audit_log e a ''delete_user'' t (Some (snprintf_s 64 (u_username v))) (remote_addr e) st"
    obtain d1 where d1: "cur ?st1 = Some d1" "quiet d d1" using aud by blast
    obtain y where g: "g_db st = Some y" using cur_SomeD [OF assms(1)] by auto
    show ?thesis
    proof (cases "prepare_ok (eng e) Q_user_delete \<and> step_ok (eng e) Q_user_delete \<and> sql_delete_user t d1 \<noteq> None")
      case True
      then obtain d2 n where d2: "sql_delete_user t d1 = Some (d2, n)" by auto
      then have "fst (users_delete e a t st) = set_cur d2 ?st1"
        using assms(1) v d1(1) True g by (simp add: users_delete_def Let_def)
      then show ?thesis using step [OF d1(2,1) d2 v(1-3)] by simp
    next
      case False
      then have "fst (users_delete e a t st) = ?st1"
        using assms(1) v d1(1) g False by (cases "prepare_ok (eng e) Q_user_delete"; cases "step_ok (eng e) Q_user_delete") (simp_all add: users_delete_def Let_def split: option.split)
      then show ?thesis using d1 by auto
    qed
  qed
qed

lemma toggle_effect:
  assumes "cur st = Some d" "db_wf d" "runs (eng e) Q_root_count" "en = 0 \<or> en = 1" "posted_id e = Some t"
  shows "\<exists>d'. cur (fst (users_toggle e a t en st)) = Some d' \<and> (quiet d d' \<or> acct_change e a User_toggle d d')"
proof (cases "toggle_check e a t en st")
  case None
  let ?d = "sql_update_users (\<lambda>u. u_id u = t) (\<lambda>u. u\<lparr>u_enabled := en, u_updated_at := time_now e\<rparr>) d"
  obtain v where v: "lookup_user t d = Some v" "t \<noteq> a"
    using None assms(1) by (auto simp: toggle_check_def split: if_splits option.splits)
  have "\<exists>r\<in>set (t_users d). u_role r = ''root'' \<and> u_enabled r = 1 \<and> u_id r \<noteq> t" if "en = 0" "u_role v = ''root''"
  proof -
    have "\<not> count_users (\<lambda>w. u_role w = ''root'' \<and> u_enabled w = 1 \<and> u_id w \<noteq> t) d \<le> 0"
      using None assms(1,3) v that by (auto simp: toggle_check_def split: if_splits)
    from count_usersD [OF this] show ?thesis by blast
  qed
  moreover have "users_become (with_enabled e t en) d ?d"
    using wf_update_users [of d] by (auto simp: users_become_def with_enabled_def sql_update_users_def kept_def schema_current_def)
  ultimately have "acct_change e a User_toggle d ?d" using v assms(4,5) acct_change.toggled by blast
  then have step: "\<exists>d'. cur (auth_audit_log e a act t det ip (set_cur ?d st)) = Some d' \<and> acct_change e a User_toggle d d'" for act det ip
    using audit_quiet [OF cur_set_cur' [OF assms(1)], of e a act t det ip ?d] acct_change_quiet by blast
  have "fst (users_toggle e a t en st) = st \<or> fst (users_toggle e a t en st)
      = auth_audit_log e a (if en \<noteq> 0 then ''enable_user'' else ''disable_user'') t (Some []) (remote_addr e) (set_cur ?d st)"
    using None assms(1) by (simp add: users_toggle_def toggle_apply_def)
  then show ?thesis
  proof
    assume "fst (users_toggle e a t en st) = st"
    then show ?thesis using assms(1) by auto
  next
    assume r: "fst (users_toggle e a t en st) = auth_audit_log e a (if en \<noteq> 0 then ''enable_user'' else ''disable_user'') t (Some []) (remote_addr e) (set_cur ?d st)"
    show ?thesis unfolding r using step by blast
  qed
qed (use assms(1) in \<open>auto simp: users_toggle_def\<close>)

lemma set_password_become: "users_become (with_password e t h) d (set_password e t h d)"
  using wf_set_password schema_current_frame(1)
  by (auto simp: users_become_def with_password_def set_password_def sql_update_users_def kept_def schema_current_def)

text \<open>A password is written, the sessions of the account are ended, the trail gets a row.\<close>

lemma password_steps:
  assumes "cur st = Some d"
  shows "\<exists>d'. cur (auth_audit_log e a act t det ip (auth_kick_user_sessions e t k (set_cur (set_password e t h d) st))) = Some d'
    \<and> users_become (with_password e t h) d d'"
proof -
  have "cur (set_cur (set_password e t h d) st) = Some (set_password e t h d)" using assms by simp
  then obtain d1 where d1: "cur (auth_kick_user_sessions e t k (set_cur (set_password e t h d) st)) = Some d1" "quiet (set_password e t h d) d1"
    using kick_quiet by blast
  obtain d2 where "cur (auth_audit_log e a act t det ip (auth_kick_user_sessions e t k (set_cur (set_password e t h d) st))) = Some d2" "quiet d1 d2"
    using audit_quiet [OF d1(1)] by blast
  then show ?thesis using users_become_quiet [OF set_password_become] d1(2) quiet_trans by blast
qed

lemma passwd_effect:
  assumes "cur st = Some d" "posted_id e = Some t" "get_post_param e ''password'' = Some pw"
  shows "\<exists>d'. cur (fst (users_passwd e a t (Some pw) st)) = Some d' \<and> (quiet d d' \<or> acct_change e a User_passwd d d')"
proof -
  have step: "\<exists>d'. cur (auth_audit_log e a act t det ip (auth_kick_user_sessions e t k (set_cur (set_password e t h d) st))) = Some d'
      \<and> (quiet d d' \<or> acct_change e a User_passwd d d')"
    if "auth_password_policy_ok pw = None" "auth_hash_password e (Some pw) 256 = Some h" for h act det ip k
    using password_steps [OF assms(1)] acct_change.password [OF assms(2,3) that] by metis
  show ?thesis using assms
    by (auto simp: users_passwd_def Let_def intro: step split: option.splits if_splits)
qed

text \<open>A user changing the own password has given the old one.\<close>

definition own_password :: "env \<Rightarrow> int \<Rightarrow> database \<Rightarrow> database \<Rightarrow> bool" where
  "own_password e a d d' \<longleftrightarrow> (\<exists>old new h u v. lookup_user a d = Some u \<and> get_post_param e ''old_password'' = Some old
     \<and> v \<in> set (t_users d) \<and> u_username v = snprintf_s 64 (u_username u) \<and> u_enabled v = 1
     \<and> auth_verify_password (Some old) (Some (u_password_hash v))
     \<and> get_post_param e ''new_password'' = Some new \<and> auth_password_policy_ok new = None \<and> auth_hash_password e (Some new) 256 = Some h
     \<and> users_become (with_password e a h) d d')"

lemma own_password_quiet: "own_password e a d d1 \<Longrightarrow> quiet d1 d2 \<Longrightarrow> own_password e a d d2"
  unfolding own_password_def by (blast intro: users_become_quiet)

lemma change_effect:
  assumes "cur st = Some d" "get_post_param e ''old_password'' = Some old" "get_post_param e ''new_password'' = Some new"
  shows "\<exists>d'. cur (fst (users_change_password e a (Some old) (Some new) k st)) = Some d' \<and> (quiet d d' \<or> own_password e a d d')"
proof (cases "fst (users_change_password e a (Some old) (Some new) k st) = st")
  case True
  then show ?thesis using assms(1) by auto
next
  case False
  note eq = users_change_password_def prod.case option.case assms(1)
  obtain y where g: "g_db st = Some y" using cur_SomeD [OF assms(1)] by auto
  have "step_ok (eng e) Q_name_select \<and> lookup_user a d \<noteq> None" using False unfolding eq by (rule contrapos_np) auto
  then obtain u where u: "step_ok (eng e) Q_name_select" "lookup_user a d = Some u" by auto
  have login: "0 \<le> auth_user_login e (Some (snprintf_s 64 (u_username u))) (Some old) st"
    using False unfolding eq by (rule contrapos_np) (simp add: u Let_def)
  have pol: "auth_password_policy_ok new = None"
    using False unfolding eq by (rule contrapos_np) (auto simp add: u Let_def split: option.split)
  obtain h where h: "auth_hash_password e (Some new) 256 = Some h"
    using False unfolding eq by (cases "auth_hash_password e (Some new) 256") (simp_all add: Let_def pol split: if_splits)
  have r: "fst (users_change_password e a (Some old) (Some new) k st) = auth_audit_log e a ''change_password'' a (Some []) (remote_addr e)
      (auth_kick_user_sessions e a k (set_cur (set_password e a h d) st))"
    using False unfolding eq by (simp add: Let_def pol h split: if_splits)
  obtain v where "v \<in> set (t_users d)" "u_username v = snprintf_s 64 (u_username u)" "u_enabled v = 1"
    "auth_verify_password (Some old) (Some (u_password_hash v))"
    using login_sound [OF refl login] assms(1) by auto
  then show ?thesis unfolding r own_password_def using password_steps [OF assms(1)] u(2) pol h assms(2,3) by blast
qed

section \<open>Logging in\<close>

text \<open>One session is added, of the account \<open>i\<close>, for an hour; nothing of the accounts changes but the time
  of the last login.\<close>

definition creds :: "database \<Rightarrow> user_row list" where
  "creds d = map (\<lambda>u. u\<lparr>u_last_login_at := None\<rparr>) (t_users d)"

definition new_session :: "env \<Rightarrow> int \<Rightarrow> database \<Rightarrow> database \<Rightarrow> bool" where
  "new_session e i d d' \<longleftrightarrow> (\<exists>row. s_user_id row = i \<and> s_expires_at row = time_now e + 3600
     \<and> s_sid row = auth_generate_token (ent_sid e) (time_now e) 64 \<and> set (t_sessions d') \<subseteq> insert row (set (t_sessions d)))
     \<and> creds d' = creds d \<and> users_seq d' = users_seq d \<and> kept d d'"

lemma new_session_quiet: "new_session e i d d1 \<Longrightarrow> quiet d1 d2 \<Longrightarrow> new_session e i d d2"
  unfolding new_session_def quiet_def kept_def creds_def by (elim exE conjE) (auto 0 3)

lemma session_effect:
  assumes "cur st = Some d"
  shows "\<exists>d'. cur (fst (auth_session_create e i ip st)) = Some d' \<and> (quiet d d' \<or> new_session e i d d')"
proof -
  have step: "new_session e i d (if b then sql_update_users (\<lambda>u. u_id u = i) (\<lambda>u. u\<lparr>u_last_login_at := Some (time_now e)\<rparr>) d1 else d1)"
    if "sql_insert_session row d = Some d1" "s_user_id row = i" "s_expires_at row = time_now e + 3600"
      "s_sid row = auth_generate_token (ent_sid e) (time_now e) 64" for row d1 b
  proof -
    have "schema_current d1 = schema_current d" using that(1) by (auto simp: sql_insert_session_def schema_current_def split: if_splits)
    then have k: "kept d d1" using wf_insert_session [OF _ that(1)] by (simp add: kept_def)
    then have "kept d (sql_update_users (\<lambda>u. u_id u = i) (\<lambda>u. u\<lparr>u_last_login_at := Some (time_now e)\<rparr>) d1)"
      using wf_update_users [of d1] by (auto simp: kept_def)
    then show ?thesis using that k
      by (auto simp: new_session_def sql_insert_session_def sql_update_users_def creds_def split: if_splits)
  qed
  show ?thesis using assms by (auto simp: auth_session_create_def Let_def intro: step [where b = True, simplified] step [where b = False, simplified] split: option.split)
qed

end
