(* ===== verification/Site.thy ===== *)
theory Site
  imports SiteSpec Network LogView Ntpmon Timesync
begin

text \<open>
  The CGI programs together, as the site runs them: a sequence of requests, each a fresh process on
  the same database file.  Every program implements the abstract effects of \<open>SiteSpec\<close>; what follows
  for the accounts and the sessions over a whole run of the site is proved from them.
\<close>

section \<open>Requests and runs\<close>

datatype page = Login_page | Logout_page | Main_page | Admin_page admin_cgi | Password_page | User_list_page
  | Network_page | Ntpmon_page | Timesync_page | Log_page

text \<open>What the programs use outside the process: the host, the text of \<open>errno\<close>, the commands and the
  serial line.\<close>

record 's outside =
  os :: host
  errno_text :: string
  commands :: "'s nmcli"
  serial :: "'s tty"

fun serve :: "'s outside \<Rightarrow> page \<Rightarrow> env \<Rightarrow> world \<times> 's \<Rightarrow> (world \<times> 's) option" where
  "serve x Login_page e (w, s) = Some (login_main e w, s)"
| "serve x Logout_page e (w, s) = Some (logout_main e w, s)"
| "serve x Main_page e (w, s) = Some (main_main e w, s)"
| "serve x (Admin_page c) e (w, s) = Some (admin_main c e w, s)"
| "serve x Password_page e (w, s) = Some (user_change_pass_main e w, s)"
| "serve x User_list_page e (w, s) = map_option (\<lambda>w'. (w', s)) (user_list_main e w)"
| "serve x Network_page e (w, s) = Some (network_main e (commands x) (w, s))"
| "serve x Ntpmon_page e (w, s) = Some (ntpmon_main e (os x) (commands x) (w, s))"
| "serve x Timesync_page e (w, s) = Some (timesync_main e (os x) (errno_text x) (commands x) (serial x) (w, s))"
| "serve x Log_page e (w, s) = Some (log_main e (os x) w, s)"

text \<open>A new process: no database open, nothing printed, the files as the rest of the system left them.\<close>

definition process :: "(string \<Rightarrow> string option) \<Rightarrow> world \<Rightarrow> world" where
  "process fs w = w\<lparr>g_db := None, g_db_path := [], w_out := [], w_files := fs\<rparr>"

type_synonym request = "page \<times> env \<times> (string \<Rightarrow> string option)"

fun site_run :: "'s outside \<Rightarrow> request list \<Rightarrow> world \<times> 's \<Rightarrow> (world \<times> 's) option" where
  "site_run x [] ws = Some ws"
| "site_run x ((pg, e, fs) # rs) (w, s) = (case serve x pg e (process fs w, s) of
     None \<Rightarrow> None | Some ws \<Rightarrow> site_run x rs ws)"

section \<open>The database open and closed\<close>

definition opened :: "string \<Rightarrow> (database \<Rightarrow> bool) \<Rightarrow> 'a auth_state_scheme \<Rightarrow> bool" where
  "opened p P w \<longleftrightarrow> g_db w = Some p \<and> (\<exists>d. cur w = Some d \<and> P d)"

definition closed :: "string \<Rightarrow> (database \<Rightarrow> bool) \<Rightarrow> 'a auth_state_scheme \<Rightarrow> bool" where
  "closed p P w \<longleftrightarrow> g_db w = None \<and> (\<exists>d. disk w p = Some d \<and> P d)"

definition stable :: "(database \<Rightarrow> bool) \<Rightarrow> bool" where
  "stable P \<longleftrightarrow> (\<forall>d d'. P d \<longrightarrow> quiet d d' \<longrightarrow> P d')"

lemma stable_quiet [simp]: "stable (quiet d)"
  using quiet_trans by (auto simp: stable_def)

lemma opened_mono: "opened p P w \<Longrightarrow> (\<And>d. P d \<Longrightarrow> Q d) \<Longrightarrow> opened p Q w"
  by (auto simp: opened_def)

lemma closed_mono: "closed p P w \<Longrightarrow> (\<And>d. P d \<Longrightarrow> Q d) \<Longrightarrow> closed p Q w"
  by (auto simp: closed_def)

lemma json_plain_frame [simp]: "cur (json_plain a b w) = cur w" "g_db (json_plain a b w) = g_db w" "disk (json_plain a b w) = disk w"
  by (simp_all add: json_plain_def)

lemma err_json_frame [simp]: "cur (err_json a w) = cur w" "g_db (err_json a w) = g_db w" "disk (err_json a w) = disk w"
  by (simp_all add: err_json_def)

lemma files_frame [simp]: "cur (w\<lparr>w_files := fs\<rparr>) = cur w" "g_db (w\<lparr>w_files := fs\<rparr>) = g_db w" "disk (w\<lparr>w_files := fs\<rparr>) = disk w"
  by (simp_all add: cur_def split: option.split)

lemma opened_frame [simp]:
  "opened p P (emit s w) = opened p P w" "opened p P (cgi_header s w) = opened p P w"
  "opened p P (cgi_redirect s w) = opened p P w" "opened p P (json_error s w) = opened p P w"
  "opened p P (json_plain a s w) = opened p P w" "opened p P (err_json s w) = opened p P w"
  "opened p P (w\<lparr>w_files := fs\<rparr>) = opened p P w" "opened p P (confirm_rollback e w) = opened p P w"
  "opened p P (gate_emit_session_cookies u v w) = opened p P w"
  by (simp_all add: opened_def)

lemma closed_frame [simp]:
  "closed p P (emit s w) = closed p P w" "closed p P (cgi_header s w) = closed p P w"
  "closed p P (cgi_redirect s w) = closed p P w" "closed p P (json_error s w) = closed p P w"
  "closed p P (json_plain a s w) = closed p P w" "closed p P (err_json s w) = closed p P w"
  "closed p P (gate_emit_session_cookies u v w) = closed p P w"
  "closed p P (emit_not_authenticated b w) = closed p P w" "closed p P (w\<lparr>w_files := fs\<rparr>) = closed p P w"
  by (simp_all add: closed_def)

lemma closed_process [simp]: "closed p P (process fs w) = (\<exists>d. disk w p = Some d \<and> P d)"
  by (simp add: closed_def process_def)

lemma closed_cleanup: "opened p P w \<Longrightarrow> stable P \<Longrightarrow> closed p P (auth_cleanup e w)"
  by (auto simp: opened_def closed_def stable_def auth_cleanup_def auth_session_cleanup_def disk_set_cur cur_def
      split: option.splits)

lemma opened_audit: "opened p P w \<Longrightarrow> stable P \<Longrightarrow> opened p P (auth_audit_log e op act tg det ip w)"
  using audit_quiet unfolding opened_def stable_def by (metis g_db_audit_log)

section \<open>The gate\<close>

definition authorised :: "env \<Rightarrow> database \<Rightarrow> session_row \<Rightarrow> user_row \<Rightarrow> bool" where
  "authorised e d row u \<longleftrightarrow> row \<in> set (t_sessions d) \<and> get_cookie e ''session_id'' = Some (s_sid row)
     \<and> time_now e < s_expires_at row \<and> u \<in> set (t_users d) \<and> u_id u = s_user_id row \<and> u_enabled u \<noteq> 0"

definition posted_csrf :: "env \<Rightarrow> session_row \<Rightarrow> bool" where
  "posted_csrf e row \<longleftrightarrow> get_post_param e ''csrf_token'' = Some (take 32 (s_csrf_token row))"

lemma init_closed:
  assumes "closed p ((=) d) w" "schema_current d"
  shows "snd (auth_init e p w) = 0 \<Longrightarrow> opened p ((=) d) (fst (auth_init e p w))"
    and "snd (auth_init e p w) \<noteq> 0 \<Longrightarrow> closed p (quiet d) (fst (auth_init e p w))"
proof -
  have w: "g_db w = None" "disk w p = Some d" using assms(1) by (auto simp: closed_def)
  show "opened p ((=) d) (fst (auth_init e p w))" if "snd (auth_init e p w) = 0"
    using init_current(1) [OF w assms(2) that] auth_init_open [OF that w(1)] by (simp add: opened_def)
  have "opened p (quiet d) (w\<lparr>g_db := Some p, g_db_path := q\<rparr>)" for q
    using w by (simp add: opened_def cur_def)
  then show "closed p (quiet d) (fst (auth_init e p w))" if "snd (auth_init e p w) \<noteq> 0"
    using that w by (auto simp: auth_init_def auth_cleanup_def [of e w] Let_def closed_def [of p "quiet d" "w\<lparr>g_db := None\<rparr>"]
        intro: closed_cleanup split: if_splits)
qed

lemma gate_refused:
  assumes "gate_session e pm sk w = (w1, None)" "closed (gate_db_path e) ((=) d) w" "schema_current d"
  shows "closed (gate_db_path e) (quiet d) w1"
proof -
  let ?i = "auth_init e (gate_db_path e) w"
  have o: "snd ?i = 0 \<Longrightarrow> closed (gate_db_path e) (quiet d) (auth_cleanup e (fst ?i))"
    using init_closed(1) [OF assms(2,3), of e] by (auto intro!: closed_cleanup elim: opened_mono)
  show ?thesis
    using assms(1) o init_closed(2) [OF assms(2,3), of e] closed_mono [OF assms(2), of "quiet d"]
    by (auto simp: gate_session_def Let_def split: option.splits prod.splits if_splits)
qed

lemma gate_passed:
  assumes "gate_session e pm sk w = (w1, Some s)" "closed (gate_db_path e) ((=) d) w" "schema_current d"
    "db_wf d" "users_seq d < 2147483648"
  obtains row u where "opened (gate_db_path e) ((=) d) w1" "authorised e d row u" "si_user_id s = u_id u"
    "si_role s = u_role u" "si_csrf_token s = take 32 (s_csrf_token row)"
proof -
  obtain sid where sid: "get_cookie e ''session_id'' = Some sid" "snd (auth_init e (gate_db_path e) w) = 0"
    "w1 = fst (auth_init e (gate_db_path e) w)" "auth_session_verify e (Some sid) w1 = Some s"
    using gate_session_Some [OF assms(1)] by metis
  have op: "opened (gate_db_path e) ((=) d) w1" using init_closed(1) [OF assms(2,3) sid(2)] sid(3) by simp
  then have c1: "cur w1 = Some d" by (auto simp: opened_def)
  show thesis
    by (rule session_verify_row [OF sid(4) c1 assms(4,5)]) (use sid(1) op in \<open>auto intro!: that simp: authorised_def\<close>)
qed

lemma opened_eq: "opened p ((=) d) w \<Longrightarrow> opened p (quiet d) w"
  by (auto simp: opened_def)

lemma opened_init: "closed p ((=) d) w \<Longrightarrow> schema_current d \<Longrightarrow> snd (auth_init e p w) = 0 \<Longrightarrow> opened p (quiet d) (fst (auth_init e p w))"
  by (rule opened_eq [OF init_closed(1)])

lemma gate_opened:
  assumes "gate_session e pm sk w = (w1, Some s)" "closed (gate_db_path e) ((=) d) w" "schema_current d"
  shows "opened (gate_db_path e) (quiet d) w1"
  by (rule gate_session_Some [OF assms(1)]) (use opened_init [OF assms(2,3), of e] in simp)

lemma role_frame [simp]: "fst (gate_require_role s r w) = (if snd (gate_require_role s r w) then w else json_error ''Forbidden'' w)"
  "fst (gate_require_csrf s t w) = (if snd (gate_require_csrf s t w) then w else json_error ''CSRF token invalid'' w)"
  by (simp_all add: gate_require_role_def gate_require_csrf_def)

section \<open>Programs that leave the accounts alone\<close>

lemma quiet_cleanup: "opened p (quiet d) w \<Longrightarrow> closed p (quiet d) (auth_cleanup e w)"
  by (rule closed_cleanup) simp_all

text \<open>A program that starts with the gate: it is enough to look at it behind the gate.\<close>

lemma gated:
  assumes "closed (gate_db_path e) ((=) d) w" "schema_current d"
    "\<And>w1. closed (gate_db_path e) (quiet d) w1 \<Longrightarrow> closed (gate_db_path e) (quiet d) (f w1 None)"
    "\<And>w1 s. opened (gate_db_path e) (quiet d) w1 \<Longrightarrow> closed (gate_db_path e) (quiet d) (f w1 (Some s))"
  shows "closed (gate_db_path e) (quiet d) (case gate_session e pm sk w of (w1, r) \<Rightarrow> f w1 r)"
proof (cases "gate_session e pm sk w")
  case (Pair w1 r)
  then show ?thesis using gate_refused [OF _ assms(1,2)] gate_opened [OF _ assms(1,2)] assms(3,4)
    by (cases r) simp_all
qed

lemma main_quiet:
  assumes "closed (gate_db_path e) ((=) d) w" "schema_current d"
  shows "closed (gate_db_path e) (quiet d) (main_main e w)"
  unfolding main_main_def gate_page_session_def
  by (rule gated [OF assms]) (simp_all add: Let_def quiet_cleanup split: option.split)

lemma logout_quiet:
  assumes "closed (gate_db_path e) ((=) d) w" "schema_current d"
  shows "closed (gate_db_path e) (quiet d) (logout_main e w)"
proof -
  let ?p = "gate_db_path e" and ?w1 = "fst (auth_init e (gate_db_path e) w)"
  have "opened ?p (quiet d) (auth_session_destroy e k ?w1)" if "opened ?p (quiet d) ?w1" for k
    using that destroy_quiet [of ?w1 _ e k] quiet_trans
    by (fastforce simp: opened_def auth_session_destroy_def split: option.splits)
  moreover have "auth_session_destroy e k ?w1 = ?w1" "auth_cleanup e ?w1 = ?w1\<lparr>g_db := None\<rparr>" "?w1\<lparr>g_db := None\<rparr> = ?w1" if "closed ?p (quiet d) ?w1" for k
    using that by (auto simp: closed_def auth_session_destroy_def auth_cleanup_def auth_session_cleanup_def cur_def)
  moreover have "opened ?p (quiet d) ?w1 \<or> closed ?p (quiet d) ?w1"
    using opened_init [OF assms, of e] init_closed(2) [OF assms, of e] by blast
  ultimately have "closed ?p (quiet d) (auth_cleanup e (auth_session_destroy e k ?w1)) \<and> closed ?p (quiet d) (auth_cleanup e ?w1)" for k
    using quiet_cleanup by metis
  then show ?thesis by (simp add: logout_main_def Let_def split: option.split)
qed

lemma list_quiet:
  assumes "closed (gate_db_path e) ((=) d) w" "schema_current d" "user_list_main e w = Some w'"
  shows "closed (gate_db_path e) (quiet d) w'"
proof (cases "gate_session e False False w")
  case (Pair w1 r)
  show ?thesis
  proof (cases r)
    case None
    then show ?thesis using Pair assms gate_refused [OF _ assms(1,2)] by (simp add: user_list_main_def gate_json_session_def)
  next
    case (Some s)
    then have "opened (gate_db_path e) (quiet d) w1" using Pair gate_opened [OF _ assms(1,2)] by simp
    then show ?thesis using Pair Some assms(3)
      by (auto intro!: quiet_cleanup simp: user_list_main_def gate_json_session_def gate_require_role_def Let_def
        split: if_splits fetch_result.splits)
  qed
qed

lemma log_quiet:
  assumes "closed (gate_db_path e) ((=) d) w" "schema_current d"
  shows "closed (gate_db_path e) (quiet d) (log_main e h w)"
proof -
  have [simp]: "opened p P (handle_sources e h w) = opened p P w" "opened p P (handle_tail e h w) = opened p P w" for p P and w :: "'a world_scheme"
    by (simp_all add: handle_sources_def handle_tail_def Let_def split: option.split)
  show ?thesis unfolding log_main_def gate_json_session_def
    by (rule gated [OF assms]) (simp_all add: quiet_cleanup gate_require_role_def split: option.split)
qed

lemma quiet_audit: "opened p (quiet d) w \<Longrightarrow> opened p (quiet d) (auth_audit_log e op act tg det ip w)"
  by (rule opened_audit) simp_all

lemma set_opened: "opened p P w \<Longrightarrow> opened p P (fst (fst (handle_set e run nic (w, s))))"
  by (simp add: handle_set_def arm_rollback_def Let_def split: prod.split option.split sum.split)

lemma network_quiet:
  assumes "closed (gate_db_path e) ((=) d) w" "schema_current d"
  shows "closed (gate_db_path e) (quiet d) (fst (network_main e run (w, s)))"
proof -
  have get: "closed p P (fst (handle_get e run nic (w, s)))" if "closed p P w" for p P nic and w :: "'a world_scheme"
    using that by (simp add: handle_get_def split: prod.split sum.split)
  have set: "closed p (quiet d) (fst (case handle_set e run nic (w, s) of ((w3, s3), ok) \<Rightarrow>
      (auth_cleanup e (if ok then auth_audit_log e op act tg det ip w3 else w3), s3)))"
    if "opened p (quiet d) w" for p nic op act tg det ip and w :: "'a world_scheme"
    using set_opened [OF that, of e run nic s] by (auto intro!: quiet_cleanup quiet_audit split: prod.split)
  show ?thesis unfolding network_main_def gate_json_session_def prod.case
    by (subst prod.case_distrib [of fst], rule gated [OF assms])
      (auto simp: Let_def gate_require_csrf_def intro!: quiet_cleanup get set split: option.split)
qed

lemma ntpmon_quiet:
  assumes "closed (gate_db_path e) ((=) d) w" "schema_current d"
  shows "closed (gate_db_path e) (quiet d) (fst (ntpmon_main e h run (w, s)))"
proof -
  have stats: "closed p P (handle_stats e h w)" if "closed p P w" for p P and w :: "'a world_scheme"
    using that by (simp add: handle_stats_def split: option.split)
  have acl: "opened p (quiet d) (fst (handle_acl_op e run si (w, s)))" if "opened p (quiet d) w" for p si and w :: "'a world_scheme"
    using that by (simp add: handle_acl_op_def Let_def quiet_audit split: option.split prod.split)
  show ?thesis unfolding ntpmon_main_def gate_json_session_def prod.case
    by (subst prod.case_distrib [of fst], rule gated [OF assms])
      (auto simp: Let_def gate_require_csrf_def gate_require_role_def case_prod_unfold intro!: quiet_cleanup stats acl split: option.split)
qed

lemma timesync_quiet:
  assumes "closed (gate_db_path e) ((=) d) w" "schema_current d"
  shows "closed (gate_db_path e) (quiet d) (fst (timesync_main e h er run tty (w, s)))"
proof -
  have status: "closed p P (fst (handle_status e h run (w, s)))" if "closed p P w" for p P and w :: "'a world_scheme"
    using that by (simp add: handle_status_def split: option.split prod.split)
  have save: "opened p (quiet d) (fst (timesync_mode_save e h er m n w))" if "opened p (quiet d) w" for p m n and w :: "'a world_scheme"
    using that by (simp add: timesync_mode_save_def Let_def split: option.split prod.split)
  have mode: "opened p (quiet d) (fst (handle_setmode e h er tty m si (w, s)))" if "opened p (quiet d) w" for p m si and w :: "'a world_scheme"
    using that by (simp add: handle_setmode_def Let_def quiet_audit save case_prod_unfold split: option.split)
  show ?thesis unfolding timesync_main_def gate_json_session_def prod.case
    by (subst prod.case_distrib [of fst], rule gated [OF assms])
      (auto simp: Let_def gate_require_csrf_def case_prod_unfold intro!: quiet_cleanup status mode split: option.split)
qed

section \<open>What a request may do\<close>

definition logged_in :: "env \<Rightarrow> database \<Rightarrow> user_row \<Rightarrow> bool" where
  "logged_in e d u \<longleftrightarrow> u \<in> set (t_users d) \<and> u_enabled u = 1 \<and> get_post_param e ''user'' = Some (u_username u)
     \<and> (\<exists>pw. get_post_param e ''pass'' = Some pw \<and> auth_verify_password (Some pw) (Some (u_password_hash u)))"

text \<open>A request leaves the accounts alone and adds no session; or it is a login whose password
  verifies, which adds a session of that account; or it administers accounts, sent with the cookie and
  the CSRF token of a live session of an enabled root account; or it changes the sender's own
  password, with cookie, token and the old password.\<close>

inductive request_effect :: "page \<Rightarrow> env \<Rightarrow> database \<Rightarrow> database \<Rightarrow> bool" for pg e d d' where
  quietly: "request_effect pg e d d'" if "quiet d d'"
| login: "request_effect pg e d d'" if "pg = Login_page" "logged_in e d u" "new_session e (u_id u) d d'"
| admin: "request_effect pg e d d'" if "pg = Admin_page c" "authorised e d row u" "posted_csrf e row" "u_role u = ''root''"
    "acct_change e (u_id u) c d d'"
| own: "request_effect pg e d d'" if "pg = Password_page" "authorised e d row u" "posted_csrf e row" "own_password e (u_id u) d d'"

inductive_cases request_effectE: "request_effect pg e d d'"

lemma request_effect_quiet: "request_effect pg e d d1 \<Longrightarrow> quiet d1 d2 \<Longrightarrow> request_effect pg e d d2"
  by (induction rule: request_effect.induct)
    (blast intro: request_effect.intros quiet_trans new_session_quiet acct_change_quiet own_password_quiet)+

lemma stable_request [simp]: "stable (request_effect pg e d)"
  using request_effect_quiet by (auto simp: stable_def)

lemma closed_passive: "closed p (quiet d) w \<Longrightarrow> closed p (request_effect pg e d) w"
  by (erule closed_mono) (rule request_effect.quietly)

definition sound_db :: "database \<Rightarrow> bool" where
  "sound_db d \<longleftrightarrow> db_wf d \<and> schema_current d \<and> users_seq d < 2147483648"

lemma answer_closed: "opened p P (fst r) \<Longrightarrow> stable P \<Longrightarrow> closed p P (answer e ct m r)"
  by (cases r) (simp add: answer_def closed_cleanup)

lemma bad_request_closed: "opened p (quiet d) w \<Longrightarrow> closed p (quiet d) (bad_request e m w)"
  by (simp add: bad_request_def quiet_cleanup)

lemma ladder_effect:
  assumes "closed (gate_db_path e) ((=) d) w" "sound_db d"
    "\<And>w1 s row u. opened (gate_db_path e) ((=) d) w1 \<Longrightarrow> authorised e d row u \<Longrightarrow> posted_csrf e row \<Longrightarrow> u_role u = ''root''
       \<Longrightarrow> si_user_id s = u_id u \<Longrightarrow> closed (gate_db_path e) (request_effect pg e d) (k s w1)"
  shows "closed (gate_db_path e) (request_effect pg e d) (root_ladder e k w)"
proof (cases "gate_session e False False w")
  case (Pair w1 r)
  have d: "schema_current d" "db_wf d" "users_seq d < 2147483648" using assms(2) by (simp_all add: sound_db_def)
  show ?thesis
  proof (cases r)
    case None
    have "closed (gate_db_path e) (request_effect pg e d) w1"
      by (rule closed_passive [OF gate_refused [OF Pair [unfolded None] assms(1) d(1)]])
    then show ?thesis using Pair None by (simp add: root_ladder_def gate_json_session_def)
  next
    case (Some s)
    obtain row u where g: "opened (gate_db_path e) ((=) d) w1" "authorised e d row u" "si_user_id s = u_id u"
      "si_role s = u_role u" "si_csrf_token s = take 32 (s_csrf_token row)"
      by (rule gate_passed [OF Pair [unfolded Some] assms(1) d])
    have "closed (gate_db_path e) (request_effect pg e d) (auth_cleanup e (json_error m w1))" for m
      using opened_eq [OF g(1)] by (intro closed_passive quiet_cleanup) simp
    moreover have "posted_csrf e row" if "auth_csrf_verify s (get_post_param e ''csrf_token'')"
      using that g(5) by (auto simp: auth_csrf_verify_def posted_csrf_def split: option.splits)
    ultimately show ?thesis using Pair Some assms(3) [OF g(1,2) _ _ g(3)] g(4)
      by (simp add: root_ladder_def gate_json_session_def gate_require_role_def gate_require_csrf_def auth_require_role_def)
  qed
qed

text \<open>From what an operation does to the current database to what the program does.\<close>

lemma op_effect:
  assumes "opened p ((=) d) w1" "g_db (fst r) = g_db w1" "\<exists>d'. cur (fst r) = Some d' \<and> (quiet d d' \<or> E d')"
    "\<And>d'. E d' \<Longrightarrow> request_effect pg e d d'"
  shows "closed p (request_effect pg e d) (answer e ct m r)"
proof -
  have "opened p (request_effect pg e d) (fst r)"
    using assms by (auto simp: opened_def intro: request_effect.quietly)
  then show ?thesis by (rule answer_closed) simp
qed

lemma g_db_users [simp]:
  "g_db (fst (users_create e a n p st)) = g_db st" "g_db (fst (users_delete e a t st)) = g_db st"
  "g_db (fst (users_toggle e a t en st)) = g_db st" "g_db (fst (users_passwd e a t p st)) = g_db st"
  "g_db (fst (users_change_password e a old new k st)) = g_db st"
  by (auto simp: users_create_def users_delete_def users_toggle_def toggle_apply_def users_passwd_def
      users_change_password_def Let_def split: option.split)

lemma admin_effect:
  assumes "closed (gate_db_path e) ((=) d) w" "sound_db d" "runs (eng e) Q_root_count"
  shows "closed (gate_db_path e) (request_effect (Admin_page c) e d) (admin_main c e w)"
proof -
  let ?R = "request_effect (Admin_page c) e d"
  have eff: "closed (gate_db_path e) ?R (answer e ct m r)"
    if "opened (gate_db_path e) ((=) d) w1" "authorised e d row u" "posted_csrf e row" "u_role u = ''root''"
      "g_db (fst r) = g_db w1" "\<exists>d'. cur (fst r) = Some d' \<and> (quiet d d' \<or> acct_change e (u_id u) c d d')"
    for ct m r row u and w1 :: "'a world_scheme"
    by (rule op_effect [where E = "acct_change e (u_id u) c d", OF that(1,5,6)]) (rule request_effect.admin [OF refl that(2-4)])
  have bad: "closed (gate_db_path e) ?R (bad_request e m w1)" if "opened (gate_db_path e) ((=) d) w1" for m and w1 :: "'a world_scheme"
    by (rule closed_passive [OF bad_request_closed [OF opened_eq [OF that]]])
  have c: "cur w1 = Some d" if "opened (gate_db_path e) ((=) d) w1" for w1 :: "'a world_scheme"
    using that by (auto simp: opened_def)
  have wf: "db_wf d" "db_wf d \<and> schema_current d" using assms(2) by (simp_all add: sound_db_def)
  show ?thesis
  proof (cases c)
    case User_create
    show ?thesis unfolding User_create admin_main.simps user_create_main_def
      by (rule ladder_effect [OF assms(1,2)], rule eff [unfolded User_create]) (auto intro!: create_effect c)
  next
    case User_delete
    show ?thesis unfolding User_delete admin_main.simps user_delete_main_def
      by (rule ladder_effect [OF assms(1,2)], cases "get_post_param e ''user_id''")
        (auto intro!: bad [unfolded User_delete] eff [unfolded User_delete] delete_effect wf(2) c simp: posted_id_def)
  next
    case User_toggle
    show ?thesis unfolding User_toggle admin_main.simps user_toggle_main_def
      by (rule ladder_effect [OF assms(1,2)], cases "get_post_param e ''user_id''"; cases "get_post_param e ''enabled''")
        (auto intro!: bad [unfolded User_toggle] eff [unfolded User_toggle] toggle_effect wf(1) assms(3) c simp: posted_id_def Let_def)
  next
    case User_passwd
    show ?thesis unfolding User_passwd admin_main.simps user_passwd_main_def
      by (rule ladder_effect [OF assms(1,2)], cases "get_post_param e ''user_id''"; cases "get_post_param e ''password''")
        (auto intro!: bad [unfolded User_passwd] eff [unfolded User_passwd] passwd_effect c simp: posted_id_def)
  qed
qed

lemma change_pass_effect:
  assumes "closed (gate_db_path e) ((=) d) w" "sound_db d"
  shows "closed (gate_db_path e) (request_effect Password_page e d) (user_change_pass_main e w)"
proof (cases "gate_session e False True w")
  case (Pair w1 r)
  have d: "schema_current d" "db_wf d" "users_seq d < 2147483648" using assms(2) by (simp_all add: sound_db_def)
  show ?thesis
  proof (cases r)
    case None
    have "closed (gate_db_path e) (request_effect Password_page e d) w1"
      by (rule closed_passive [OF gate_refused [OF Pair [unfolded None] assms(1) d(1)]])
    then show ?thesis using Pair None by (simp add: user_change_pass_main_def gate_json_session_no_policy_def)
  next
    case (Some s)
    obtain row u where g: "opened (gate_db_path e) ((=) d) w1" "authorised e d row u" "si_user_id s = u_id u"
      "si_role s = u_role u" "si_csrf_token s = take 32 (s_csrf_token row)"
      by (rule gate_passed [OF Pair [unfolded Some] assms(1) d])
    have c: "cur w1 = Some d" using g(1) by (auto simp: opened_def)
    have err: "closed (gate_db_path e) (request_effect Password_page e d) (auth_cleanup e (json_error m w1))" for m
      using opened_eq [OF g(1)] by (intro closed_passive quiet_cleanup) simp
    have chg: "closed (gate_db_path e) (request_effect Password_page e d)
        (answer e ct m (users_change_password e (u_id u) (Some old) (Some new) k w1))"
      if "posted_csrf e row" "get_post_param e ''old_password'' = Some old" "get_post_param e ''new_password'' = Some new" for old new k ct m
      by (rule op_effect [where E = "own_password e (u_id u) d", OF g(1)])
        (use change_effect [OF c that(2,3)] request_effect.own [OF refl g(2) that(1)] in auto)
    have "posted_csrf e row" if "auth_csrf_verify s (get_post_param e ''csrf_token'')"
      using that g(5) by (auto simp: auth_csrf_verify_def posted_csrf_def split: option.splits)
    then show ?thesis using Pair Some g(3) err chg
      by (simp add: user_change_pass_main_def gate_json_session_no_policy_def gate_require_csrf_def split: option.split)
  qed
qed

lemma login_verified:
  assumes "auth_user_login e (Some n) (Some pw) w = i" "0 \<le> i" "cur w = Some d" "sound_db d"
  obtains u where "u \<in> set (t_users d)" "u_enabled u = 1" "u_username u = n" "u_id u = i"
    "auth_verify_password (Some pw) (Some (u_password_hash u))"
proof -
  obtain u where u: "u \<in> set (t_users d)" "u_username u = n" "u_enabled u = 1" "i = to_int32 (u_id u)"
    "auth_verify_password (Some pw) (Some (u_password_hash u))"
    using login_sound [OF assms(1,2)] assms(3) by (metis option.inject)
  have "1 \<le> u_id u \<and> u_id u \<le> users_seq d" using assms(4) u(1) by (auto simp: sound_db_def db_wf_def)
  then have "i = u_id u" using u(4) assms(4) by (simp add: sound_db_def)
  then show thesis using that u by blast
qed

lemma login_effect:
  assumes "closed (gate_db_path e) ((=) d) w" "sound_db d"
  shows "closed (gate_db_path e) (request_effect Login_page e d) (login_main e w)"
proof -
  let ?p = "gate_db_path e" and ?R = "request_effect Login_page e d" and ?w1 = "fst (auth_init e (gate_db_path e) w)"
  have d: "schema_current d" using assms(2) by (simp add: sound_db_def)
  have page: "closed ?p (quiet d) (case gate_session e True False w of (w1, r) \<Rightarrow>
      (case r of None \<Rightarrow> w1 | Some _ \<Rightarrow> cgi_redirect l (auth_cleanup e w1)))" for l
    by (rule gated [OF assms(1) d]) (simp_all add: quiet_cleanup)
  have fail: "closed ?p ?R ?w1" if "snd (auth_init e ?p w) \<noteq> 0"
    by (rule closed_passive [OF init_closed(2) [OF assms(1) d that]])
  have op: "opened ?p ((=) d) ?w1" if "snd (auth_init e ?p w) = 0" by (rule init_closed(1) [OF assms(1) d that])
  have err: "closed ?p ?R (auth_cleanup e (json_error m ?w1))" if "snd (auth_init e ?p w) = 0" for m
    using opened_eq [OF op [OF that]] by (intro closed_passive quiet_cleanup) simp
  have ses: "opened ?p ?R (fst (auth_session_create e i ip ?w1))"
    if "snd (auth_init e ?p w) = 0" "auth_user_login e (Some n) (Some pw) ?w1 = i" "0 \<le> i"
      "get_post_param e ''user'' = Some n" "get_post_param e ''pass'' = Some pw" for n pw i ip
  proof -
    have c: "cur ?w1 = Some d" "g_db ?w1 = Some ?p" using op [OF that(1)] by (auto simp: opened_def)
    note a = that(2,3)
    obtain u where u: "u \<in> set (t_users d)" "u_enabled u = 1" "u_username u = n" "u_id u = i"
      "auth_verify_password (Some pw) (Some (u_password_hash u))"
      by (rule login_verified [OF a c(1) assms(2)])
    have "new_session e i d d' \<Longrightarrow> ?R d'" for d'
      using u that(4,5) by (auto intro!: request_effect.login [of _ _ _ u] simp: logged_in_def)
    then show ?thesis using session_effect [OF c(1), of e i ip] c(2) request_effect.quietly by (auto simp: opened_def)
  qed
  show ?thesis
  proof (cases "get_env e ''REQUEST_METHOD'' = ''POST'' \<and> snd (auth_init e ?p w) = 0")
    case True
    then obtain v where i: "get_env e ''REQUEST_METHOD'' = ''POST''" "auth_init e ?p w = (v, 0)"
      by (cases "auth_init e ?p w") auto
    then have ok: "snd (auth_init e ?p w) = 0" and v: "?w1 = v" by simp_all
    show ?thesis
    proof (cases "\<exists>n pw. get_post_param e ''user'' = Some n \<and> get_post_param e ''pass'' = Some pw \<and> n \<noteq> [] \<and> pw \<noteq> []
        \<and> 0 \<le> auth_user_login e (Some n) (Some pw) v")
      case True
      then obtain n pw where np: "get_post_param e ''user'' = Some n" "get_post_param e ''pass'' = Some pw" "n \<noteq> []" "pw \<noteq> []"
        "0 \<le> auth_user_login e (Some n) (Some pw) v" by auto
      obtain w2 r where cr: "auth_session_create e (auth_user_login e (Some n) (Some pw) v) (getenv e ''REMOTE_ADDR'') v = (w2, r)"
        by fastforce
      then have o2: "opened ?p ?R w2" using ses [OF ok refl _ np(1,2), unfolded v, OF np(5), of "getenv e ''REMOTE_ADDR''"] by simp
      show ?thesis using i np cr o2
        by (auto simp: login_main_def Let_def intro!: closed_cleanup split: option.split)
    next
      case False
      then show ?thesis using i err [OF ok, unfolded v]
        by (auto simp: login_main_def Let_def split: option.split)
    qed
  next
    case False
    then show ?thesis using closed_passive [OF page, of Login_page ] fail
      by (auto simp: login_main_def gate_page_session_def Let_def case_prod_unfold)
  qed
qed

section \<open>Serving one request\<close>

lemma few_users: "db_wf d \<Longrightarrow> int (length (t_users d)) \<le> users_seq d"
proof -
  assume wf: "db_wf d"
  then have "distinct (map u_id (t_users d))" "u_id ` set (t_users d) \<subseteq> {1..users_seq d}" by (auto simp: db_wf_def strict_sorted_iff)
  then have "length (t_users d) \<le> card {1..users_seq d}"
    by (metis card_mono distinct_card finite_atLeastAtMost_int length_map set_map)
  moreover have "0 \<le> users_seq d" using wf by (simp add: db_wf_def)
  ultimately show ?thesis by simp
qed

lemma list_answers:
  assumes "closed (gate_db_path e) ((=) d) w" "sound_db d" "runs (eng e) Q_users_count"
  obtains w' where "user_list_main e w = Some w'"
proof -
  have d: "schema_current d" "db_wf d" "users_seq d < 2147483648" using assms(2) by (simp_all add: sound_db_def)
  have "users_fetch_all e v \<noteq> FetchOverflow" if "cur v = Some d" for v :: "'a world_scheme"
    using that assms(3) few_users [OF d(2)] d(3) by (auto simp: users_fetch_all_def count_users_def Let_def)
  moreover have "cur w1 = Some d" if "gate_session e False False w = (w1, Some s)" for w1 s
    by (rule gate_session_Some [OF that]) (use init_closed(1) [OF assms(1) d(1), of e] in \<open>auto simp: opened_def\<close>)
  ultimately have "user_list_main e w \<noteq> None"
    by (auto simp: user_list_main_def gate_json_session_def gate_require_role_def Let_def
        split: prod.split option.split fetch_result.split)
  then show thesis using that by auto
qed

text \<open>The engine answers the two counting queries; the programs agree on the database file.\<close>

fun request_ok :: "string \<Rightarrow> request \<Rightarrow> bool" where
  "request_ok p (pg, e, fs) \<longleftrightarrow> gate_db_path e = p \<and> runs (eng e) Q_root_count \<and> runs (eng e) Q_users_count"

lemma serve_effect:
  assumes "closed p ((=) d) w" "sound_db d" "request_ok p (pg, e, fs)"
  obtains w' s' where "serve x pg e (w, s) = Some (w', s')" "closed p (request_effect pg e d) w'"
proof -
  have e: "closed (gate_db_path e) ((=) d) w" "schema_current d" "runs (eng e) Q_root_count" "runs (eng e) Q_users_count"
    and p: "p = gate_db_path e" using assms by (auto simp: sound_db_def)
  obtain v where v: "user_list_main e w = Some v" by (rule list_answers [OF e(1) assms(2) e(4)])
  have "\<exists>w' s'. serve x pg e (w, s) = Some (w', s') \<and> closed (gate_db_path e) (request_effect pg e d) w'"
  proof (cases pg)
    case Login_page
    then show ?thesis using login_effect [OF e(1) assms(2)] by simp
  next
    case (Admin_page c)
    then show ?thesis using admin_effect [OF e(1) assms(2) e(3)] by simp
  next
    case Password_page
    then show ?thesis using change_pass_effect [OF e(1) assms(2)] by simp
  next
    case User_list_page
    then show ?thesis using closed_passive [OF list_quiet [OF e(1,2) v]] v by simp
  next
    case Logout_page
    then show ?thesis using closed_passive [OF logout_quiet [OF e(1,2)]] by simp
  next
    case Main_page
    then show ?thesis using closed_passive [OF main_quiet [OF e(1,2)]] by simp
  next
    case Network_page
    then show ?thesis using closed_passive [OF network_quiet [OF e(1,2), of "commands x" s]] by (auto simp: prod_eq_iff)
  next
    case Ntpmon_page
    then show ?thesis using closed_passive [OF ntpmon_quiet [OF e(1,2), of "os x" "commands x" s]] by (auto simp: prod_eq_iff)
  next
    case Timesync_page
    then show ?thesis
      using closed_passive [OF timesync_quiet [OF e(1,2), of "os x" "errno_text x" "commands x" "serial x" s]] by (auto simp: prod_eq_iff)
  next
    case Log_page
    then show ?thesis using closed_passive [OF log_quiet [OF e(1,2)]] by simp
  qed
  then show thesis using that p by blast
qed

end
