(* ===== verification/SiteRun.thy ===== *)
theory SiteRun
  imports Site
begin

text \<open>
  Whole runs of the site: what any sequence of requests, authorised or not, can have done to the
  accounts and the sessions.  The proofs use only the abstract effects of the requests.
\<close>

section \<open>Runs on the database\<close>

definition site_db :: "'s outside \<Rightarrow> string \<Rightarrow> request list \<Rightarrow> world \<times> 's \<Rightarrow> database option" where
  "site_db x p rs ws = (case site_run x rs ws of None \<Rightarrow> None | Some (w, s) \<Rightarrow> disk w p)"

text \<open>A set-up site: a well-formed database of the current schema and room for an id per request.\<close>

definition site_ready :: "string \<Rightarrow> request list \<Rightarrow> world \<Rightarrow> database \<Rightarrow> bool" where
  "site_ready p rs w d \<longleftrightarrow> disk w p = Some d \<and> db_wf d \<and> schema_current d
     \<and> users_seq d + int (length rs) < 2147483648 \<and> list_all (request_ok p) rs"

lemma site_run_snoc: "site_run x (rs @ [(pg, e, fs)]) ws = (case site_run x rs ws of None \<Rightarrow> None
    | Some (w, s) \<Rightarrow> serve x pg e (process fs w, s))"
  by (induction x rs ws rule: site_run.induct) (auto split: option.split)

lemma site_ready_snoc: "site_ready p (rs @ [r]) w d \<Longrightarrow> site_ready p rs w d"
  by (simp add: site_ready_def)

lemma effect_keeps:
  assumes "request_effect pg e d d'"
  shows "kept d d'" "users_seq d' \<le> users_seq d + 1"
  using assms by (auto elim!: request_effectE acct_change.cases
    simp: quiet_def new_session_def own_password_def users_become_def)

lemma site_served:
  assumes "site_ready p rs w d"
  obtains w' s' d' where "site_run x rs (w, s) = Some (w', s')" "disk w' p = Some d'" "db_wf d'" "schema_current d'"
    "users_seq d' \<le> users_seq d + int (length rs)"
proof -
  have "\<exists>w' s' d'. site_run x rs (w, s) = Some (w', s') \<and> disk w' p = Some d' \<and> db_wf d' \<and> schema_current d'
      \<and> users_seq d' \<le> users_seq d + int (length rs)"
    using assms
  proof (induction rs rule: rev_induct)
    case Nil
    then show ?case by (simp add: site_ready_def)
  next
    case (snoc r rs)
    obtain pg e fs where r: "r = (pg, e, fs)" by (cases r)
    obtain w1 s1 d1 where IH: "site_run x rs (w, s) = Some (w1, s1)" "disk w1 p = Some d1" "db_wf d1" "schema_current d1"
      "users_seq d1 \<le> users_seq d + int (length rs)"
      using snoc.IH [OF site_ready_snoc [OF snoc.prems]] by blast
    have "sound_db d1" "request_ok p (pg, e, fs)" "closed p ((=) d1) (process fs w1)"
      using snoc.prems IH r by (simp_all add: site_ready_def sound_db_def)
    then obtain w2 s2 where w2: "serve x pg e (process fs w1, s1) = Some (w2, s2)" "closed p (request_effect pg e d1) w2"
      using serve_effect by metis
    then obtain d2 where "disk w2 p = Some d2" "request_effect pg e d1 d2" by (auto simp: closed_def)
    then show ?case using effect_keeps [of pg e d1 d2] IH w2(1) by (simp add: r site_run_snoc kept_def)
  qed
  then show thesis using that by blast
qed

text \<open>Induction over a run: each request has its effect on the database the requests before it left.\<close>

lemma site_induct [consumes 1, case_names start request]:
  assumes "site_ready p rs w d" "P [] d"
    "\<And>rs1 pg e fs d1 d2. site_db x p rs1 (w, s) = Some d1 \<Longrightarrow> sound_db d1 \<Longrightarrow> request_ok p (pg, e, fs)
       \<Longrightarrow> request_effect pg e d1 d2 \<Longrightarrow> P rs1 d1 \<Longrightarrow> P (rs1 @ [(pg, e, fs)]) d2"
  shows "\<exists>d'. site_db x p rs (w, s) = Some d' \<and> P rs d'"
  using assms(1)
proof (induction rs rule: rev_induct)
  case Nil
  then show ?case using assms(2) by (simp add: site_db_def site_ready_def)
next
  case (snoc r rs)
  obtain pg e fs where r: "r = (pg, e, fs)" by (cases r)
  have ready: "site_ready p rs w d" by (rule site_ready_snoc [OF snoc.prems])
  obtain w1 s1 d1 where s1: "site_run x rs (w, s) = Some (w1, s1)" "disk w1 p = Some d1" "db_wf d1" "schema_current d1"
    "users_seq d1 \<le> users_seq d + int (length rs)" by (rule site_served [OF ready])
  have db: "site_db x p rs (w, s) = Some d1" using s1(1,2) by (simp add: site_db_def)
  then have P1: "P rs d1" using snoc.IH [OF ready] by auto
  have so: "sound_db d1" "request_ok p (pg, e, fs)" "closed p ((=) d1) (process fs w1)"
    using snoc.prems s1 r by (simp_all add: site_ready_def sound_db_def)
  obtain w2 s2 where w2: "serve x pg e (process fs w1, s1) = Some (w2, s2)" "closed p (request_effect pg e d1) w2"
    by (rule serve_effect [OF so(3,1,2)])
  then obtain d2 where d2: "disk w2 p = Some d2" "request_effect pg e d1 d2" by (auto simp: closed_def)
  have "site_db x p (rs @ [r]) (w, s) = Some d2" using s1(1) w2(1) d2(1) by (simp add: site_db_def r site_run_snoc)
  then show ?case using assms(3) [OF db so(1,2) d2(2) P1] r by blast
qed

section \<open>What one request does to an account\<close>

text \<open>The requests that may set the password of the account \<open>i\<close>: its own change, and a reset by a root account.\<close>

definition may_set_password :: "page \<Rightarrow> env \<Rightarrow> database \<Rightarrow> int \<Rightarrow> session_row \<Rightarrow> bool" where
  "may_set_password pg e d i row \<longleftrightarrow> posted_csrf e row \<and> (\<exists>a. authorised e d row a
     \<and> (pg = Password_page \<and> u_id a = i \<or> pg = Admin_page User_passwd \<and> u_role a = ''root''))"

definition same_account :: "user_row \<Rightarrow> user_row \<Rightarrow> bool" where
  "same_account u v \<longleftrightarrow> u_id u = u_id v \<and> u_username u = u_username v \<and> u_role u = u_role v"

lemma same_account_refl [simp]: "same_account u u"
  by (simp add: same_account_def)

lemma same_account_trans: "same_account u v \<Longrightarrow> same_account v q \<Longrightarrow> same_account u q"
  by (simp add: same_account_def)

lemma creds_user:
  assumes "creds d' = creds d" "u \<in> set (t_users d')"
  obtains v where "v \<in> set (t_users d)" "same_account u v" "u_password_hash u = u_password_hash v" "u_enabled u = u_enabled v"
proof -
  have "u\<lparr>u_last_login_at := None\<rparr> \<in> set (creds d)"
    unfolding assms(1) [symmetric] using assms(2) by (simp add: creds_def)
  then obtain v where v: "v \<in> set (t_users d)" "u\<lparr>u_last_login_at := None\<rparr> = v\<lparr>u_last_login_at := None\<rparr>" by (auto simp: creds_def)
  show thesis
    using arg_cong [OF v(2), of u_id] arg_cong [OF v(2), of u_username] arg_cong [OF v(2), of u_role]
      arg_cong [OF v(2), of u_password_hash] arg_cong [OF v(2), of u_enabled] v(1)
    by (intro that [of v]) (simp_all add: same_account_def)
qed

lemma account_step:
  assumes "request_effect pg e d d'" "u \<in> set (t_users d')"
  shows "(\<exists>v \<in> set (t_users d). same_account u v
       \<and> (u_password_hash u = u_password_hash v \<or> (\<exists>row. may_set_password pg e d (u_id v) row)))
     \<or> u_id u = users_seq d + 1 \<and> u_role u = ''admin''"
proof -
  have keep: ?thesis if "v \<in> set (t_users d)" "same_account u v"
    "u_password_hash u = u_password_hash v \<or> (\<exists>row. may_set_password pg e d (u_id v) row)" for v
    using that by blast
  have same: ?thesis if "u \<in> set (t_users d)" by (rule keep [OF that]) simp_all
  have become: ?thesis if "u \<in> f ` set (t_users d)" "\<And>v. same_account (f v) v"
    "\<And>v. u_password_hash (f v) = u_password_hash v \<or> (\<exists>row. may_set_password pg e d (u_id v) row)" for f
    using that(1) by (auto intro!: keep that(2,3))
  have written: ?thesis if "users_become (with_password e t h) d d'" "may_set_password pg e d t row" for t h row
    using that assms(2)
    by (intro become [of "\<lambda>v. if u_id v = t then v\<lparr>u_password_hash := h, u_password_changed_at := time_now e, u_updated_at := time_now e\<rparr> else v"])
      (auto simp: users_become_def with_password_def same_account_def)
  show ?thesis using assms(1)
  proof (cases rule: request_effect.cases)
    case quietly
    then show ?thesis using assms(2) same by (simp add: quiet_def)
  next
    case (login v)
    then have "creds d' = creds d" by (simp add: new_session_def)
    from creds_user [OF this assms(2)] show ?thesis using keep by metis
  next
    case (admin c row a)
    from admin(5) show ?thesis
    proof cases
      case (created v)
      then show ?thesis using assms(2) same by auto
    next
      case (deleted t v)
      then show ?thesis using assms(2) same by (simp add: users_become_def)
    next
      case (toggled t v en)
      then show ?thesis using assms(2)
        by (intro become [of "\<lambda>v. if u_id v = t then v\<lparr>u_enabled := en, u_updated_at := time_now e\<rparr> else v"])
          (auto simp: users_become_def with_enabled_def same_account_def)
    next
      case (password t pw h)
      have "may_set_password pg e d t row" using admin(1-4) password(1) by (auto simp: may_set_password_def)
      with password show ?thesis using written by blast
    qed
  next
    case (own row a)
    then have "may_set_password pg e d (u_id a) row" by (auto simp: may_set_password_def)
    with own(4) show ?thesis using written unfolding own_password_def by blast
  qed
qed

lemma seq_step: "request_effect pg e d d' \<Longrightarrow> users_seq d \<le> users_seq d'"
  by (auto elim!: request_effectE acct_change.cases simp: quiet_def new_session_def own_password_def users_become_def)

lemma root_step:
  assumes "request_effect pg e d d'" "enabled_root d" "db_wf d"
  shows "enabled_root d'"
proof -
  obtain r where r: "r \<in> set (t_users d)" "u_role r = ''root''" "u_enabled r = 1" using assms(2) by (auto simp: enabled_root_def)
  have lk: "lookup_user (u_id r) d = Some r" by (rule lookup_user_in [OF assms(3) r(1)])
  have pw: "enabled_root d'" if "users_become (with_password e t h) d d'" for t h
  proof -
    have "(if u_id r = t then r\<lparr>u_password_hash := h, u_password_changed_at := time_now e, u_updated_at := time_now e\<rparr> else r) \<in> set (t_users d')"
      using that r(1) by (auto simp: users_become_def with_password_def)
    then show ?thesis unfolding enabled_root_def by (rule rev_bexI) (simp add: r)
  qed
  from assms(1) show ?thesis
  proof (cases rule: request_effect.cases)
    case quietly
    then show ?thesis using assms(2) by (simp add: quiet_def enabled_root_def)
  next
    case (login v)
    then have "creds d = creds d'" by (simp add: new_session_def)
    then obtain q where "q \<in> set (t_users d')" "same_account r q" "u_enabled r = u_enabled q"
      using creds_user [of d d' r] r(1) by blast
    then show ?thesis using r(2,3) unfolding enabled_root_def by (intro bexI [of _ q]) (simp_all add: same_account_def)
  next
    case (admin c row a)
    from admin(5) show ?thesis
    proof cases
      case (deleted t v)
      then show ?thesis using r lk by (auto simp: users_become_def enabled_root_def)
    next
      case (toggled t v en)
      have "\<exists>q \<in> set (t_users d). u_role q = ''root'' \<and> u_enabled q = 1 \<and> (en = 1 \<or> u_id q \<noteq> t)"
      proof (cases "en = 1 \<or> u_id r \<noteq> t")
        case False
        then have "en = 0" "v = r" using toggled(4,5) lk by auto
        then have "\<exists>q \<in> set (t_users d). u_role q = ''root'' \<and> u_enabled q = 1 \<and> u_id q \<noteq> t"
          by (intro toggled(6)) (simp_all add: r(2))
        then show ?thesis by blast
      qed (use r in auto)
      then obtain q where q: "q \<in> set (t_users d)" "u_role q = ''root''" "u_enabled q = 1" "en = 1 \<or> u_id q \<noteq> t" by auto
      have "(if u_id q = t then q\<lparr>u_enabled := en, u_updated_at := time_now e\<rparr> else q) \<in> set (t_users d')"
        using toggled q(1) by (auto simp: users_become_def with_enabled_def)
      then show ?thesis unfolding enabled_root_def by (rule rev_bexI) (use q in auto)
    qed (use r pw in \<open>auto simp: enabled_root_def\<close>)
  next
    case (own row a)
    then show ?thesis using pw by (auto simp: own_password_def)
  qed
qed

lemma session_step:
  assumes "request_effect pg e d d'" "row \<in> set (t_sessions d')" "row \<notin> set (t_sessions d)"
  obtains u where "pg = Login_page" "logged_in e d u" "s_user_id row = u_id u" "s_expires_at row = time_now e + 3600"
    "s_sid row = auth_generate_token (ent_sid e) (time_now e) 64"
proof -
  show thesis using assms(1)
  proof (cases rule: request_effect.cases)
    case (login u)
    then obtain r where "s_user_id r = u_id u" "s_expires_at r = time_now e + 3600"
      "s_sid r = auth_generate_token (ent_sid e) (time_now e) 64" "set (t_sessions d') \<subseteq> insert r (set (t_sessions d))"
      unfolding new_session_def by auto
    moreover from this have "row = r" using assms(2,3) by auto
    ultimately show thesis using that login by blast
  qed (use assms(2,3) in \<open>auto elim!: acct_change.cases simp: quiet_def own_password_def users_become_def\<close>)
qed

section \<open>The implementation refines the specification\<close>

inductive spec_run :: "request list \<Rightarrow> database \<Rightarrow> database \<Rightarrow> bool" where
  start: "spec_run [] d d"
| request: "spec_run (rs @ [(pg, e, fs)]) d d2" if "spec_run rs d d1" "request_effect pg e d1 d2"

text \<open>Two requests: Alice logs in, root disables her account.\<close>

definition sample_outside :: "unit outside" where
  "sample_outside = \<lparr>os = sample_host, errno_text = [], commands = (\<lambda>s argv. (s, ForkFailed)), serial = (\<lambda>s d m. (s, OpenFailed []))\<rparr>"

definition sample_run :: "request list" where
  "sample_run = [(Login_page, login_req, Map.empty), (Admin_page User_toggle, sample_req, Map.empty)]"

definition empty_world :: world where
  "empty_world = sample_world\<lparr>disk := \<lambda>_. Some (root_db\<lparr>t_sessions := []\<rparr>)\<rparr>"

lemma sample_run_ok: "list_all (request_ok DB_PATH_DEFAULT) sample_run"
  by (simp add: sample_run_def) (simp add: login_req_def req_env_def gate_db_path_def)

lemma sample_ready: "site_ready DB_PATH_DEFAULT sample_run sample_world root_db"
  using sample_run_ok by (simp add: site_ready_def sample_run_def)

lemma empty_ready: "site_ready DB_PATH_DEFAULT sample_run empty_world (root_db\<lparr>t_sessions := []\<rparr>)"
  using sample_run_ok root_db_wf
  by (simp add: site_ready_def sample_run_def empty_world_def db_wf_def user_ids_def schema_current_def)

text \<open>C1: the site refines its abstract specification.  Served by the CGI programs, any sequence of
  requests is answered, and takes the account database through steps the specification allows: each
  request is quiet, or a login whose password verifies, or an account change sent with the cookie and
  CSRF token of a live session of an enabled root account, or a change of the sender's own password.\<close>

theorem site_refines_spec:
  assumes "site_ready p rs w d"
  shows "\<exists>d'. site_db x p rs (w, s) = Some d' \<and> spec_run rs d d'"
  using assms by (rule site_induct) (auto intro: spec_run.intros)


theorem site_refines_spec_witness:
  "\<exists>d'. site_db sample_outside DB_PATH_DEFAULT sample_run (sample_world, ()) = Some d' \<and> spec_run sample_run root_db d'"
  using site_refines_spec [OF sample_ready] .

section \<open>Somebody can always administer the site\<close>

text \<open>C3: whatever is sent to the site, the database stays well formed and keeps an enabled root account.\<close>

theorem site_keeps_root:
  assumes "site_ready p rs w d" "enabled_root d"
  shows "\<exists>d'. site_db x p rs (w, s) = Some d' \<and> db_wf d' \<and> schema_current d' \<and> enabled_root d'"
  using assms(1)
proof (rule site_induct)
  show "db_wf d \<and> schema_current d \<and> enabled_root d" using assms by (simp add: site_ready_def)
  show "db_wf d2 \<and> schema_current d2 \<and> enabled_root d2"
    if "request_effect pg e d1 d2" "db_wf d1 \<and> schema_current d1 \<and> enabled_root d1" for pg e d1 d2
    using effect_keeps(1) [OF that(1)] root_step [OF that(1)] that(2) by (simp add: kept_def)
qed


theorem site_keeps_root_witness:
  "\<exists>d'. site_db sample_outside DB_PATH_DEFAULT sample_run (sample_world, ()) = Some d' \<and> enabled_root d'"
  using site_keeps_root [OF sample_ready, of sample_outside "()"] by (auto simp: enabled_root_def root_db_def live_db_def sample_defs)

section \<open>No privilege is gained\<close>

text \<open>C5: no sequence of requests gives an account another name or role, or makes a root account: an
  account after a run is one from before, with its name and role, or a new administrator under an id
  never used before.\<close>

theorem no_privilege_escalation:
  assumes "site_ready p rs w d"
  shows "\<exists>d'. site_db x p rs (w, s) = Some d' \<and> (\<forall>u \<in> set (t_users d').
     (\<exists>v \<in> set (t_users d). same_account u v) \<or> users_seq d < u_id u \<and> u_role u = ''admin'')"
proof -
  have "\<exists>d'. site_db x p rs (w, s) = Some d' \<and> users_seq d \<le> users_seq d' \<and> (\<forall>u \<in> set (t_users d').
     (\<exists>v \<in> set (t_users d). same_account u v) \<or> users_seq d < u_id u \<and> u_role u = ''admin'')"
    using assms
  proof (rule site_induct, goal_cases)
    case 1
    then show ?case using same_account_refl by blast
  next
    case (2 rs1 pg e fs d1 d2)
    have "(\<exists>v \<in> set (t_users d). same_account u v) \<or> users_seq d < u_id u \<and> u_role u = ''admin''" if u: "u \<in> set (t_users d2)" for u
    proof -
      consider v where "v \<in> set (t_users d1)" "same_account u v" | "u_id u = users_seq d1 + 1" "u_role u = ''admin''"
        using account_step [OF 2(4) u] by blast
      then show ?thesis
      proof cases
        case (1 v)
        then have "(\<exists>q \<in> set (t_users d). same_account v q) \<or> users_seq d < u_id v \<and> u_role v = ''admin''" using 2(5) by blast
        then show ?thesis using same_account_trans [OF 1(2)] 1(2) by (auto simp: same_account_def [of u v])
      qed (use 2(5) in simp)
    qed
    then show ?case using seq_step [OF 2(4)] 2(5) by auto
  qed
  then show ?thesis by blast
qed


theorem no_privilege_escalation_witness:
  "\<exists>d'. site_db sample_outside DB_PATH_DEFAULT sample_run (sample_world, ()) = Some d' \<and> (\<forall>u \<in> set (t_users d'). u_role u = ''root'' \<longrightarrow> u_username u = ''root'')"
proof -
  have r: "u_username v = ''root''" if "v \<in> set (t_users root_db)" "u_role v = ''root''" for v
    using that by (auto simp: root_db_def live_db_def sample_defs)
  obtain d' where d': "site_db sample_outside DB_PATH_DEFAULT sample_run (sample_world, ()) = Some d'"
    "\<And>u. u \<in> set (t_users d') \<Longrightarrow> (\<exists>v \<in> set (t_users root_db). same_account u v) \<or> users_seq root_db < u_id u \<and> u_role u = ''admin''"
    using no_privilege_escalation [OF sample_ready, of sample_outside "()"] by blast
  have "u_username u = ''root''" if u: "u \<in> set (t_users d')" "u_role u = ''root''" for u
    using d'(2) [OF u(1)] r u(2) by (auto simp: same_account_def)
  then show ?thesis using d'(1) by blast
qed

section \<open>Every session comes from a login\<close>

definition created_by_login :: "'s outside \<Rightarrow> string \<Rightarrow> request list \<Rightarrow> world \<times> 's \<Rightarrow> session_row \<Rightarrow> bool" where
  "created_by_login x p rs ws row \<longleftrightarrow> (\<exists>rs1 e fs rs2 d1 u. rs = rs1 @ (Login_page, e, fs) # rs2
     \<and> site_db x p rs1 ws = Some d1 \<and> logged_in e d1 u \<and> s_user_id row = u_id u
     \<and> s_expires_at row = time_now e + 3600 \<and> s_sid row = auth_generate_token (ent_sid e) (time_now e) 64)"

lemma created_mono: "created_by_login x p rs ws row \<Longrightarrow> created_by_login x p (rs @ rs') ws row"
  unfolding created_by_login_def by (metis append.assoc append_Cons)

lemma created_step:
  assumes "site_db x p rs1 ws = Some d1" "request_effect pg e d1 d2" "row \<in> set (t_sessions d2)"
    "\<forall>row \<in> set (t_sessions d1). row \<in> S \<or> created_by_login x p rs1 ws row"
  shows "row \<in> S \<or> created_by_login x p (rs1 @ [(pg, e, fs)]) ws row"
proof (cases "row \<in> set (t_sessions d1)")
  case True
  then show ?thesis using assms(4) created_mono by blast
next
  case False
  obtain u where u: "pg = Login_page" "logged_in e d1 u" "s_user_id row = u_id u" "s_expires_at row = time_now e + 3600"
    "s_sid row = auth_generate_token (ent_sid e) (time_now e) 64"
    by (rule session_step [OF assms(2,3) False])
  then have "created_by_login x p (rs1 @ [(pg, e, fs)]) ws row"
    unfolding created_by_login_def u(1) using assms(1) by blast
  then show ?thesis ..
qed

text \<open>C6: a session in the database after a run was there before, or some login request of the run
  created it: one with the name and the password of an account enabled at that time; the session is
  of that account, ends an hour after that request and carries the token drawn for it.\<close>

theorem sessions_from_logins:
  assumes "site_ready p rs w d"
  shows "\<exists>d'. site_db x p rs (w, s) = Some d' \<and> (\<forall>row \<in> set (t_sessions d').
     row \<in> set (t_sessions d) \<or> created_by_login x p rs (w, s) row)"
  using assms by (rule site_induct) (auto dest: created_step)


theorem sessions_from_logins_witness:
  "\<exists>d' row. site_db sample_outside DB_PATH_DEFAULT [(Login_page, login_req, Map.empty)] (sample_world, ()) = Some d'
     \<and> row \<in> set (t_sessions d') \<and> s_user_id row = 2
     \<and> created_by_login sample_outside DB_PATH_DEFAULT [(Login_page, login_req, Map.empty)] (sample_world, ()) row"
proof -
  let ?rs = "[(Login_page, login_req, Map.empty)] :: request list"
  have ready: "site_ready DB_PATH_DEFAULT ?rs sample_world root_db"
    using sample_run_ok by (simp add: site_ready_def sample_run_def)
  have w: "g_db (process Map.empty sample_world) = None" "disk (process Map.empty sample_world) (gate_db_path login_req) = Some root_db"
    by (simp_all add: process_def)
  note u = alice(2-7)
  obtain d1 row where d1: "disk (login_main login_req (process Map.empty sample_world)) (gate_db_path login_req) = Some d1"
    "t_sessions d1 = filter (\<lambda>s. time_now login_req \<le> s_expires_at s) (t_sessions root_db) @ [row]"
    "s_sid row = auth_generate_token (ent_sid login_req) (time_now login_req) 64" "s_user_id row = 2"
    by (rule login_post [of login_req "sample_user 2 ''alice'' ''admin''" sample_pw, OF login_req_env(1) _ _ _ _ w root_db_wf(1,2) login_req_env(2) alice(1)])
      (use login_req_params sample_verify sample_token_fresh in \<open>auto simp: u\<close>)
  have db: "site_db sample_outside DB_PATH_DEFAULT ?rs (sample_world, ()) = Some d1"
    using d1(1) by (simp add: site_db_def login_req_env)
  have "row \<notin> set (t_sessions root_db)" using sample_token_fresh d1(3) by (metis image_eqI)
  moreover obtain d' where "site_db sample_outside DB_PATH_DEFAULT ?rs (sample_world, ()) = Some d'"
    "\<forall>row \<in> set (t_sessions d'). row \<in> set (t_sessions root_db) \<or> created_by_login sample_outside DB_PATH_DEFAULT ?rs (sample_world, ()) row"
    using sessions_from_logins [OF ready, of sample_outside "()"] by blast
  ultimately show ?thesis using db d1(2,4) by (intro exI [of _ d1] exI [of _ row]) auto
qed

section \<open>No password is set without a login\<close>

definition set_after_login :: "'s outside \<Rightarrow> string \<Rightarrow> request list \<Rightarrow> world \<times> 's \<Rightarrow> int \<Rightarrow> bool" where
  "set_after_login x p rs ws i \<longleftrightarrow> (\<exists>rs1 pg e fs rs2 d1 row. rs = rs1 @ (pg, e, fs) # rs2
     \<and> site_db x p rs1 ws = Some d1 \<and> may_set_password pg e d1 i row \<and> created_by_login x p rs1 ws row)"

lemma set_mono: "set_after_login x p rs ws i \<Longrightarrow> set_after_login x p (rs @ rs') ws i"
  unfolding set_after_login_def by (metis append.assoc append_Cons)

lemma may_set_session: "may_set_password pg e d i row \<Longrightarrow> row \<in> set (t_sessions d)"
  by (auto simp: may_set_password_def authorised_def)

lemma password_step:
  assumes "site_db x p rs1 ws = Some d1" "request_effect pg e d1 d2" "u \<in> set (t_users d2)" "u_id u \<le> users_seq d1"
    "\<forall>row \<in> set (t_sessions d1). created_by_login x p rs1 ws row"
  obtains v where "v \<in> set (t_users d1)" "u_id v = u_id u"
    "u_password_hash u = u_password_hash v \<or> set_after_login x p (rs1 @ [(pg, e, fs)]) ws (u_id u)"
proof -
  have "set_after_login x p (rs1 @ [(pg, e, fs)]) ws i" if "may_set_password pg e d1 i row" for i row
    unfolding set_after_login_def using assms(1,5) that may_set_session [OF that] by blast
  then show thesis using account_step [OF assms(2,3)] assms(4) that by (fastforce simp: same_account_def)
qed

text \<open>C2: starting with no session, the stored password of an account changes only if, in this order, some
  request logged in with the name and password of an enabled account, and a later request carried the
  cookie and the CSRF token of that live session and either is a change of that account's own password
  or, the account being root, a password reset.\<close>

theorem password_change_traced:
  assumes "site_ready p rs w d" "t_sessions d = []"
  shows "\<exists>d'. site_db x p rs (w, s) = Some d' \<and> (\<forall>u \<in> set (t_users d'). \<forall>v \<in> set (t_users d). u_id u = u_id v
     \<longrightarrow> u_password_hash u = u_password_hash v \<or> set_after_login x p rs (w, s) (u_id v))"
proof -
  let ?P = "\<lambda>rs d'. (\<forall>row \<in> set (t_sessions d'). created_by_login x p rs (w, s) row) \<and> users_seq d \<le> users_seq d'
     \<and> (\<forall>u \<in> set (t_users d'). \<forall>v \<in> set (t_users d). u_id u = u_id v
         \<longrightarrow> u_password_hash u = u_password_hash v \<or> set_after_login x p rs (w, s) (u_id v))"
  have wf: "db_wf d" using assms(1) by (simp add: site_ready_def)
  have "\<exists>d'. site_db x p rs (w, s) = Some d' \<and> ?P rs d'"
    using assms(1)
  proof (rule site_induct)
    have same: "u_password_hash u = u_password_hash v" if "u \<in> set (t_users d)" "v \<in> set (t_users d)" "u_id u = u_id v" for u v
      using lookup_user_in [OF wf that(1)] lookup_user_in [OF wf that(2)] unfolding that(3) by (metis option.inject)
    show "?P [] d" by (intro conjI ballI impI disjI1 order_refl) (simp add: assms(2), rule same)
  next
    fix rs1 pg e fs d1 d2
    assume r: "site_db x p rs1 (w, s) = Some d1" "request_effect pg e d1 d2" and P: "?P rs1 d1"
    let ?rs = "rs1 @ [(pg, e, fs)]"
    have ses: "created_by_login x p ?rs (w, s) row" if "row \<in> set (t_sessions d2)" for row
      using created_step [OF r that, of "{}"] P by auto
    have "u_password_hash u = u_password_hash v \<or> set_after_login x p ?rs (w, s) (u_id v)"
      if u: "u \<in> set (t_users d2)" and v: "v \<in> set (t_users d)" "u_id u = u_id v" for u v
    proof -
      have i: "u_id u \<le> users_seq d1" using wf v P by (force simp: db_wf_def)
      obtain q where q: "q \<in> set (t_users d1)" "u_id q = u_id u"
        "u_password_hash u = u_password_hash q \<or> set_after_login x p ?rs (w, s) (u_id u)"
        using password_step [OF r u i] P by blast
      with P v have "u_password_hash q = u_password_hash v \<or> set_after_login x p rs1 (w, s) (u_id v)" by simp
      then show ?thesis using q(3) v(2) set_mono by metis
    qed
    then show "?P ?rs d2" using ses seq_step [OF r(2)] P by auto
  qed
  then show ?thesis by blast
qed


theorem password_change_traced_witness:
  "\<exists>d'. site_db sample_outside DB_PATH_DEFAULT sample_run (empty_world, ()) = Some d' \<and> (\<forall>u \<in> set (t_users d'). u_id u = 1
     \<longrightarrow> u_password_hash u = sample_hash \<or> set_after_login sample_outside DB_PATH_DEFAULT sample_run (empty_world, ()) 1)"
proof -
  have "sample_user 1 ''root'' ''root'' \<in> set (t_users (root_db\<lparr>t_sessions := []\<rparr>))" by (simp add: root_db_def live_db_def sample_db_def)
  then show ?thesis using password_change_traced [OF empty_ready, of sample_outside "()"] by (force simp: sample_user_def)
qed

end
