(* ===== verification/Shell.thy ===== *)
theory Shell
  imports Nmcli Host
begin

text \<open>
  What the shell scripts of the system use of the shell, \<open>sed\<close>, \<open>grep\<close> and \<open>test\<close>: lines of a text, command
  substitution, whole-line search, number comparison.  Commands of the system are run through the same
  parameter as in \<open>Nmcli\<close>.  Strings carry no NUL byte, and \<open>echo\<close> is given no backslash.
\<close>

section \<open>Lines\<close>

text \<open>The lines \<open>sed\<close> sees; the last one may lack its line end.\<close>

definition text_lines :: "string \<Rightarrow> string list" where
  "text_lines s = (let ls = split_on (\<lambda>c. c = nl) s in if last ls = [] then butlast ls else ls)"

text \<open>The lines \<open>read -r\<close> returns with success: those with a line end.\<close>

definition read_lines :: "string \<Rightarrow> string list" where
  "read_lines s = butlast (split_on (\<lambda>c. c = nl) s)"

text \<open>Command substitution drops the line ends at the end of the output.\<close>

definition strip_nl :: "string \<Rightarrow> string" where
  "strip_nl s = rev (dropWhile (\<lambda>c. c = nl) (rev s))"

definition std_out :: "nm_result \<Rightarrow> string" where
  "std_out r = (case r of Exited ok out \<Rightarrow> out | _ \<Rightarrow> [])"

definition succeeded :: "nm_result \<Rightarrow> bool" where
  "succeeded r = (case r of Exited ok out \<Rightarrow> ok | _ \<Rightarrow> False)"

text \<open>The numbers \<open>test\<close> reads; white space may surround them.\<close>

definition test_number :: "string \<Rightarrow> int option" where
  "test_number s = (case strtoll_end s of None \<Rightarrow> None | Some (v, r) \<Rightarrow> if list_all c_isspace r then Some v else None)"

text \<open>\<open>grep -xF pattern\<close>: every line of the pattern is a pattern.\<close>

definition grep_xF :: "string \<Rightarrow> string \<Rightarrow> bool" where
  "grep_xF pat line = (line \<in> set (split_on (\<lambda>c. c = nl) pat))"

section \<open>Lemmas\<close>

definition unlines :: "string list \<Rightarrow> string" where
  "unlines ls = concat (map (\<lambda>l. l @ [nl]) ls)"

lemma split_unlines: "(\<And>l. l \<in> set ls \<Longrightarrow> nl \<notin> set l) \<Longrightarrow> split_on (\<lambda>c. c = nl) (unlines ls) = ls @ [[]]"
proof (induction ls)
  case (Cons l ls)
  have "split_on (\<lambda>c. c = nl) (l @ nl # unlines ls) = l # split_on (\<lambda>c. c = nl) (unlines ls)"
    using split_on_word [of l "\<lambda>c. c = nl" "nl # unlines ls"] Cons.prems by auto
  with Cons show ?case by (simp add: unlines_def)
qed (simp add: unlines_def)

lemma text_lines_unlines: "(\<And>l. l \<in> set ls \<Longrightarrow> nl \<notin> set l) \<Longrightarrow> text_lines (unlines ls) = ls"
  by (simp add: text_lines_def split_unlines)

lemma strip_nl_line: "nl \<notin> set v \<Longrightarrow> strip_nl (v @ [nl]) = v"
proof -
  assume "nl \<notin> set v"
  then have "dropWhile (\<lambda>c. c = nl) (rev v) = rev v" unfolding dropWhile_eq_self_iff by (metis hd_in_set rev_is_Nil_conv set_rev)
  then show ?thesis by (simp add: strip_nl_def)
qed

lemma split_single: "nl \<notin> set l \<Longrightarrow> split_on (\<lambda>c. c = nl) l = [l]"
  using split_on_word [of l "\<lambda>c. c = nl" "[]"] by auto

end
