(* ===== verification/Rollback.thy ===== *)
theory Rollback
  imports Network Ntpmon Shell
begin

text \<open>
  The watchdog \<open>rollback_watchdog.sh\<close> that undoes an unconfirmed change of \<open>eth0\<close>, and its part in the
  protocol of three programs over one file: \<open>network.cgi\<close> writes the snapshot and arms the watchdog,
  \<open>login.cgi\<close> marks the snapshot confirmed, the watchdog reads it.  \<open>nmcli\<close>, the authentication log and
  \<open>date\<close> are parameters, \<open>mktemp\<close> and \<open>rm\<close> succeed; an expansion of the shell is the string it yields.
\<close>

section \<open>The script\<close>

text \<open>\<open>$(sed -n 's/^key=//p' file)\<close>.\<close>

definition sed_value :: "string \<Rightarrow> string \<Rightarrow> string" where
  "sed_value key text = strip_nl (concat (map (\<lambda>l. drop (length key + 1) l @ [nl])
     (filter (has_prefix (key @ ''='')) (text_lines text))))"

text \<open>\<open>$(sed -n 's/^connection.interface-name://p')\<close>, where the dot matches any byte.\<close>

definition ifname_of :: "string \<Rightarrow> string" where
  "ifname_of text = strip_nl (concat (map (\<lambda>l. drop 26 l @ [nl])
     (filter (\<lambda>l. has_prefix ''connection'' l \<and> has_prefix ''interface-name:'' (drop 11 l)) (text_lines text))))"

text \<open>\<open>[ "$a" -gt "$b" ]\<close> with a number \<open>a\<close>; false when \<open>b\<close> is not a number.\<close>

definition test_gt :: "int \<Rightarrow> string \<Rightarrow> bool" where
  "test_gt a b = (case test_number b of None \<Rightarrow> False | Some v \<Rightarrow> a > v)"

text \<open>The loop over the profiles; the result is \<open>$UUID\<close>.\<close>

fun uuid_for :: "'s nmcli \<Rightarrow> string \<Rightarrow> string list \<Rightarrow> 's \<Rightarrow> 's \<times> string" where
  "uuid_for nm nic [] s = (s, [])"
| "uuid_for nm nic (line # ls) s =
    (let name = before_chr (CHR '':'') line;
         uuid = (case after_chr (CHR '':'') line of None \<Rightarrow> line | Some u \<Rightarrow> u)
     in case nm s [''nmcli'', ''-t'', ''connection'', ''show'', name] of (s', r) \<Rightarrow>
       if ifname_of (std_out r) = nic then (s', uuid) else uuid_for nm nic ls s')"

text \<open>From the lookup of the profile to the end; the boolean is whether the snapshot is removed, the
  number the exit status.\<close>

definition restore_config ::
  "'s nmcli \<Rightarrow> string \<Rightarrow> string \<Rightarrow> string \<Rightarrow> string \<Rightarrow> string \<Rightarrow> 's \<Rightarrow> 's \<times> bool \<times> int" where
  "restore_config nm nic cidr gw dns v6 s =
    (case nm s [''nmcli'', ''-t'', ''-f'', ''NAME,UUID'', ''connection'', ''show''] of (s1, r1) \<Rightarrow>
     case uuid_for nm nic (read_lines (std_out r1)) s1 of (s2, uuid) \<Rightarrow>
     if uuid = [] then (s2, False, 0)
     else case nm s2 [''nmcli'', ''connection'', ''modify'', uuid, ''ipv4.method'', ''manual'', ''ipv4.addresses'', cidr,
            ''ipv4.gateway'', gw, ''ipv4.dns'', dns] of (s3, r3) \<Rightarrow>
     if \<not> succeeded r3 then (s3, False, 1)
     else case nm s3 ([''nmcli'', ''connection'', ''modify'', uuid, ''ipv6.method'']
            @ (if v6 \<noteq> [] then [''manual'', ''ipv6.addresses'', v6] else [''ignore''])) of (s4, r4) \<Rightarrow>
     if \<not> succeeded r4 then (s4, False, 1)
     else (fst (nm s4 [''nmcli'', ''connection'', ''up'', uuid]), True, 0))"

text \<open>\<open>ssh\<close> is the time \<open>date\<close> gives for the last accepted login in the authentication log: \<open>None\<close> when the
  log cannot be read or has none, 0 when the time stamp cannot be converted.\<close>

definition watchdog ::
  "env \<Rightarrow> int option \<Rightarrow> 's nmcli \<Rightarrow> 'a world_scheme \<times> 's \<Rightarrow> ('a world_scheme \<times> 's) \<times> int" where
  "watchdog e ssh nm ws = (case ws of (w, s) \<Rightarrow>
     let path = rollback_path e; removed = w\<lparr>w_files := (w_files w)(path := None)\<rparr> in
     (case w_files w path of None \<Rightarrow> ((w, s), 0)
      | Some json \<Rightarrow>
        let nic = sed_value ''nic'' json; ts = sed_value ''ts'' json in
        if sed_value ''confirmed'' json = ''1'' then ((removed, s), 0)
        else if ts \<noteq> [] \<and> (case ssh of None \<Rightarrow> False | Some t \<Rightarrow> test_gt t ts) then ((removed, s), 0)
        else if nic = [] then ((w, s), 0)
        else (case restore_config nm nic (sed_value ''old_cidr'' json) (sed_value ''old_gateway'' json)
                     (sed_value ''old_dns'' json) (sed_value ''old_ipv6'' json) s of
            (s', rm, rc) \<Rightarrow> ((if rm then removed else w, s'), rc))))"

section \<open>The snapshot as lines\<close>

text \<open>The file as \<open>arm_rollback\<close> leaves it, with the mark \<open>b\<close>.\<close>

definition field_lines :: "string \<Rightarrow> NicConfig \<Rightarrow> string list" where
  "field_lines tag c = [tag @ ''_cidr='' @ cidr80 c, tag @ ''_ip='' @ nc_ip c, tag @ ''_mask='' @ nc_mask c,
     tag @ ''_gateway='' @ nc_gateway c, tag @ ''_dns='' @ nc_dns c, tag @ ''_ipv6='' @ nc_ipv6 c]"

definition snapshot_lines :: "string \<Rightarrow> string \<Rightarrow> int \<Rightarrow> NicConfig \<Rightarrow> NicConfig \<Rightarrow> string list" where
  "snapshot_lines b nic t old new = [''nic='' @ nic, ''ts='' @ dec_int t, ''confirmed='' @ b]
     @ field_lines ''old'' old @ field_lines ''new'' new"

lemma snapshot_unlines: "snapshot_text e nic old new = unlines (snapshot_lines ''0'' nic (time_now e) old new)"
  by (simp add: snapshot_text_def snapshot_fields_def snapshot_lines_def field_lines_def unlines_def)

text \<open>Values that fit a line.\<close>

definition line_char :: "char \<Rightarrow> bool" where
  "line_char c \<longleftrightarrow> c \<noteq> nl \<and> code c \<noteq> 0"

definition nic_plain :: "NicConfig \<Rightarrow> bool" where
  "nic_plain c \<longleftrightarrow> list_all (\<lambda>f. list_all line_char (f c)) [nc_ip, nc_mask, nc_gateway, nc_dns, nc_ipv6]
     \<and> length (nc_ip c) < 64 \<and> length (nc_mask c) < 64 \<and> length (nc_gateway c) < 64 \<and> length (nc_dns c) < 192 \<and> length (nc_ipv6 c) < 128"

lemma line_char_nl: "list_all line_char s \<Longrightarrow> nl \<notin> set s"
  by (auto simp: list_all_iff line_char_def)

lemma dec_int_line: "list_all line_char (dec_int i)"
  using dec_nat_digits by (force simp: list_all_iff dec_int_def line_char_def c_isdigit_def)

lemma cidr80_line: "nic_plain c \<Longrightarrow> list_all line_char (cidr80 c)"
proof -
  assume "nic_plain c"
  then have "list_all line_char (nc_ip c @ ''/'' @ dec_int (nmcli_mask_to_prefix (nc_mask c)))"
    using dec_int_line by (simp add: nic_plain_def) (simp add: line_char_def)
  then show ?thesis unfolding cidr80_def snprintf_s_def list_all_iff by (meson in_set_takeD)
qed

lemma const_line: "list_all line_char ''nic=''" "list_all line_char ''ts=''" "list_all line_char ''confirmed=''"
  "list_all line_char ''old''" "list_all line_char ''new''" "list_all line_char ''_cidr=''" "list_all line_char ''_ip=''"
  "list_all line_char ''_mask=''" "list_all line_char ''_gateway=''" "list_all line_char ''_dns=''" "list_all line_char ''_ipv6=''"
  "list_all line_char ''eth0''" "list_all line_char ''0''" "list_all line_char ''1''" "list_all line_char ''.''"
  by (simp_all add: line_char_def)

lemma field_line_chars: "nic_plain c \<Longrightarrow> list_all line_char tag \<Longrightarrow> list_all (list_all line_char) (field_lines tag c)"
  using cidr80_line [of c] unfolding field_lines_def nic_plain_def list.pred_inject list_all_append by (simp only: const_line simp_thms) (simp add: line_char_def)

lemma snapshot_line_chars:
  assumes "nic_plain old" "nic_plain new" "list_all line_char nic" "list_all line_char b" "l \<in> set (snapshot_lines b nic t old new)"
  shows "list_all line_char l"
proof -
  have "list_all (list_all line_char) (snapshot_lines b nic t old new)"
    unfolding snapshot_lines_def list.pred_inject list_all_append
    using field_line_chars [OF assms(1) const_line(4)] field_line_chars [OF assms(2) const_line(5)] assms(3,4) dec_int_line
    by (simp only: const_line simp_thms) (simp add: line_char_def)
  then show ?thesis using assms(5) by (simp add: list_all_iff)
qed

lemma sed_only:
  assumes "\<And>l. l \<in> set ls \<Longrightarrow> list_all line_char l" "filter (has_prefix (key @ ''='')) ls = [key @ ''='' @ v]"
  shows "sed_value key (unlines ls) = v"
proof -
  have t: "text_lines (unlines ls) = ls" using assms(1) line_char_nl by (intro text_lines_unlines) blast
  have "key @ ''='' @ v \<in> set ls" using arg_cong [OF assms(2), of set] by auto
  then have "nl \<notin> set (key @ ''='' @ v)" by (intro line_char_nl assms(1))
  then have "nl \<notin> set v" by simp
  then show ?thesis using strip_nl_line [of v] by (simp add: sed_value_def t assms(2))
qed

text \<open>The script reads back what was written.\<close>

lemma sed_snapshot:
  fixes t :: int
  assumes "nic_plain old" "nic_plain new" "list_all line_char nic" "list_all line_char b"
  defines "text \<equiv> unlines (snapshot_lines b nic t old new)"
  shows "sed_value ''nic'' text = nic" "sed_value ''ts'' text = dec_int t" "sed_value ''confirmed'' text = b"
    "sed_value ''old_cidr'' text = cidr80 old" "sed_value ''old_gateway'' text = nc_gateway old"
    "sed_value ''old_dns'' text = nc_dns old" "sed_value ''old_ipv6'' text = nc_ipv6 old"
  unfolding assms(5)
  by (rule sed_only, rule snapshot_line_chars [OF assms(1-4)], assumption, simp add: snapshot_lines_def field_lines_def has_prefix_def)+

section \<open>What is written fits\<close>

lemma plain_take: "list_all line_char s \<Longrightarrow> list_all line_char (take n s)"
  by (auto simp: list_all_iff dest: in_set_takeD)

lemma plain_after: "list_all line_char s \<Longrightarrow> after_chr c s = Some r \<Longrightarrow> list_all line_char r"
  by (auto simp: list_all_iff after_chr_def split: list.splits) (metis dropWhile_eq_drop in_set_dropD list.set_intros(2))

lemma plain_before: "list_all line_char s \<Longrightarrow> list_all line_char (before_chr c s)"
  by (auto simp: list_all_iff before_chr_def dest: set_takeWhileD)

lemma before_chr_length: "length (before_chr c s) \<le> length s"
  by (simp add: before_chr_def length_takeWhile_le)

lemma mask_plain: "list_all line_char (prefix_to_mask p n)"
proof -
  have d: "list_all line_char (dec_nat k)" for k using dec_int_line [of "int k"] by (simp add: dec_int_def)
  show ?thesis unfolding prefix_to_mask_def Let_def snprintf_s_def
    by (rule plain_take) (simp only: list_all_append d const_line simp_thms)
qed

lemma mask_short: "length (prefix_to_mask p 64) < 64"
  unfolding prefix_to_mask_def Let_def snprintf_s_def length_take by (rule le_less_trans [OF min.cobounded2]) simp

lemma plain_val: "list_all line_char l \<Longrightarrow> after_chr c l = Some v \<Longrightarrow> list_all line_char (snprintf_s n v)"
  unfolding snprintf_s_def by (rule plain_take, rule plain_after)

lemma config_line_plain:
  assumes "nic_plain c" "list_all line_char l"
  shows "nic_plain (config_line c l)"
proof (cases "after_chr (CHR '':'') l")
  case (Some v)
  note v = plain_val [OF assms(2) Some] plain_after [OF assms(2) Some]
  have ip: "nic_plain (c\<lparr>nc_ip := a\<rparr>)" "nic_plain (c\<lparr>nc_ip := a, nc_mask := prefix_to_mask q 64\<rparr>)"
    if "list_all line_char a" "length a < 64" for a q
    using that assms(1) mask_plain [of q 64] mask_short [of q] by (simp_all add: nic_plain_def)
  have a: "list_all line_char (before_chr k (snprintf_s 64 v))" "length (before_chr k (snprintf_s 64 v)) < 64"
    "length (snprintf_s 64 v) < 64" for k
    by (rule plain_before [OF v(1)], rule le_less_trans [OF before_chr_length]) (simp_all add: snprintf_s_def)
  have g: "nic_plain (c\<lparr>nc_gateway := snprintf_s 64 v\<rparr>)" "nic_plain (c\<lparr>nc_ipv6 := snprintf_s 128 v\<rparr>)"
    using assms(1) v by (simp_all add: nic_plain_def) (simp_all add: snprintf_s_def)
  have d: "nic_plain (c\<lparr>nc_dns := take 191 x\<rparr>)" if "list_all line_char x" for x
  proof -
    have "length (take 191 x) < 192" by (simp add: min.strict_coboundedI2)
    then show ?thesis using assms(1) plain_take [OF that] by (simp add: nic_plain_def del: length_take)
  qed
  have dns: "list_all line_char (nc_dns c)" "line_char CHR '',''" using assms(1) by (simp_all add: nic_plain_def line_char_def)
  show ?thesis using ip a g d v assms(1)
    by (simp add: config_line_def Some Let_def plain_take dns del: take_append split: option.split)
qed (use assms(1) in \<open>simp add: config_line_def\<close>)

lemma scan_line_plain: "list_all (\<lambda>c. code c \<noteq> (0::nat)) s \<Longrightarrow> l \<in> set (scan_lines s) \<Longrightarrow> list_all line_char l"
  by (auto simp: scan_lines_def list_all_iff line_char_def dest!: set_takeWhileD dest: split_on_pieces)

lemma fold_config_plain: "nic_plain c \<Longrightarrow> (\<And>l. l \<in> set ls \<Longrightarrow> list_all line_char l) \<Longrightarrow> nic_plain (foldl config_line c ls)"
  by (induction ls arbitrary: c) (simp_all add: config_line_plain)

lemma get_config_plain: "nmcli_get_config e run nic n s = (s', Inr c) \<Longrightarrow> nic_plain c"
proof -
  assume g: "nmcli_get_config e run nic n s = (s', Inr c)"
  then obtain s1 b where b: "nmcli_run e run [''nmcli'', ''-t'', ''device'', ''show'', nic] (Some 8192) n s = (s1, Inr b)"
    "c = foldl config_line empty_nic (scan_lines b)"
    by (auto simp: nmcli_get_config_def split: if_splits prod.splits sum.splits)
  have "list_all (\<lambda>c. code c \<noteq> (0::nat)) b"
    using b(1) cstr_no_nul by (auto simp: nmcli_run_def Let_def list_all_iff split: if_splits prod.splits nm_result.splits)
  then show ?thesis unfolding b(2) by (intro fold_config_plain scan_line_plain) (simp_all add: empty_nic_def nic_plain_def)
qed

lemma addr_line: "list_all addr_char s \<Longrightarrow> list_all line_char s"
  by (auto simp: list_all_iff addr_char_def line_char_def c_isxdigit_def c_isdigit_def)

lemma posted_plain: "nmcli_validate_params (posted_config e) n = None \<Longrightarrow> nic_plain (posted_config e)"
  using validated_fields_plain [of e n] addr_line
  by (simp add: nic_plain_def) (simp add: posted_config_def snprintf_s_def min.strict_coboundedI2)

section \<open>Changing and undoing\<close>

lemma set_armed:
  assumes "handle_set e run ''eth0'' (w, s) = ((w1, s1), True)"
  obtains s0 old where "nmcli_get_config e run ''eth0'' 512 s = (s0, Inr old)" "nic_plain old" "nic_plain (posted_config e)"
    "w_files w1 (rollback_path e) = Some (unlines (snapshot_lines ''0'' ''eth0'' (time_now e) old (posted_config e)))"
proof -
  have v: "nmcli_validate_params (posted_config e) 512 = None"
    using assms by (auto simp: handle_set_def Let_def split: if_splits option.splits)
  obtain s0 r where g: "nmcli_get_config e run ''eth0'' 512 s = (s0, r)" by fastforce
  obtain old where old: "r = Inr old" using assms g v by (cases r) (auto simp: handle_set_def Let_def split: if_splits)
  obtain s2 r2 where set: "nmcli_set_config e run ''eth0'' (posted_config e) 512 s0 = (s2, r2)" by fastforce
  have "w_files w1 (rollback_path e) = Some (snapshot_text e ''eth0'' old (posted_config e))"
    using assms g v old set by (cases r2) (auto simp: handle_set_def arm_rollback_def json_plain_def Let_def split: if_splits)
  then show thesis
    using g old get_config_plain [of e run "''eth0''" 512 s s0 old] posted_plain [OF v]
    by (intro that [of s0 old]) (simp_all add: snapshot_unlines)
qed

lemma test_gt_dec:
  assumes "-9223372036854775808 \<le> t" "t \<le> 9223372036854775807"
  shows "test_gt a (dec_int t) \<longleftrightarrow> a > t"
proof -
  have d: "list_all c_isdigit (dec_nat n)" "dec_nat n \<noteq> []" for n using dec_nat_digits by (auto simp: list_all_iff)
  have tw: "takeWhile c_isdigit (dec_nat n) = dec_nat n" for n using d(1) [of n] by (simp add: takeWhile_eq_all_conv list_all_iff)
  have sp: "dropWhile c_isspace (dec_nat n) = dec_nat n" "split_sign (dec_nat n) = (False, dec_nat n)" for n
  proof -
    obtain c cs where c: "dec_nat n = c # cs" by (cases "dec_nat n") simp_all
    then have "c_isdigit c" using d(1) [of n] by simp
    then show "dropWhile c_isspace (dec_nat n) = dec_nat n" "split_sign (dec_nat n) = (False, dec_nat n)"
      unfolding c by (auto simp: c_isdigit_def c_isspace_def split_sign_def)
  qed
  have "strtoll_end (dec_int t) = Some (t, [])"
    using assms d(2) by (cases "t < 0") (simp_all add: strtoll_end_def dec_int_def sp tw, simp add: split_sign_def c_isspace_def tw d)
  then show ?thesis by (simp add: test_gt_def test_number_def)
qed

lemma watchdog_restores:
  assumes "w_files w (rollback_path e) = Some (unlines (snapshot_lines ''0'' ''eth0'' t old new))" "nic_plain old" "nic_plain new"
    "-9223372036854775808 \<le> t" "t \<le> 9223372036854775807" "\<And>a. ssh = Some a \<Longrightarrow> a \<le> t"
  shows "watchdog e ssh nm (w, s) = (case restore_config nm ''eth0'' (cidr80 old) (nc_gateway old) (nc_dns old) (nc_ipv6 old) s of
     (s', rm, rc) \<Rightarrow> ((if rm then w\<lparr>w_files := (w_files w)(rollback_path e := None)\<rparr> else w, s'), rc))"
proof -
  have "\<not> (case ssh of None \<Rightarrow> False | Some a \<Rightarrow> test_gt a (dec_int t))"
    using assms(6) test_gt_dec [OF assms(4,5)] by (auto split: option.split)
  then show ?thesis
    using sed_snapshot [OF assms(2,3) const_line(12,13), of t] by (simp add: watchdog_def assms(1) Let_def)
qed

section \<open>A login keeps the change\<close>

lemma cstr_line: "list_all line_char l \<Longrightarrow> cstr (l @ [nl]) = l @ [nl]"
proof (rule cstr_id)
  fix c assume "list_all line_char l" "c \<in> set (l @ [nl])"
  then have "line_char c \<or> c = nl" by (auto simp: list_all_iff)
  then show "code c \<noteq> (0::nat)" by (elim disjE) (simp_all add: line_char_def)
qed

lemma confirm_snapshot:
  assumes "w_files w (rollback_path e) = Some (unlines (snapshot_lines ''0'' ''eth0'' t old new))" "nic_plain old" "nic_plain new"
    "-9223372036854775808 \<le> t" "t \<le> 9223372036854775807" "w_writable w (snprintf_s 256 (rollback_path e @ ''.tmp''))"
  shows "w_files (confirm_rollback e w) (rollback_path e) = Some (unlines (snapshot_lines ''1'' ''eth0'' t old new))"
proof -
  let ?ls = "snapshot_lines ''0'' ''eth0'' t old new"
  have "length (dec_int t) \<le> 20" using dec_int_length [of t 19] assms(4,5) by (simp add: abs_less_iff)
  moreover have "length (cidr80 c) < 80" for c by (simp add: cidr80_def snprintf_s_def min.strict_coboundedI2)
  then have "length (cidr80 old) < 80" "length (cidr80 new) < 80" by blast+
  ultimately have "list_all (\<lambda>l. length l < 255) ?ls"
    using assms(2,3) unfolding snapshot_lines_def field_lines_def nic_plain_def list_all_append list.pred_inject by simp
  then have len: "length l < 255" if "l \<in> set ?ls" for l using that by (simp add: list_all_iff)
  have f: "fgets_lines 256 (unlines ?ls) = map (\<lambda>l. l @ [nl]) ?ls"
    unfolding unlines_def
    by (rule fgets_lines_concat) (use snapshot_line_chars [OF assms(2,3) const_line(12,13)] line_char_nl len in fastforce)
  have c: "cstr (l @ [nl]) = l @ [nl]" if "l \<in> set ?ls" for l
    by (rule cstr_line [OF snapshot_line_chars [OF assms(2,3) const_line(12,13) that]])
  have m: "map cstr (map (\<lambda>l. l @ [nl]) ?ls) = map (\<lambda>l. l @ [nl]) ?ls"
    unfolding map_map o_def by (rule map_cong [OF refl], rule c)
  have "concat (map confirm_line (map (\<lambda>l. l @ [nl]) ?ls)) = unlines (snapshot_lines ''1'' ''eth0'' t old new)"
    by (simp add: unlines_def snapshot_lines_def field_lines_def confirm_line_def has_prefix_def)
  moreover have "list_ex (has_prefix ''confirmed=0'') (map (\<lambda>l. l @ [nl]) ?ls)"
    by (simp add: snapshot_lines_def has_prefix_def)
  ultimately show ?thesis using assms(1,6) by (simp add: confirm_rollback_def Let_def f m del: map_map)
qed

lemma watchdog_keeps:
  assumes "w_files w (rollback_path e) = Some (unlines (snapshot_lines ''1'' ''eth0'' t old new))" "nic_plain old" "nic_plain new"
  shows "watchdog e ssh nm (w, s) = ((w\<lparr>w_files := (w_files w)(rollback_path e := None)\<rparr>, s), 0)"
  using sed_snapshot [OF assms(2,3) const_line(12,14), of t] by (simp add: watchdog_def assms(1) Let_def)

lemma w_frames [simp]:
  "w_files (auth_cleanup e w) = w_files w" "w_writable (set_cur d w) = w_writable w"
  "w_files (fst (auth_session_create e i ip w)) = w_files w" "w_writable (fst (auth_session_create e i ip w)) = w_writable w"
  "w_files (gate_emit_session_cookies a b w) = w_files w"
  for w :: "'a world_scheme"
  by (simp_all add: auth_cleanup_def auth_session_cleanup_def set_cur_def auth_session_create_def Let_def
      gate_emit_session_cookies_def emit_def split: option.split)

lemma w_init [simp]: "w_files (fst (auth_init e p w)) = w_files w" "w_writable (fst (auth_init e p w)) = w_writable w"
  for w :: "'a world_scheme"
  by (auto simp: auth_init_def Let_def) (simp_all add: auth_cleanup_def auth_session_cleanup_def set_cur_def split: option.split)

lemma confirm_cong: "w_files a = w_files b \<Longrightarrow> w_writable a = w_writable b \<Longrightarrow> w_files (confirm_rollback e a) = w_files (confirm_rollback e b)"
  by (simp add: confirm_rollback_def Let_def split: option.split)

text \<open>A login whose password verifies confirms the snapshot.\<close>

lemma login_confirms:
  assumes "get_env e ''REQUEST_METHOD'' = ''POST''" "get_post_param e ''user'' = Some (u_username u)"
    "get_post_param e ''pass'' = Some pw" "u_username u \<noteq> []" "pw \<noteq> []"
    "g_db w = None" "disk w (gate_db_path e) = Some d" "db_wf d" "schema_current d" "eng e = healthy"
    "u \<in> set (t_users d)" "u_enabled u = 1" "auth_verify_password (Some pw) (Some (u_password_hash u))"
    "u_id u < 2147483648" "auth_generate_token (ent_sid e) (time_now e) 64 \<notin> s_sid ` set (t_sessions d)"
  shows "w_files (login_main e w) = w_files (confirm_rollback e w)"
proof -
  let ?p = "gate_db_path e" and ?i = "u_id u"
  define w1 where "w1 = fst (auth_init e ?p w)"
  have i: "snd (auth_init e ?p w) = 0" using assms(6,10) by (simp add: auth_init_def auth_cleanup_def Let_def)
  then have ini: "auth_init e ?p w = (w1, 0)" by (simp add: w1_def prod_eq_iff)
  have c1: "cur w1 = Some d" using init_current(1) [OF assms(6,7,9) i] by (simp add: w1_def)
  have pos: "0 < ?i" using assms(8,11) by (force simp: db_wf_def)
  have "auth_user_login e (Some (u_username u)) (Some pw) w1 = to_int32 ?i"
    using login_ok [OF c1 assms(8,11,12)] assms(10,13) by simp
  then have lg: "auth_user_login e (Some (u_username u)) (Some pw) w1 = ?i" using pos assms(14) by simp
  have "?i \<in> user_ids d" using assms(11) by (simp add: user_ids_def)
  then obtain w2 sid csrf where cr: "auth_session_create e ?i (getenv e ''REMOTE_ADDR'') w1 = (w2, Some (sid, csrf))"
    using c1 assms(10,15) by (auto simp: auth_session_create_def Let_def sql_insert_session_def)
  have "w_files w2 = w_files w" "w_writable w2 = w_writable w"
    using arg_cong [OF cr, of "\<lambda>r. w_files (fst r)"] arg_cong [OF cr, of "\<lambda>r. w_writable (fst r)"] by (simp_all add: w1_def)
  then have "w_files (confirm_rollback e w2) = w_files (confirm_rollback e w)" by (rule confirm_cong)
  then show ?thesis using assms(1-5) pos by (simp add: login_main_def ini lg cr Let_def)
qed

section \<open>The protocol\<close>

text \<open>Commands run, with their results.\<close>

definition traced :: "'s nmcli \<Rightarrow> ('s \<times> (string list \<times> nm_result) list) nmcli" where
  "traced nm sl argv = (case nm (fst sl) argv of (s', r) \<Rightarrow> ((s', snd sl @ [(argv, r)]), r))"

text \<open>The look-up of the profile: the profiles of the list are asked for their interface, in order, until
  one names \<open>nic\<close>; that one's UUID is the result.\<close>

fun lookup_runs :: "string \<Rightarrow> string list \<Rightarrow> (string list \<times> nm_result) list \<Rightarrow> string \<Rightarrow> bool" where
  "lookup_runs nic [] tr uuid \<longleftrightarrow> tr = [] \<and> uuid = []"
| "lookup_runs nic (l # ls) tr uuid \<longleftrightarrow> (\<exists>r tr'. tr = ([''nmcli'', ''-t'', ''connection'', ''show'', before_chr (CHR '':'') l], r) # tr'
     \<and> (if ifname_of (std_out r) = nic then tr' = [] \<and> uuid = (case after_chr (CHR '':'') l of None \<Rightarrow> l | Some u \<Rightarrow> u)
        else lookup_runs nic ls tr' uuid))"

text \<open>The commands that put a configuration back, and how far they run: to the first modification that
  fails, which is then the exit status, and else to the end.\<close>

definition undo_commands :: "string \<Rightarrow> NicConfig \<Rightarrow> string list list" where
  "undo_commands uuid c =
    [[''nmcli'', ''connection'', ''modify'', uuid, ''ipv4.method'', ''manual'', ''ipv4.addresses'', cidr80 c,
      ''ipv4.gateway'', nc_gateway c, ''ipv4.dns'', nc_dns c],
     [''nmcli'', ''connection'', ''modify'', uuid, ''ipv6.method'']
      @ (if nc_ipv6 c \<noteq> [] then [''manual'', ''ipv6.addresses'', nc_ipv6 c] else [''ignore'']),
     [''nmcli'', ''connection'', ''up'', uuid]]"

definition undo_runs :: "string \<Rightarrow> NicConfig \<Rightarrow> (string list \<times> nm_result) list \<Rightarrow> bool \<Rightarrow> int \<Rightarrow> bool" where
  "undo_runs uuid c tr gone rc \<longleftrightarrow>
    (if uuid = [] then tr = [] \<and> \<not> gone \<and> rc = 0
     else \<exists>r1. case undo_commands uuid c of [c1, c2, c3] \<Rightarrow>
       (if \<not> succeeded r1 then tr = [(c1, r1)] \<and> \<not> gone \<and> rc = 1
        else \<exists>r2. if \<not> succeeded r2 then tr = [(c1, r1), (c2, r2)] \<and> \<not> gone \<and> rc = 1
        else \<exists>r3. tr = [(c1, r1), (c2, r2), (c3, r3)] \<and> gone \<and> rc = 0) | _ \<Rightarrow> False)"

lemma uuid_lookups: "uuid_for (traced nm) nic ls (s, tr0) = ((s', tr), uuid) \<Longrightarrow>
    \<exists>looks. tr = tr0 @ looks \<and> lookup_runs nic ls looks uuid"
proof (induction ls arbitrary: s tr0)
  case (Cons l ls)
  let ?a = "[''nmcli'', ''-t'', ''connection'', ''show'', before_chr (CHR '':'') l]"
  obtain s1 r where r: "nm s ?a = (s1, r)" by fastforce
  show ?case
  proof (cases "ifname_of (std_out r) = nic")
    case True
    then show ?thesis using Cons.prems r by (intro exI [of _ "[(?a, r)]"]) (auto simp: traced_def Let_def)
  next
    case False
    then obtain looks where "tr = (tr0 @ [(?a, r)]) @ looks" "lookup_runs nic ls looks uuid"
      using Cons.prems r Cons.IH [of s1 "tr0 @ [(?a, r)]"] by (auto simp: traced_def Let_def)
    then show ?thesis using False by (intro exI [of _ "(?a, r) # looks"]) simp
  qed
qed simp

lemma restore_commands:
  assumes "restore_config (traced nm) nic (cidr80 c) (nc_gateway c) (nc_dns c) (nc_ipv6 c) (s, []) = ((s', tr), gone, rc)"
  obtains r looks uuid did where "tr = ([''nmcli'', ''-t'', ''-f'', ''NAME,UUID'', ''connection'', ''show''], r) # looks @ did"
    "lookup_runs nic (read_lines (std_out r)) looks uuid" "undo_runs uuid c did gone rc"
proof -
  let ?a = "[''nmcli'', ''-t'', ''-f'', ''NAME,UUID'', ''connection'', ''show'']"
  obtain s1 r1 where r1: "nm s ?a = (s1, r1)" by fastforce
  obtain s2 tr2 uuid where u: "uuid_for (traced nm) nic (read_lines (std_out r1)) (s1, [(?a, r1)]) = ((s2, tr2), uuid)" by (metis surj_pair)
  obtain looks where ls: "tr2 = [(?a, r1)] @ looks" "lookup_runs nic (read_lines (std_out r1)) looks uuid" using uuid_lookups [OF u] by blast
  obtain c1 c2 c3 where cs: "undo_commands uuid c = [c1, c2, c3]" by (simp add: undo_commands_def)
  obtain s3 r3 where r3: "nm s2 c1 = (s3, r3)" by fastforce
  obtain s4 r4 where r4: "nm s3 c2 = (s4, r4)" by fastforce
  obtain s5 r5 where r5: "nm s4 c3 = (s5, r5)" by fastforce
  note d = cs [unfolded undo_commands_def list.inject]
  define did where "did = (if uuid = [] then [] else if \<not> succeeded r3 then [(c1, r3)]
      else if \<not> succeeded r4 then [(c1, r3), (c2, r4)] else [(c1, r3), (c2, r4), (c3, r5)])"
  have "tr = tr2 @ did \<and> (gone \<longleftrightarrow> uuid \<noteq> [] \<and> succeeded r3 \<and> succeeded r4) \<and> rc = (if uuid \<noteq> [] \<and> \<not> (succeeded r3 \<and> succeeded r4) then 1 else 0)"
    using assms r1 u r3 r4 r5 d
    by (auto simp: restore_config_def traced_def did_def split: if_splits prod.splits)
  then have "tr = (?a, r1) # looks @ did" "undo_runs uuid c did gone rc" using ls(1) by (auto simp: undo_runs_def cs did_def)
  with ls(2) show thesis by (intro that)
qed

text \<open>C7: an unconfirmed change of \<open>eth0\<close> is undone.  After \<open>network.cgi\<close> has accepted a change, and while
  the snapshot is as it left it and no later login is in the authentication log, the watchdog, whenever
  it runs, takes the first profile that names \<open>eth0\<close> and gives it exactly the configuration the interface
  had before the change: address and prefix, gateway, name servers and IPv6 address survive the file
  unaltered.  Without such a profile it does nothing; it stops with status 1 at a modification that
  fails, and once both have succeeded it brings the profile up and removes the snapshot.\<close>

theorem eth0_change_undone:
  assumes "handle_set e run ''eth0'' (w, s) = ((w1, s1), True)"
    "-9223372036854775808 \<le> time_now e" "time_now e \<le> 9223372036854775807"
    "rollback_path e' = rollback_path e" "w_files w' (rollback_path e) = w_files w1 (rollback_path e)"
    "\<And>a. ssh = Some a \<Longrightarrow> a \<le> time_now e"
  shows "\<exists>s0 old r looks uuid did gone rc s2. nmcli_get_config e run ''eth0'' 512 s = (s0, Inr old)
    \<and> watchdog e' ssh (traced nm) (w', (s', [])) =
      ((if gone then w'\<lparr>w_files := (w_files w')(rollback_path e := None)\<rparr> else w',
        (s2, ([''nmcli'', ''-t'', ''-f'', ''NAME,UUID'', ''connection'', ''show''], r) # looks @ did)), rc)
    \<and> lookup_runs ''eth0'' (read_lines (std_out r)) looks uuid \<and> undo_runs uuid old did gone rc"
proof -
  obtain s0 old where o: "nmcli_get_config e run ''eth0'' 512 s = (s0, Inr old)" "nic_plain old" "nic_plain (posted_config e)"
    "w_files w1 (rollback_path e) = Some (unlines (snapshot_lines ''0'' ''eth0'' (time_now e) old (posted_config e)))"
    by (rule set_armed [OF assms(1)])
  have f: "w_files w' (rollback_path e') = Some (unlines (snapshot_lines ''0'' ''eth0'' (time_now e) old (posted_config e)))"
    using o(4) assms(4,5) by simp
  obtain s2 tr gone rc where r: "restore_config (traced nm) ''eth0'' (cidr80 old) (nc_gateway old) (nc_dns old) (nc_ipv6 old) (s', []) = ((s2, tr), gone, rc)"
    by (metis surj_pair)
  obtain r1 looks uuid did where k: "tr = ([''nmcli'', ''-t'', ''-f'', ''NAME,UUID'', ''connection'', ''show''], r1) # looks @ did"
    "lookup_runs ''eth0'' (read_lines (std_out r1)) looks uuid" "undo_runs uuid old did gone rc" by (rule restore_commands [OF r])
  have "watchdog e' ssh (traced nm) (w', (s', [])) =
      ((if gone then w'\<lparr>w_files := (w_files w')(rollback_path e := None)\<rparr> else w', (s2, tr)), rc)"
    using watchdog_restores [OF f o(2,3) assms(2,3), of ssh "traced nm" "(s', [])"] assms(4,6) r by simp
  with o(1) k show ?thesis by blast
qed

text \<open>C8: a change of \<open>eth0\<close> is kept once somebody has logged in.  If after an accepted change \<open>login.cgi\<close>
  has processed the right name and password of an enabled account, the watchdog runs no command and
  removes the snapshot.\<close>

theorem eth0_change_kept:
  assumes "handle_set e run ''eth0'' (w, s) = ((w1, s1), True)"
    "-9223372036854775808 \<le> time_now e" "time_now e \<le> 9223372036854775807"
    "rollback_path e' = rollback_path e" "rollback_path e2 = rollback_path e"
    "w_files w' (rollback_path e) = w_files w1 (rollback_path e)" "w_writable w' (snprintf_s 256 (rollback_path e @ ''.tmp''))"
    "get_env e2 ''REQUEST_METHOD'' = ''POST''" "get_post_param e2 ''user'' = Some (u_username u)"
    "get_post_param e2 ''pass'' = Some pw" "u_username u \<noteq> []" "pw \<noteq> []"
    "g_db w' = None" "disk w' (gate_db_path e2) = Some d" "db_wf d" "schema_current d" "eng e2 = healthy"
    "u \<in> set (t_users d)" "u_enabled u = 1" "auth_verify_password (Some pw) (Some (u_password_hash u))"
    "u_id u < 2147483648" "auth_generate_token (ent_sid e2) (time_now e2) 64 \<notin> s_sid ` set (t_sessions d)"
  shows "\<exists>w''. watchdog e' ssh nm (login_main e2 w', s') = ((w'', s'), 0) \<and> w_files w'' (rollback_path e) = None"
proof -
  obtain old where o: "nic_plain old" "nic_plain (posted_config e)"
    "w_files w1 (rollback_path e) = Some (unlines (snapshot_lines ''0'' ''eth0'' (time_now e) old (posted_config e)))"
    by (rule set_armed [OF assms(1)])
  have "w_files w' (rollback_path e2) = Some (unlines (snapshot_lines ''0'' ''eth0'' (time_now e) old (posted_config e)))"
    "w_writable w' (snprintf_s 256 (rollback_path e2 @ ''.tmp''))"
    using o(3) assms(5-7) by simp_all
  from confirm_snapshot [OF this(1) o(1,2) assms(2,3) this(2)]
  have "w_files (login_main e2 w') (rollback_path e') = Some (unlines (snapshot_lines ''1'' ''eth0'' (time_now e) old (posted_config e)))"
    unfolding login_confirms [OF assms(8-22)] assms(4,5) .
  from watchdog_keeps [OF this o(1,2), of ssh nm s'] show ?thesis
    by (intro exI conjI) (assumption, simp add: assms(4))
qed

section \<open>A sample change\<close>

definition demo_run :: "unit nmcli" where
  "demo_run s argv = (s, Exited True
     (if ''device'' \<in> set argv then ''IP4.ADDRESS[1]:10.0.0.9/24'' @ [nl] @ ''IP4.GATEWAY:10.0.0.1'' @ [nl]
      else if ''NAME,UUID'' \<in> set argv then ''eth0:u1'' @ [nl] else ''connection.interface-name:eth0'' @ [nl]))"

lemma demo_nmcli: "length argv + 3 \<le> 64 \<Longrightarrow> nmcli_run post_env demo_run argv n k () = ((), Inr (case n of None \<Rightarrow> []
   | Some m \<Rightarrow> cstr (take (m - 1) (std_out (snd (demo_run () (exec_argv post_env argv)))))))"
  by (simp add: nmcli_run_def demo_run_def std_out_def Let_def split: option.split)

lemma demo_exec: "exec_argv post_env (x # argv) = ''sudo'' # ''-n'' # ''nmcli'' # argv"
  by (simp add: exec_argv_def post_env_def)

lemma demo_profile: "profile_for post_env demo_run ''eth0'' k () = ((), Inr ''u1'')"
proof -
  have l: "scan_lines (cstr (take 8191 (''eth0:u1'' @ [nl]))) = [''eth0:u1'']"
    "bound_to ''eth0'' (cstr (take 8191 (''connection.interface-name:eth0'' @ [nl])))"
    by (simp_all add: scan_lines_def bound_to_def cstr_def)
  show ?thesis
    using l by (simp add: profile_for_def demo_nmcli demo_exec demo_run_def std_out_def after_chr_def before_chr_def)
qed

lemma demo_set: "snd (handle_set post_env demo_run ''eth0'' (sample_world, ()))"
proof -
  have g: "\<exists>old. nmcli_get_config post_env demo_run ''eth0'' 512 () = ((), Inr old)"
    by (simp add: nmcli_get_config_def nmcli_nic_valid_def g_nics_def demo_nmcli)
  have "nmcli_set_config post_env demo_run ''eth0'' post_cfg 512 () = ((), Inr ())"
    by (simp add: nmcli_set_config_def nmcli_nic_valid_def g_nics_def ensure_profile_def demo_profile demo_nmcli modify_argv_def post_cfg_def Let_def)
  then show ?thesis using g by (auto simp: handle_set_def arm_rollback_def sample_world_def Let_def)
qed

lemma set_frame:
  assumes "handle_set e run nic (w, s) = ((w1, s1), ok)"
  shows "g_db w1 = g_db w" "disk w1 = disk w" "w_writable w1 = w_writable w"
proof -
  have "g_db (fst (fst (handle_set e run nic (w, s)))) = g_db w" "disk (fst (fst (handle_set e run nic (w, s)))) = disk w"
    "w_writable (fst (fst (handle_set e run nic (w, s)))) = w_writable w"
    by (auto simp: handle_set_def arm_rollback_def json_plain_def cgi_header_def emit_def Let_def split: option.split prod.split sum.split)
  then show "g_db w1 = g_db w" "disk w1 = disk w" "w_writable w1 = w_writable w" using assms by simp_all
qed

lemma demo_env: "rollback_path post_env = ''/var/db/rollback.json''" "rollback_path login_req = ''/var/db/rollback.json''" "time_now post_env = 0"
  by (simp_all add: rollback_path_def post_env_def form_env_def login_req_def req_env_def sample_env_def)

theorem eth0_change_undone_witness:
  "\<exists>w1 old r looks uuid did gone rc. handle_set post_env demo_run ''eth0'' (sample_world, ()) = ((w1, ()), True)
    \<and> watchdog post_env None (traced demo_run) (w1, ((), [])) =
      ((if gone then w1\<lparr>w_files := (w_files w1)(''/var/db/rollback.json'' := None)\<rparr> else w1,
        ((), ([''nmcli'', ''-t'', ''-f'', ''NAME,UUID'', ''connection'', ''show''], r) # looks @ did)), rc)
    \<and> lookup_runs ''eth0'' (read_lines (std_out r)) looks uuid \<and> undo_runs uuid old did gone rc"
proof -
  obtain w1 where w1: "handle_set post_env demo_run ''eth0'' (sample_world, ()) = ((w1, ()), True)"
    using demo_set by (metis old.unit.exhaust prod.collapse)
  have t: "-9223372036854775808 \<le> time_now post_env" "time_now post_env \<le> 9223372036854775807" by (simp_all add: demo_env)
  have "\<exists>s0 old r looks uuid did gone rc s2. nmcli_get_config post_env demo_run ''eth0'' 512 () = (s0, Inr old)
    \<and> watchdog post_env None (traced demo_run) (w1, ((), [])) =
      ((if gone then w1\<lparr>w_files := (w_files w1)(rollback_path post_env := None)\<rparr> else w1,
        (s2, ([''nmcli'', ''-t'', ''-f'', ''NAME,UUID'', ''connection'', ''show''], r) # looks @ did)), rc)
    \<and> lookup_runs ''eth0'' (read_lines (std_out r)) looks uuid \<and> undo_runs uuid old did gone rc"
    by (rule eth0_change_undone [OF w1 t refl refl]) (rule FalseE, erule option.distinct(1) [THEN notE])
  then show ?thesis
  proof (elim exE conjE)
    fix s0 old r looks uuid did gone rc and s2 :: unit
    assume r: "watchdog post_env None (traced demo_run) (w1, ((), [])) =
      ((if gone then w1\<lparr>w_files := (w_files w1)(rollback_path post_env := None)\<rparr> else w1,
        (s2, ([''nmcli'', ''-t'', ''-f'', ''NAME,UUID'', ''connection'', ''show''], r) # looks @ did)), rc)"
      "lookup_runs ''eth0'' (read_lines (std_out r)) looks uuid" "undo_runs uuid old did gone rc"
    have "s2 = ()" by (cases s2)
    note r' = r(1) [unfolded this demo_env(1)]
    show ?thesis by (intro exI conjI) (rule w1, rule r', rule r(2), rule r(3))
  qed
qed

theorem eth0_change_kept_witness:
  "\<exists>w1 w''. handle_set post_env demo_run ''eth0'' (sample_world, ()) = ((w1, ()), True)
    \<and> watchdog post_env None demo_run (login_main login_req w1, ()) = ((w'', ()), 0) \<and> w_files w'' ''/var/db/rollback.json'' = None"
proof -
  obtain w1 where w1: "handle_set post_env demo_run ''eth0'' (sample_world, ()) = ((w1, ()), True)"
    using demo_set by (metis old.unit.exhaust prod.collapse)
  have t: "-9223372036854775808 \<le> time_now post_env" "time_now post_env \<le> 9223372036854775807" by (simp_all add: demo_env)
  have f: "g_db w1 = None" "disk w1 (gate_db_path login_req) = Some root_db" "w_writable w1 p" for p
    using set_frame [OF w1] by (simp_all add: sample_world_def root_db_def)
  have "rollback_path login_req = rollback_path post_env" by (simp add: demo_env)
  note k = eth0_change_kept [OF w1 t refl this refl f(3) login_req_env(1), of "sample_user 2 ''alice'' ''admin''" sample_pw root_db None demo_run "()"]
  have "\<exists>w''. watchdog post_env None demo_run (login_main login_req w1, ()) = ((w'', ()), 0) \<and> w_files w'' (rollback_path post_env) = None"
    by (rule k) (use f login_req_params sample_token_fresh alice login_req_env in simp_all)
  then show ?thesis using w1 unfolding demo_env by blast
qed

end
