(* ===== verification/AclHelper.thy ===== *)
theory AclHelper
  imports Ntpmon Shell
begin

text \<open>
  The privileged helper \<open>chrony_acl_apply.sh\<close> that the NTP page runs to add and remove access rules, on the
  file \<open>ntpmon.c\<close> reads back.  \<open>chronyc\<close> and \<open>systemctl\<close> are parameters; the messages are constructors.
\<close>

section \<open>The script\<close>

definition ACL :: string where
  "ACL = ''/etc/chrony/acl-web.conf''"

definition ACL_HEADER :: string where
  "ACL_HEADER = ''# Web-managed NTP access rules (chrony allow/deny) - do not edit by hand.''"

definition up_to :: "nat \<Rightarrow> (char \<Rightarrow> bool) \<Rightarrow> string \<Rightarrow> bool" where
  "up_to n p s \<longleftrightarrow> s \<noteq> [] \<and> length s \<le> n \<and> list_all p s"

text \<open>The two expressions, on one line: digits and colons, or four groups of one to three digits, with an
  optional prefix length of at most three or two digits.\<close>

definition rx_v6 :: "string \<Rightarrow> bool" where
  "rx_v6 l \<longleftrightarrow> (let a = before_chr (CHR ''/'') l in a \<noteq> [] \<and> list_all (\<lambda>c. c_isxdigit c \<or> c = CHR '':'') a
     \<and> (case after_chr (CHR ''/'') l of None \<Rightarrow> True | Some p \<Rightarrow> up_to 3 c_isdigit p))"

definition rx_v4 :: "string \<Rightarrow> bool" where
  "rx_v4 l \<longleftrightarrow> (let g = split_on (\<lambda>c. c = CHR ''.'') (before_chr (CHR ''/'') l) in length g = 4 \<and> list_all (up_to 3 c_isdigit) g
     \<and> (case after_chr (CHR ''/'') l of None \<Rightarrow> True | Some p \<Rightarrow> up_to 2 c_isdigit p))"

text \<open>\<open>grep -q\<close> succeeds when any line of its input matches.\<close>

definition valid_cidr :: "string \<Rightarrow> bool" where
  "valid_cidr c = (let v6 = (CHR '':'' \<in> set c) in
     list_ex (if v6 then rx_v6 else rx_v4) (text_lines c)
     \<and> (case after_chr (CHR ''/'') c of None \<Rightarrow> True
        | Some pfx \<Rightarrow> (case test_number pfx of None \<Rightarrow> False | Some n \<Rightarrow> n \<le> (if v6 then 128 else 32))))"

datatype acl_msg = NeedRoot | BadAction | BadCidr string | RuleExists string | ChronycFailed string | TmpFailed
  | UpdateFailed | NoRule string | RestartFailed | NotRunning | Usage | Added string | Removed string

type_synonym ('w, 's) acl_result = "('w \<times> 's) \<times> (acl_msg + acl_msg)"

definition acl_text :: "'a world_scheme \<Rightarrow> string" where
  "acl_text w = (case w_files w ACL of None \<Rightarrow> [] | Some t \<Rightarrow> t)"

text \<open>The rules are replaced: the new text goes to the temporary file, which is then moved.\<close>

definition acl_replace :: "string \<Rightarrow> 'a world_scheme \<Rightarrow> 'a world_scheme \<times> acl_msg option" where
  "acl_replace text w = (let tmp = ACL @ ''.tmp'' in
     if \<not> w_writable w tmp then (w, Some TmpFailed)
     else if \<not> w_writable w ACL then (w\<lparr>w_files := (w_files w)(tmp := Some text)\<rparr>, Some UpdateFailed)
     else (w\<lparr>w_files := (w_files w)(tmp := None, ACL := Some text)\<rparr>, None))"

definition acl_add ::
  "'s nmcli \<Rightarrow> string \<Rightarrow> string \<Rightarrow> 'a world_scheme \<times> 's \<Rightarrow> ('a world_scheme, 's) acl_result" where
  "acl_add nm action cidr ws = (case ws of (w, s) \<Rightarrow>
     let line = action @ '' '' @ cidr in
     if action \<noteq> ''allow'' \<and> action \<noteq> ''deny'' then ((w, s), Inl BadAction)
     else if \<not> valid_cidr cidr then ((w, s), Inl (BadCidr cidr))
     else if list_ex (grep_xF line) (text_lines (acl_text w)) then ((w, s), Inl (RuleExists line))
     else (case nm s [''chronyc'', action, cidr] of (s', r) \<Rightarrow>
       if \<not> succeeded r then ((w, s'), Inl (ChronycFailed action))
       else (case acl_replace (acl_text w @ line @ [nl]) w of
           (w', Some m) \<Rightarrow> ((w', s'), Inl m)
         | (w', None) \<Rightarrow> ((w', s'), Inr (Added line)))))"

text \<open>The line to remove; without an action the rule that allows comes first.\<close>

definition remove_line :: "string \<Rightarrow> string \<Rightarrow> string \<Rightarrow> string option" where
  "remove_line action cidr text = (let found = (\<lambda>l. list_ex (grep_xF l) (text_lines text)) in
     if action \<noteq> [] then (if found (action @ '' '' @ cidr) then Some (action @ '' '' @ cidr) else None)
     else if found (''allow '' @ cidr) then Some (''allow '' @ cidr)
     else if found (''deny '' @ cidr) then Some (''deny '' @ cidr) else None)"

text \<open>\<open>grep -v\<close> fails when it prints no line.\<close>

definition acl_remove ::
  "'s nmcli \<Rightarrow> string \<Rightarrow> string \<Rightarrow> 'a world_scheme \<times> 's \<Rightarrow> ('a world_scheme, 's) acl_result" where
  "acl_remove nm action cidr ws = (case ws of (w, s) \<Rightarrow>
     if \<not> valid_cidr cidr then ((w, s), Inl (BadCidr cidr))
     else (case remove_line action cidr (acl_text w) of None \<Rightarrow> ((w, s), Inl (NoRule (if action \<noteq> [] then action @ '' '' @ cidr else cidr)))
       | Some line \<Rightarrow>
         let kept = filter (\<lambda>l. \<not> grep_xF line l) (text_lines (acl_text w)) in
         if kept = [] then ((if w_writable w (ACL @ ''.tmp'') then w\<lparr>w_files := (w_files w)(ACL @ ''.tmp'' := Some [])\<rparr> else w, s), Inl TmpFailed)
         else (case acl_replace (unlines kept) w of
             (w', Some m) \<Rightarrow> ((w', s), Inl m)
           | (w', None) \<Rightarrow>
             (case nm s [''systemctl'', ''restart'', ''chrony''] of (s1, r1) \<Rightarrow>
              if \<not> succeeded r1 then ((w', s1), Inl RestartFailed)
              else (case nm s1 [''systemctl'', ''is-active'', ''--quiet'', ''chrony''] of (s2, r2) \<Rightarrow>
                if \<not> succeeded r2 then ((w', s2), Inl NotRunning) else ((w', s2), Inr (Removed line)))))))"

text \<open>An unset positional parameter is the empty string; \<open>shift\<close> without parameters ends the script.\<close>

definition acl_script ::
  "bool \<Rightarrow> 's nmcli \<Rightarrow> string list \<Rightarrow> 'a world_scheme \<times> 's \<Rightarrow> ('a world_scheme, 's) acl_result" where
  "acl_script root nm args ws = (case ws of (w0, s) \<Rightarrow>
     if \<not> root then ((w0, s), Inl NeedRoot)
     else (case args of [] \<Rightarrow> ((w0, s), Inl Usage)
       | op # rest \<Rightarrow>
         let w = (if w_files w0 ACL = None \<and> w_writable w0 ACL then w0\<lparr>w_files := (w_files w0)(ACL := Some (ACL_HEADER @ [nl]))\<rparr> else w0);
             arg = (\<lambda>i. if i < length rest then rest ! i else [])
         in if op = ''add'' then acl_add nm (arg 0) (arg 1) (w, s)
            else if op = ''remove''
            then (if arg 0 = ''allow'' \<or> arg 0 = ''deny'' then acl_remove nm (arg 0) (arg 1) (w, s) else acl_remove nm [] (arg 0) (w, s))
            else ((w, s), Inl Usage)))"

section \<open>The file of rules\<close>

fun entry_text :: "string + NtpAclRule \<Rightarrow> string" where
  "entry_text (Inl c) = CHR ''#'' # c"
| "entry_text (Inr r) = ar_action r @ '' '' @ ar_cidr r"

definition rules_of :: "(string + NtpAclRule) list \<Rightarrow> NtpAclRule list" where
  "rules_of es = List.map_filter (case_sum (\<lambda>_. None) Some) es"

lemma print_acl_unlines: "print_acl es = unlines (map entry_text es)"
proof -
  have "print_entry en = entry_text en @ [nl]" for en by (cases en) simp_all
  then have "print_entry = (\<lambda>en. entry_text en @ [nl])" by blast
  then show ?thesis by (simp add: print_acl_def unlines_def o_def)
qed

lemma entry_text_line: "entry_ok en \<Longrightarrow> nl \<notin> set (entry_text en)"
  by (cases en) (auto simp: list_all_iff plain_text_def c_isspace_def)

lemma acl_lines: "list_all entry_ok es \<Longrightarrow> text_lines (print_acl es) = map entry_text es"
  unfolding print_acl_unlines by (rule text_lines_unlines) (use entry_text_line in \<open>auto simp: list_all_iff\<close>)

lemma entry_text_eq:
  assumes "entry_ok en" "entry_ok (Inr r)"
  shows "entry_text en = entry_text (Inr r) \<longleftrightarrow> en = Inr r"
proof (cases en)
  case (Inl c)
  then show ?thesis using assms(2) by (auto simp: entry_text.simps)
next
  case (Inr q)
  have "q = r" if "ar_action q @ '' '' @ ar_cidr q = ar_action r @ '' '' @ ar_cidr r"
    using that assms Inr by (cases q; cases r) auto
  then show ?thesis using Inr by (auto simp: entry_text.simps)
qed

declare entry_text.simps(2) [simp del]

lemma rule_text: "ar_action r @ '' '' @ ar_cidr r = entry_text (Inr r)"
  by (rule entry_text.simps(2) [symmetric])

lemma grep_entry: "entry_ok (Inr r) \<Longrightarrow> grep_xF (entry_text (Inr r)) l \<longleftrightarrow> l = entry_text (Inr r)"
  using split_single [OF entry_text_line [of "Inr r"]] by (simp add: grep_xF_def)

lemma grep_entries:
  assumes "list_all entry_ok es" "entry_ok (Inr r)"
  shows "list_ex (grep_xF (entry_text (Inr r))) (map entry_text es) \<longleftrightarrow> Inr r \<in> set es"
    "filter (\<lambda>l. \<not> grep_xF (entry_text (Inr r)) l) (map entry_text es) = map entry_text (filter (\<lambda>en. en \<noteq> Inr r) es)"
  using assms(1) by (induction es) (auto simp: grep_entry [OF assms(2)] entry_text_eq [OF _ assms(2)])

lemma replace_result: "acl_replace text w = (w', m) \<Longrightarrow>
    (if m = None then w_files w' ACL = Some text else w_files w' ACL = w_files w ACL)"
  by (auto simp: acl_replace_def ACL_def Let_def split: if_splits)

lemma add_result:
  assumes "list_all entry_ok es" "w_files w ACL = Some (print_acl es)" "entry_ok (Inr r)"
    "acl_add nm (ar_action r) (ar_cidr r) (w, s) = ((w', s'), m)"
  shows "case m of Inl _ \<Rightarrow> w_files w' ACL = w_files w ACL
    | Inr _ \<Rightarrow> Inr r \<notin> set es \<and> w_files w' ACL = Some (print_acl (es @ [Inr r]))"
proof -
  have t: "acl_text w = print_acl es" using assms(2) by (simp add: acl_text_def)
  have p: "print_acl (es @ [Inr r]) = print_acl es @ entry_text (Inr r) @ [nl]" by (simp add: print_acl_def entry_text.simps)
  show ?thesis
    using assms(4) grep_entries(1) [OF assms(1,3)]
    unfolding acl_add_def rule_text
    by (auto simp: t p acl_lines [OF assms(1)] Let_def split: if_splits prod.splits option.splits dest!: replace_result)
qed

lemma remove_result:
  assumes "list_all entry_ok es" "w_files w ACL = Some (print_acl es)" "entry_ok (Inr r)"
    "acl_remove nm (ar_action r) (ar_cidr r) (w, s) = ((w', s'), m)"
  shows "case m of Inl x \<Rightarrow> w_files w' ACL = w_files w ACL
      \<or> (x = RestartFailed \<or> x = NotRunning) \<and> w_files w' ACL = Some (print_acl (filter (\<lambda>en. en \<noteq> Inr r) es))
    | Inr _ \<Rightarrow> Inr r \<in> set es \<and> w_files w' ACL = Some (print_acl (filter (\<lambda>en. en \<noteq> Inr r) es))"
proof -
  have t: "acl_text w = print_acl es" using assms(2) by (simp add: acl_text_def)
  have a: "ar_action r \<noteq> []" using assms(3) by auto
  have rl: "remove_line (ar_action r) (ar_cidr r) (print_acl es) = (if Inr r \<in> set es then Some (entry_text (Inr r)) else None)"
    using grep_entries(1) [OF assms(1,3)] a unfolding remove_line_def rule_text by (simp add: acl_lines [OF assms(1)] Let_def)
  have k: "unlines (map entry_text (filter (\<lambda>en. en \<noteq> Inr r) es)) = print_acl (filter (\<lambda>en. en \<noteq> Inr r) es)"
    by (simp add: print_acl_unlines)
  have tmp: "ACL @ ''.tmp'' \<noteq> ACL" by (simp add: ACL_def)
  show ?thesis
    using assms(4) tmp
    unfolding acl_remove_def
    by (auto simp: t rl acl_lines [OF assms(1)] grep_entries(2) [OF assms(1,3)] k Let_def
        split: if_splits prod.splits option.splits dest!: replace_result)
qed

lemma load_acl:
  assumes "list_all entry_ok es" "files ACL = Some (print_acl es)" "acl_file e = ACL"
  shows "ntpmon_acl_load e files 64 = Some (take 64 (rules_of es))"
  using acl_load_roundtrip [OF assms(1), of files e "''allow''"] assms(2,3) by (auto simp: rules_of_def)

lemma rules_of_remove: "rules_of (filter (\<lambda>en. en \<noteq> Inr r) es) = removeAll r (rules_of es)"
  by (induction es) (auto simp: rules_of_def List.map_filter_simps split: sum.split)

lemma rules_of_append: "rules_of (es @ [Inr r]) = rules_of es @ [r]"
  by (simp add: rules_of_def List.map_filter_def)

text \<open>C9: the helper and the page agree on the rules.  On a file of comments and rules, a helper run that
  reports success has changed the list the page loads by exactly the rule of the request: appended, and
  not there before, or removed, and there before.  A run that reports an error has left the file as it
  was, except that a removal whose restart of chrony fails has taken effect in the file.\<close>

theorem helper_updates_list:
  assumes "list_all entry_ok es" "w_files w ACL = Some (print_acl es)" "entry_ok (Inr r)" "acl_file e = ACL"
  shows "(case acl_script root nm [''add'', ar_action r, ar_cidr r] (w, s) of ((w', s'), m) \<Rightarrow> case m of
      Inl _ \<Rightarrow> w_files w' ACL = w_files w ACL
    | Inr _ \<Rightarrow> Inr r \<notin> set es \<and> ntpmon_acl_load e (w_files w') 64 = Some (take 64 (rules_of es @ [r])))
   \<and> (case acl_script root nm [''remove'', ar_action r, ar_cidr r] (w, s) of ((w', s'), m) \<Rightarrow> case m of
      Inl x \<Rightarrow> w_files w' ACL = w_files w ACL
        \<or> (x = RestartFailed \<or> x = NotRunning) \<and> ntpmon_acl_load e (w_files w') 64 = Some (take 64 (removeAll r (rules_of es)))
    | Inr _ \<Rightarrow> Inr r \<in> set es \<and> ntpmon_acl_load e (w_files w') 64 = Some (take 64 (removeAll r (rules_of es))))"
proof -
  have ok: "list_all entry_ok (es @ [Inr r])" "list_all entry_ok (filter (\<lambda>en. en \<noteq> Inr r) es)"
    using assms(1,3) by (auto simp: list_all_iff)
  note ld = load_acl [OF ok(1) _ assms(4), unfolded rules_of_append] load_acl [OF ok(2) _ assms(4), unfolded rules_of_remove]
  have act: "ar_action r = ''allow'' \<or> ar_action r = ''deny''" using assms(3) by auto
  obtain w1 s1 m1 where a: "acl_add nm (ar_action r) (ar_cidr r) (w, s) = ((w1, s1), m1)" by (metis prod.collapse)
  obtain w2 s2 m2 where b: "acl_remove nm (ar_action r) (ar_cidr r) (w, s) = ((w2, s2), m2)" by (metis prod.collapse)
  have add: "acl_script root nm [''add'', ar_action r, ar_cidr r] (w, s) = (if root then ((w1, s1), m1) else ((w, s), Inl NeedRoot))"
    using a assms(2) by (simp add: acl_script_def)
  have rem: "acl_script root nm [''remove'', ar_action r, ar_cidr r] (w, s) = (if root then ((w2, s2), m2) else ((w, s), Inl NeedRoot))"
    using b assms(2) act by (simp add: acl_script_def)
  show ?thesis unfolding add rem
    using add_result [OF assms(1-3) a] remove_result [OF assms(1-3) b] ld by (cases m1; cases m2) auto
qed

definition ok_run :: "unit nmcli" where
  "ok_run s argv = (s, Exited True [])"

theorem helper_updates_list_witness:
  "case acl_script True ok_run [''add'', ''deny'', ''192.168.1.0/24''] (sample_world\<lparr>w_files := \<lambda>_. Some (print_acl [Inl '' rules''])\<rparr>, ()) of
     ((w', _), m) \<Rightarrow> (\<exists>x. m = Inr x) \<and> ntpmon_acl_load form_env (w_files w') 64 = Some [\<lparr>ar_action = ''deny'', ar_cidr = ''192.168.1.0/24''\<rparr>]"
proof -
  let ?r = "\<lparr>ar_action = ''deny'', ar_cidr = ''192.168.1.0/24''\<rparr>" and ?w = "sample_world\<lparr>w_files := \<lambda>_. Some (print_acl [Inl '' rules''])\<rparr>"
  have v: "valid_cidr ''192.168.1.0/24''" by code_simp
  have g: "\<not> list_ex (grep_xF ''deny 192.168.1.0/24'') (text_lines (print_acl [Inl '' rules'']))" by code_simp
  obtain w' x where r: "acl_script True ok_run [''add'', ''deny'', ''192.168.1.0/24''] (?w, ()) = ((w', ()), Inr x)"
    using v g by (simp add: acl_script_def acl_add_def acl_text_def ok_run_def succeeded_def acl_replace_def sample_world_def Let_def)
  have "acl_file form_env = ACL" by (simp add: acl_file_def env_path_def form_env_def ACL_def)
  with helper_updates_list [of "[Inl '' rules'']" ?w ?r form_env True ok_run "()"] show ?thesis
    by (simp add: r plain_text_def c_isspace_def rules_of_def List.map_filter_simps)
qed

end
