(* ===== verification/Nmea.thy ===== *)
theory Nmea
  imports Host Json
begin

text \<open>
  The sentences of the receiver, \<open>pps_tod/pps_tod.c\<close>: field extraction, the satellite and fix display
  state, and the UTC second of RMC and ZDA sentences with its sanity window.  \<open>timegm\<close> and \<open>gmtime_r\<close>
  are the proleptic Gregorian calendar in UTC.  Monotonic clock readings are an argument: the \<open>k\<close>-th
  reading of a call is \<open>m k\<close>.
\<close>

section \<open>The calendar\<close>

definition leaps :: "int \<Rightarrow> int" where
  "leaps y = (y - 1) div 4 - (y - 1) div 100 + (y - 1) div 400"

definition is_leap :: "int \<Rightarrow> bool" where
  "is_leap y \<longleftrightarrow> y mod 4 = 0 \<and> (y mod 100 \<noteq> 0 \<or> y mod 400 = 0)"

definition days_to_year :: "int \<Rightarrow> int" where
  "days_to_year y = 365 * (y - 1970) + leaps y - 477"

definition days_to_month :: "int \<Rightarrow> int \<Rightarrow> int" where
  "days_to_month y m = [0, 31, 59, 90, 120, 151, 181, 212, 243, 273, 304, 334] ! nat m + (if is_leap y \<and> m \<ge> 2 then 1 else 0)"

definition timegm :: "tm \<Rightarrow> int" where
  "timegm t = (let y = 1900 + tm_year t + tm_mon t div 12; mo = tm_mon t mod 12 in
     (days_to_year y + days_to_month y mo + (tm_mday t - 1)) * 86400 + tm_hour t * 3600 + tm_min t * 60 + tm_sec t)"

text \<open>The year of \<open>gmtime_r\<close>: an estimate, corrected by one where needed.\<close>

definition gm_year :: "int \<Rightarrow> int" where
  "gm_year S = (let d = S div 86400; y = 1970 + (400 * d) div 146097 in
     if d < days_to_year y then y - 1 else if days_to_year (y + 1) \<le> d then y + 1 else y)"

section \<open>Fields\<close>

primrec field_at :: "nat \<Rightarrow> string \<Rightarrow> string option" where
  "field_at 0 p = Some p"
| "field_at (Suc n) p = (case after_chr (CHR '','') p of None \<Rightarrow> None | Some r \<Rightarrow> field_at n r)"

definition getnth :: "string \<Rightarrow> nat \<Rightarrow> nat \<Rightarrow> string option" where
  "getnth line n outsz = map_option (\<lambda>p. take (outsz - 1) (before_chr (CHR '','') p)) (field_at n line)"

section \<open>Receiver display state\<close>

datatype constel = GPS | BDS | GAL | GLO | QZSS | SBAS

record rx_state =
  g_rx_fix :: int
  g_rx_sats :: int
  g_gga_mono :: int
  g_sats :: "constel \<Rightarrow> int"
  g_gsa_mono :: "constel \<Rightarrow> int"

definition rx_init :: rx_state where
  "rx_init = \<lparr>g_rx_fix = -1, g_rx_sats = -1, g_gga_mono = 0, g_sats = (\<lambda>_. -1), g_gsa_mono = (\<lambda>_. 0)\<rparr>"

fun svnum_loop :: "(nat \<Rightarrow> int) \<Rightarrow> string \<Rightarrow> nat \<Rightarrow> constel list \<Rightarrow> rx_state \<Rightarrow> rx_state" where
  "svnum_loop m line k [] rx = rx"
| "svnum_loop m line k (c # cs) rx = (case getnth line (1 + 2 * k) 16 of None \<Rightarrow> rx
     | Some q \<Rightarrow> if q = [] \<or> hd q = CHR ''*'' then rx
         else svnum_loop m line (k + 1) cs (rx\<lparr>g_sats := (g_sats rx)(c := atoi q), g_gsa_mono := (g_gsa_mono rx)(c := m k)\<rparr>))"

fun gsa_used :: "string \<Rightarrow> nat list \<Rightarrow> int" where
  "gsa_used line [] = 0"
| "gsa_used line (i # is) = (case getnth line i 16 of None \<Rightarrow> 0
     | Some q \<Rightarrow> (if q \<noteq> [] \<and> hd q \<noteq> CHR ''*'' then 1 else 0) + gsa_used line is)"

definition gsa_talker :: "string \<Rightarrow> constel option" where
  "gsa_talker tk = (if tk = ''GP'' then Some GPS else if tk = ''BD'' \<or> tk = ''GB'' then Some BDS
     else if tk = ''GL'' then Some GLO else if tk = ''GA'' then Some GAL else None)"

definition gsa_update :: "int \<Rightarrow> constel \<Rightarrow> int \<Rightarrow> rx_state \<Rightarrow> rx_state" where
  "gsa_update now_m c used rx =
    (let base = (if g_gsa_mono rx c = 0 \<or> now_m - g_gsa_mono rx c > 500000000 then 0 else g_sats rx c)
     in rx\<lparr>g_sats := (g_sats rx)(c := base + used), g_gsa_mono := (g_gsa_mono rx)(c := now_m)\<rparr>)"

definition gga_update :: "int \<Rightarrow> string \<Rightarrow> rx_state \<Rightarrow> rx_state" where
  "gga_update now_m line rx =
    (let rx1 = (case getnth line 6 16 of Some q \<Rightarrow> if q \<noteq> [] then rx\<lparr>g_rx_fix := atoi q\<rparr> else rx | None \<Rightarrow> rx)
     in case getnth line 7 16 of None \<Rightarrow> rx1
        | Some q \<Rightarrow> if q \<noteq> [] then rx1\<lparr>g_rx_sats := atoi q, g_gga_mono := now_m\<rparr> else rx1)"

section \<open>Time sentences\<close>

definition two_digits :: "string \<Rightarrow> nat \<Rightarrow> int" where
  "two_digits s i = digit_val (s ! i) * 10 + digit_val (s ! (i + 1))"

text \<open>Hour, minute, second; day, month, year as the code reads them.  \<open>None\<close> is an early \<open>return 0\<close>.\<close>

definition rmc_fields :: "string \<Rightarrow> (int \<times> int \<times> int \<times> int \<times> int \<times> int) option" where
  "rmc_fields line = (case getnth line 1 16 of None \<Rightarrow> None
     | Some t \<Rightarrow> if length t < 6 then None
       else (case getnth line 2 16 of None \<Rightarrow> None
         | Some st \<Rightarrow> if st = [] \<or> (hd st \<noteq> CHR ''A'' \<and> hd st \<noteq> CHR ''a'') then None
           else (case getnth line 9 16 of None \<Rightarrow> None
             | Some d \<Rightarrow> if length d < 6 then None
               else Some (two_digits t 0, two_digits t 2, two_digits t 4, two_digits d 0, two_digits d 2, two_digits d 4))))"

definition zda_fields :: "string \<Rightarrow> (int \<times> int \<times> int \<times> int \<times> int \<times> int) option" where
  "zda_fields line = (case getnth line 1 16 of None \<Rightarrow> None
     | Some t \<Rightarrow> if length t < 6 then None
       else (case (getnth line 2 16, getnth line 3 16, getnth line 4 16) of
           (Some d, Some mo, Some y) \<Rightarrow> Some (two_digits t 0, two_digits t 2, two_digits t 4, atoi d, atoi mo, atoi y)
         | _ \<Rightarrow> None))"

definition sentence_tm :: "bool \<Rightarrow> int \<times> int \<times> int \<times> int \<times> int \<times> int \<Rightarrow> tm" where
  "sentence_tm is_rmc f = (case f of (hh, mi, ss, dd, mo, yr) \<Rightarrow>
     \<lparr>tm_year = (if is_rmc then yr + 100 else yr - 1900), tm_mon = mo - 1, tm_mday = dd, tm_hour = hh, tm_min = mi, tm_sec = ss\<rparr>)"

definition kind_is :: "string \<Rightarrow> string \<Rightarrow> bool" where
  "kind_is f k \<longleftrightarrow> length f \<ge> 6 \<and> has_prefix k (drop 3 f)"

text \<open>The new display state, whether \<open>sec_badtod\<close> counts one more, and the UTC second or 0.\<close>

definition parse_line :: "(nat \<Rightarrow> int) \<Rightarrow> string \<Rightarrow> rx_state \<Rightarrow> rx_state \<times> bool \<times> int" where
  "parse_line m line rx =
    (if line = [] \<or> hd line \<noteq> CHR ''$'' then (rx, False, 0)
     else (case getnth line 0 32 of None \<Rightarrow> (rx, False, 0)
       | Some f \<Rightarrow>
         if length f \<ge> 6 \<and> has_prefix ''$SVNUM'' f then (svnum_loop m line 0 [GPS, BDS, GAL, GLO, QZSS, SBAS] rx, False, 0)
         else if kind_is f ''GSA''
         then let used = gsa_used line [3..<15] in
           (if used > 0 then (case gsa_talker [f ! 1, f ! 2] of None \<Rightarrow> rx | Some c \<Rightarrow> gsa_update (m 0) c used rx) else rx, False, 0)
         else if kind_is f ''GGA'' then (gga_update (m 0) line rx, False, 0)
         else if \<not> kind_is f ''RMC'' \<and> \<not> kind_is f ''ZDA'' then (rx, False, 0)
         else (case (if kind_is f ''RMC'' then rmc_fields line else zda_fields line) of
             None \<Rightarrow> (rx, False, 0)
           | Some v \<Rightarrow>
             let S = timegm (sentence_tm (kind_is f ''RMC'') v); y = gm_year S in
             if y < 2020 \<or> y > 2100 then (rx, True, 0) else (rx, False, S))))"

section \<open>Years\<close>

lemma div_bounds: "0 < k \<Longrightarrow> k * (x div k) \<le> x \<and> x < k * (x div k) + k" for k :: int
  using mult_div_mod_eq [of k x] pos_mod_bound [of k x] pos_mod_sign [of k x] by linarith

lemma div_step: "0 < k \<Longrightarrow> y div k = (y - 1) div k + (if y mod k = 0 then 1 else 0)" for k :: int
proof -
  assume k: "0 < k"
  have m: "k * (y div k) + y mod k = y" "0 \<le> y mod k" "y mod k < k" using k by simp_all
  show ?thesis
  proof (cases "y mod k = 0")
    case True
    have "y - 1 = k * (y div k - 1) + (k - 1)" using m True by (simp add: algebra_simps)
    then have "(y - 1) div k = y div k - 1" using k by (intro int_div_pos_eq [of _ _ _ "k - 1"]) auto
    with True show ?thesis by simp
  next
    case False
    have "0 \<le> y mod k - 1" "y mod k - 1 < k" using m False by linarith+
    moreover have "y - 1 = k * (y div k) + (y mod k - 1)" using m by linarith
    ultimately have "(y - 1) div k = y div k" by (intro int_div_pos_eq [of _ _ _ "y mod k - 1"])
    with False show ?thesis by simp
  qed
qed

lemma leaps_step: "leaps (y + 1) = leaps y + (if is_leap y then 1 else 0)"
proof -
  have "y mod 400 = 0 \<Longrightarrow> y mod 100 = 0" using mod_mod_cancel [of 100 400 y] by simp
  moreover have "y mod 100 = 0 \<Longrightarrow> y mod 4 = 0" using mod_mod_cancel [of 4 100 y] by simp
  moreover have "leaps (y + 1) - leaps y = (if y mod 4 = 0 then 1 else 0) - (if y mod 100 = 0 then 1 else 0) + (if y mod 400 = 0 then 1 else 0)"
  proof -
    have "leaps (y + 1) = y div 4 - y div 100 + y div 400" by (simp add: leaps_def)
    moreover have "leaps y = (y - 1) div 4 - (y - 1) div 100 + (y - 1) div 400" by (rule leaps_def)
    moreover have "y div 4 - (y - 1) div 4 = (if y mod 4 = 0 then 1 else 0)" using div_step [of 4 y] by simp
    moreover have "y div 100 - (y - 1) div 100 = (if y mod 100 = 0 then 1 else 0)" using div_step [of 100 y] by simp
    moreover have "y div 400 - (y - 1) div 400 = (if y mod 400 = 0 then 1 else 0)" using div_step [of 400 y] by simp
    ultimately show ?thesis by linarith
  qed
  ultimately show ?thesis unfolding is_leap_def by (cases "y mod 4 = 0"; cases "y mod 100 = 0"; cases "y mod 400 = 0") simp_all
qed

lemma days_to_year_step: "days_to_year (y + 1) = days_to_year y + (if is_leap y then 366 else 365)"
  by (simp add: days_to_year_def leaps_step)

lemma days_to_year_mono: "y \<le> y' \<Longrightarrow> days_to_year y \<le> days_to_year y'"
proof (induction y' rule: int_ge_induct)
  case (step i)
  then show ?case by (simp add: days_to_year_step)
qed simp

lemma days_to_year_strict: "days_to_year y \<le> d \<Longrightarrow> d < days_to_year (y' + 1) \<Longrightarrow> y \<le> y'"
  using days_to_year_mono [of "y' + 1" y] by linarith

lemma days_to_year_bounds:
  "146097 * (y - 1970) - 508 \<le> 400 * days_to_year y" "400 * days_to_year y \<le> 146097 * (y - 1970) + 592"
proof -
  define x where "x = y - 1"
  define a b c where "a = x div 4" and "b = x div 100" and "c = x div 400"
  have b: "4 * a \<le> x" "x \<le> 4 * a + 3" "100 * b \<le> x" "x \<le> 100 * b + 99" "400 * c \<le> x" "x \<le> 400 * c + 399"
    unfolding a_def b_def c_def using div_bounds [of 4 x] div_bounds [of 100 x] div_bounds [of 400 x] by simp_all
  have "days_to_year y = 365 * (x - 1969) + a - b + c - 477"
    by (simp add: days_to_year_def leaps_def x_def a_def b_def c_def)
  then have d: "400 * days_to_year y = 146000 * (x - 1969) + 400 * a - 400 * b + 400 * c - 190800" by simp
  have y: "146097 * (y - 1970) = 146097 * (x - 1969)" by (simp add: x_def)
  show "146097 * (y - 1970) - 508 \<le> 400 * days_to_year y" unfolding d y using b by (simp add: algebra_simps)
  show "400 * days_to_year y \<le> 146097 * (y - 1970) + 592" unfolding d y using b by (simp add: algebra_simps)
qed

lemma gm_year_spec: "days_to_year (gm_year S) \<le> S div 86400 \<and> S div 86400 < days_to_year (gm_year S + 1)"
proof -
  define d where "d = S div 86400"
  define q where "q = (400 * d) div 146097"
  have q: "146097 * q \<le> 400 * d" "400 * d < 146097 * q + 146097" unfolding q_def using div_bounds [of 146097 "400 * d"] by simp_all
  define D1 D2 where "D1 = days_to_year (1970 + q - 1)" and "D2 = days_to_year (1970 + q + 1 + 1)"
  have "400 * D1 \<le> 146097 * (q - 1) + 592" "146097 * (q + 2) - 508 \<le> 400 * D2"
    using days_to_year_bounds(2) [of "1970 + q - 1"] days_to_year_bounds(1) [of "1970 + q + 1 + 1"]
    unfolding D1_def D2_def by simp_all
  with q have "D1 \<le> d" "d < D2" by (simp_all add: algebra_simps)
  then have "days_to_year (1970 + q - 1) \<le> d" "d < days_to_year (1970 + q + 1 + 1)" by (simp_all add: D1_def D2_def)
  then show ?thesis
    unfolding gm_year_def Let_def d_def [symmetric] q_def [symmetric] by auto
qed

lemma gm_year_iff: "gm_year S = y \<longleftrightarrow> days_to_year y \<le> S div 86400 \<and> S div 86400 < days_to_year (y + 1)"
  using gm_year_spec [of S] days_to_year_strict [of "gm_year S" "S div 86400" y] days_to_year_strict [of y "S div 86400" "gm_year S"]
  by (metis order_antisym)

lemma year_window: "2020 \<le> gm_year S \<and> gm_year S \<le> 2100 \<longleftrightarrow> 1577836800 \<le> S \<and> S < 4133980800"
proof -
  have c: "days_to_year 2020 = 18262" "days_to_year 2101 = 47847" by (simp_all add: days_to_year_def leaps_def)
  have "2020 \<le> gm_year S \<longleftrightarrow> 18262 \<le> S div 86400"
    using gm_year_spec [of S] days_to_year_mono [of 2020 "gm_year S"] days_to_year_mono [of "gm_year S + 1" 2020] c by linarith
  moreover have "gm_year S \<le> 2100 \<longleftrightarrow> S div 86400 < 47847"
    using gm_year_spec [of S] days_to_year_mono [of 2101 "gm_year S"] days_to_year_mono [of "gm_year S + 1" 2101] c by linarith
  moreover have "18262 \<le> S div 86400 \<longleftrightarrow> 1577836800 \<le> S" "S div 86400 < 47847 \<longleftrightarrow> S < 4133980800"
    using div_bounds [of 86400 S] by (linarith, linarith)
  ultimately show ?thesis by blast
qed

text \<open>Which lines can move the reference.  A line yields a non-zero second only if it is an RMC
  sentence with status A or a ZDA sentence, and then the second lies between the start of 2020 and the
  end of 2100 and the display state is untouched; a line with a date outside is counted and yields
  nothing, and every other sentence leaves the counter alone.\<close>

theorem parse_line_window:
  assumes "parse_line m line rx = (rx', bad, S)"
  shows "(if S = 0 then True else 1577836800 \<le> S \<and> S < 4133980800 \<and> rx' = rx \<and> \<not> bad)
    \<and> (if bad \<or> S \<noteq> 0
       then \<exists>f v. getnth line 0 32 = Some f \<and> (kind_is f ''RMC'' \<and> rmc_fields line = Some v \<or> kind_is f ''ZDA'' \<and> zda_fields line = Some v)
          \<and> (bad \<longleftrightarrow> \<not> (1577836800 \<le> timegm (sentence_tm (kind_is f ''RMC'') v) \<and> timegm (sentence_tm (kind_is f ''RMC'') v) < 4133980800))
       else True)"
proof (cases "line = [] \<or> hd line \<noteq> CHR ''$''")
  case True
  then show ?thesis using assms by (simp add: parse_line_def)
next
  case False
  obtain f where f: "getnth line 0 32 = Some f" by (simp add: getnth_def)
  show ?thesis
  proof (cases "length f \<ge> 6 \<and> has_prefix ''$SVNUM'' f \<or> kind_is f ''GSA'' \<or> kind_is f ''GGA'' \<or> \<not> kind_is f ''RMC'' \<and> \<not> kind_is f ''ZDA''")
    case True
    then show ?thesis using assms False f by (auto simp: parse_line_def Let_def split: if_splits)
  next
    case rz: False
    define v where "v = (if kind_is f ''RMC'' then rmc_fields line else zda_fields line)"
    have n: "\<not> (6 \<le> length f \<and> has_prefix ''$SVNUM'' f)" "\<not> kind_is f ''GSA''" "\<not> kind_is f ''GGA''"
      "\<not> (\<not> kind_is f ''RMC'' \<and> \<not> kind_is f ''ZDA'')" using rz by blast+
    have p: "parse_line m line rx = (case v of None \<Rightarrow> (rx, False, 0)
       | Some v \<Rightarrow> if gm_year (timegm (sentence_tm (kind_is f ''RMC'') v)) < 2020 \<or> gm_year (timegm (sentence_tm (kind_is f ''RMC'') v)) > 2100
           then (rx, True, 0) else (rx, False, timegm (sentence_tm (kind_is f ''RMC'') v)))"
      unfolding v_def by (simp only: parse_line_def f False n option.case Let_def if_False)
    show ?thesis
    proof (cases v)
      case None
      then show ?thesis using p assms by simp
    next
      case (Some t)
      let ?S = "timegm (sentence_tm (kind_is f ''RMC'') t)"
      have k: "kind_is f ''RMC'' \<and> rmc_fields line = Some t \<or> kind_is f ''ZDA'' \<and> zda_fields line = Some t"
        using Some rz by (auto simp: v_def split: if_splits)
      have w: "gm_year ?S < 2020 \<or> gm_year ?S > 2100 \<longleftrightarrow> \<not> (1577836800 \<le> ?S \<and> ?S < 4133980800)"
        using year_window [of ?S] by linarith
      have r: "(rx', bad, S) = (if 1577836800 \<le> ?S \<and> ?S < 4133980800 then (rx, False, ?S) else (rx, True, 0))"
        using p assms unfolding Some option.case w by simp
      show ?thesis
      proof (cases "1577836800 \<le> ?S \<and> ?S < 4133980800")
        case True
        with r have "rx' = rx" "\<not> bad" "S = ?S" by simp_all
        with True k f show ?thesis by (simp del: split_paired_Ex) blast
      next
        case bad: False
        with r have "bad" "S = 0" by simp_all
        with bad k f show ?thesis by (simp del: split_paired_Ex) blast
      qed
    qed
  qed
qed

section \<open>Sentences read back\<close>

definition d2 :: "nat \<Rightarrow> string" where
  "d2 n = pad0 2 (dec_nat n)"

definition rmc_line :: "string \<Rightarrow> nat \<times> nat \<times> nat \<Rightarrow> string \<Rightarrow> string list \<Rightarrow> nat \<times> nat \<times> nat \<Rightarrow> string list \<Rightarrow> string" where
  "rmc_line tk t frac mid d rest = (case t of (hh, mi, ss) \<Rightarrow> case d of (dd, mo, yy) \<Rightarrow>
     comma_join ([''$'' @ tk @ ''RMC'', d2 hh @ d2 mi @ d2 ss @ frac, ''A''] @ mid @ [d2 dd @ d2 mo @ d2 yy] @ rest))"

lemma field_at_join: "n < length fs \<Longrightarrow> (\<forall>f\<in>set fs. CHR '','' \<notin> set f) \<Longrightarrow> field_at n (comma_join fs) = Some (comma_join (drop n fs))"
proof (induction n arbitrary: fs)
  case (Suc n)
  then obtain x y ys where fs: "fs = x # y # ys" by (cases fs; cases "tl fs") auto
  with Suc.prems have "after_chr (CHR '','') (comma_join fs) = Some (comma_join (y # ys))" by simp
  with Suc fs show ?case by simp
qed simp

lemma getnth_join: "n < length fs \<Longrightarrow> (\<forall>f\<in>set fs. CHR '','' \<notin> set f) \<Longrightarrow> length (fs ! n) < sz \<Longrightarrow> getnth (comma_join fs) n sz = Some (fs ! n)"
proof -
  assume n: "n < length fs" and c: "\<forall>f\<in>set fs. CHR '','' \<notin> set f" and l: "length (fs ! n) < sz"
  have nc: "CHR '','' \<notin> set (fs ! n)" using n c by simp
  have "before_chr (CHR '','') (comma_join (drop n fs)) = fs ! n"
  proof (cases "drop (Suc n) fs")
    case Nil
    with n have "drop n fs = [fs ! n]" by (metis Cons_nth_drop_Suc)
    then show ?thesis using before_chr_none [OF nc] by simp
  next
    case (Cons y ys)
    with n have "drop n fs = fs ! n # y # ys" by (metis Cons_nth_drop_Suc)
    then show ?thesis using nc by simp
  qed
  with field_at_join [OF n c] l show ?thesis by (simp add: getnth_def)
qed

lemma d2_eq: "n < 100 \<Longrightarrow> d2 n = [digit_char (n div 10), digit_char (n mod 10)]"
proof -
  assume "n < 100"
  have z: "digit_char 0 = CHR ''0''" by code_simp
  from \<open>n < 100\<close> show ?thesis
  by (cases "n < 10") (simp_all add: d2_def pad0_def dec_nat.simps [of n] dec_nat.simps [of "n div 10"] z)
qed

lemma d2_digits: "n < 100 \<Longrightarrow> length (d2 n) = 2 \<and> digit_val (d2 n ! 0) * 10 + digit_val (d2 n ! 1) = int n \<and> CHR '','' \<notin> set (d2 n)"
proof -
  assume n: "n < 100"
  note d = digit_char_digit [of "n div 10"] digit_char_digit [of "n mod 10"]
  have "c_isdigit (CHR '','') = False" by (simp add: c_isdigit_def)
  then have "CHR '','' \<notin> set (d2 n)" using d2_eq [OF n] d n by auto
  moreover have "int (n div 10) * 10 + int (n mod 10) = int n" by (metis add.commute div_mod_decomp of_nat_add of_nat_mult of_nat_numeral)
  ultimately show ?thesis using d2_eq [OF n] d n by simp
qed

lemma two_digits_append:
  "length a = 2 \<Longrightarrow> length b = 2 \<Longrightarrow> length c = 2 \<Longrightarrow>
    two_digits (a @ b @ c @ r) 0 = digit_val (a ! 0) * 10 + digit_val (a ! 1)
    \<and> two_digits (a @ b @ c @ r) 2 = digit_val (b ! 0) * 10 + digit_val (b ! 1)
    \<and> two_digits (a @ b @ c @ r) 4 = digit_val (c ! 0) * 10 + digit_val (c ! 1)"
  by (simp add: two_digits_def nth_append numeral_eq_Suc)

text \<open>C29: a sentence read back.  An RMC sentence with status A for any time and date of this century,
  whatever the talker, fraction, position fields and trailer, yields exactly the UTC second of that
  date and time, provided the date lies in the accepted years.\<close>

theorem rmc_roundtrip:
  assumes "hh < 100" "mi < 100" "ss < 100" "dd < 100" "mo < 100" "yy < 100"
    and tk: "length tk = 2" "CHR '','' \<notin> set tk" and "length mid = 6" "\<forall>f\<in>set (frac # mid @ rest). CHR '','' \<notin> set f" "length frac \<le> 9"
    and S: "S = timegm \<lparr>tm_year = int yy + 100, tm_mon = int mo - 1, tm_mday = int dd, tm_hour = int hh, tm_min = int mi, tm_sec = int ss\<rparr>"
    and w: "1577836800 \<le> S" "S < 4133980800"
  shows "parse_line m (rmc_line tk (hh, mi, ss) frac mid (dd, mo, yy) rest) rx = (rx, False, S)"
proof -
  define t d where "t = d2 hh @ d2 mi @ d2 ss @ frac" and "d = d2 dd @ d2 mo @ d2 yy"
  define fs where "fs = [''$'' @ tk @ ''RMC'', t, ''A''] @ mid @ [d] @ rest"
  note dg = d2_digits [OF assms(1)] d2_digits [OF assms(2)] d2_digits [OF assms(3)] d2_digits [OF assms(4)] d2_digits [OF assms(5)] d2_digits [OF assms(6)]
  have l: "rmc_line tk (hh, mi, ss) frac mid (dd, mo, yy) rest = comma_join fs" by (simp add: rmc_line_def fs_def t_def d_def)
  have c: "\<forall>f\<in>set fs. CHR '','' \<notin> set f" using assms dg by (auto simp: fs_def t_def d_def)
  have n: "fs ! 0 = ''$'' @ tk @ ''RMC''" "fs ! 1 = t" "fs ! 2 = ''A''" "fs ! 9 = d" "9 < length fs"
    using assms by (simp_all add: fs_def nth_append)
  have lt: "length t = 6 + length frac" "length d = 6" using dg by (simp_all add: t_def d_def)
  have g: "getnth (comma_join fs) 0 32 = Some (''$'' @ tk @ ''RMC'')" "getnth (comma_join fs) 1 16 = Some t"
    "getnth (comma_join fs) 2 16 = Some ''A''" "getnth (comma_join fs) 9 16 = Some d"
    using getnth_join [OF _ c, of 0 32] getnth_join [OF _ c, of 1 16] getnth_join [OF _ c, of 2 16] getnth_join [OF _ c, of 9 16]
      n lt tk(1) assms(11) by (auto simp: fs_def)
  have td: "two_digits t 0 = int hh \<and> two_digits t 2 = int mi \<and> two_digits t 4 = int ss"
    unfolding t_def using two_digits_append [of "d2 hh" "d2 mi" "d2 ss" frac] dg by simp
  have dd: "two_digits d 0 = int dd \<and> two_digits d 2 = int mo \<and> two_digits d 4 = int yy"
    unfolding d_def using two_digits_append [of "d2 dd" "d2 mo" "d2 yy" "[]"] dg by simp
  have rf: "rmc_fields (comma_join fs) = Some (int hh, int mi, int ss, int dd, int mo, int yy)"
    unfolding rmc_fields_def g option.case using td dd lt by simp
  obtain a b where tk2: "tk = [a, b]" using tk(1) by (auto simp: numeral_eq_Suc length_Suc_conv)
  have k: "kind_is (''$'' @ tk @ ''RMC'') ''RMC''" "\<not> kind_is (''$'' @ tk @ ''RMC'') ''GSA''" "\<not> kind_is (''$'' @ tk @ ''RMC'') ''GGA''"
    "\<not> has_prefix ''$SVNUM'' (''$'' @ tk @ ''RMC'')" by (simp_all add: kind_is_def has_prefix_def tk2)
  have h: "comma_join fs \<noteq> []" "hd (comma_join fs) = CHR ''$''" by (simp_all add: fs_def)
  have y: "\<not> (gm_year S < 2020 \<or> gm_year S > 2100)" using year_window [of S] w by linarith
  have s: "sentence_tm True (int hh, int mi, int ss, int dd, int mo, int yy)
      = \<lparr>tm_year = int yy + 100, tm_mon = int mo - 1, tm_mday = int dd, tm_hour = int hh, tm_min = int mi, tm_sec = int ss\<rparr>"
    by (simp add: sentence_tm_def)
  show ?thesis
    unfolding l parse_line_def g(1) using h k y by (simp only: rf s S [symmetric] Let_def option.case simp_thms if_False if_True)
qed

theorem rmc_roundtrip_witness:
  "parse_line (\<lambda>_. 0) (rmc_line ''GN'' (23, 59, 60) ''.00'' [''3150.1'', ''N'', ''11711.9'', ''E'', ''0.0'', ''0''] (31, 12, 26) [''A*7F'']) rx_init
    = (rx_init, False, 1798761600)"
proof -
  have t: "timegm \<lparr>tm_year = int 26 + 100, tm_mon = int 12 - 1, tm_mday = int 31, tm_hour = int 23, tm_min = int 59, tm_sec = int 60\<rparr> = 1798761600"
    by code_simp
  show ?thesis by (rule rmc_roundtrip) (simp_all add: t [simplified])
qed

theorem parse_line_window_witness:
  "snd (parse_line (\<lambda>_. 0) ''$GNZDA,000001.00,01,01,1980,00,00*00'' rx_init) = (True, 0)
    \<and> (\<exists>f v. kind_is f ''ZDA'' \<and> zda_fields ''$GNZDA,000001.00,01,01,1980,00,00*00'' = Some v)"
proof -
  have s: "snd (parse_line (\<lambda>_. 0) ''$GNZDA,000001.00,01,01,1980,00,00*00'' rx_init) = (True, 0)" by code_simp
  then obtain rx' where p: "parse_line (\<lambda>_. 0) ''$GNZDA,000001.00,01,01,1980,00,00*00'' rx_init = (rx', True, 0)" by (metis prod.collapse)
  have "\<exists>f v. getnth ''$GNZDA,000001.00,01,01,1980,00,00*00'' 0 32 = Some f \<and> (kind_is f ''RMC'' \<and> rmc_fields ''$GNZDA,000001.00,01,01,1980,00,00*00'' = Some v
      \<or> kind_is f ''ZDA'' \<and> zda_fields ''$GNZDA,000001.00,01,01,1980,00,00*00'' = Some v)"
    using parse_line_window [OF p, THEN conjunct2] by (simp only: simp_thms if_True) blast
  moreover have "rmc_fields ''$GNZDA,000001.00,01,01,1980,00,00*00'' = None" by code_simp
  ultimately show ?thesis using s by (metis option.distinct(1))
qed

end
