(* ===== verification/PpsLog.thy ===== *)
theory PpsLog
  imports Host "HOL-Library.Char_ord" "HOL-Library.List_Lexorder" "HOL-Library.Multiset" "HOL-Library.Sublist"
begin

text \<open>
  The log of the time daemon, \<open>pps_tod/pps_tod.c\<close>: the day file and its rollover, the periodic
  summary of accepted samples, and the size-capped retention.  File operations are a list of
  actions; whether a file can be opened or removed, the directory listing and the local time are
  parameters.  \<open>strcmp\<close> is the lexicographic order of byte strings.
\<close>

section \<open>The day file\<close>

datatype logact = Mkdir string | Gzip string | Append string string | Print string

record logger =
  lg_dir :: string
  lg_file :: string
  lg_fp :: "string option"
  lg_day :: int
  lg_roll :: bool
  lg_dir_done :: bool

definition day_num :: "tm \<Rightarrow> int" where
  "day_num t = (tm_year t + 1900) * 10000 + (tm_mon t + 1) * 100 + tm_mday t"

definition day_path :: "string \<Rightarrow> int \<Rightarrow> int \<Rightarrow> int \<Rightarrow> string" where
  "day_path dir y m d = dir @ ''/pps_tod_'' @ fmt_0d 4 y @ ''-'' @ fmt_0d 2 m @ ''-'' @ fmt_0d 2 d @ ''.log''"

definition log_open :: "(int \<Rightarrow> tm) \<Rightarrow> (string \<Rightarrow> bool) \<Rightarrow> int \<Rightarrow> logger \<Rightarrow> logger \<times> logact list" where
  "log_open ltime openable now lg =
    (let t = ltime now; newday = day_num t;
         rolling = lg_roll lg \<and> lg_fp lg \<noteq> None \<and> newday \<noteq> lg_day lg;
         file = (if lg_roll lg then day_path (lg_dir lg) (tm_year t + 1900) (tm_mon t + 1) (tm_mday t) else lg_file lg)
     in (lg\<lparr>lg_file := file, lg_fp := (if openable file then Some file else None), lg_day := newday, lg_dir_done := True\<rparr>,
         (if lg_dir_done lg then [] else [Mkdir (lg_dir lg)])
         @ (if rolling then [Gzip (day_path (lg_dir lg) (lg_day lg div 10000) (lg_day lg div 100 mod 100) (lg_day lg mod 100))] else [])))"

definition log_line :: "tm \<Rightarrow> string \<Rightarrow> string" where
  "log_line t buf = (if has_prefix ''STAT:'' buf then snprintf_s 544 buf
     else snprintf_s 544 (fmt_0d 2 (tm_hour t) @ '':'' @ fmt_0d 2 (tm_min t) @ '':'' @ fmt_0d 2 (tm_sec t) @ '' '' @ buf))"

text \<open>\<open>wall k\<close> is the \<open>k\<close>-th reading of \<open>time (NULL)\<close>, \<open>msg\<close> the formatted message.\<close>

definition logmsg :: "(int \<Rightarrow> tm) \<Rightarrow> (string \<Rightarrow> bool) \<Rightarrow> (nat \<Rightarrow> int) \<Rightarrow> string \<Rightarrow> logger \<Rightarrow> logger \<times> logact list" where
  "logmsg ltime openable wall msg lg =
    (let line = log_line (ltime (wall 0)) (snprintf_s 512 msg);
         (lg1, acts) = (if lg_roll lg
            then if lg_fp lg = None \<or> day_num (ltime (wall 1)) \<noteq> lg_day lg then log_open ltime openable (wall 2) lg else (lg, [])
            else if lg_fp lg = None then log_open ltime openable (wall 2) lg else (lg, []))
     in (lg1, acts @ (case lg_fp lg1 of None \<Rightarrow> [] | Some p \<Rightarrow> [Append p (line @ [CHR 0x0A])]) @ [Print (line @ [CHR 0x0A])]))"

section \<open>The periodic summary\<close>

record accum =
  acc_n :: int
  acc_off_min_us :: int
  acc_off_max_us :: int
  acc_off_sum_us :: int
  acc_tod_n :: int
  acc_gated :: int
  acc_noedge :: int
  acc_noanchor :: int
  acc_badtod :: int

definition acc_zero :: accum where
  "acc_zero = \<lparr>acc_n = 0, acc_off_min_us = 0, acc_off_max_us = 0, acc_off_sum_us = 0, acc_tod_n = 0,
     acc_gated = 0, acc_noedge = 0, acc_noanchor = 0, acc_badtod = 0\<rparr>"

definition acc_sample :: "int \<Rightarrow> accum \<Rightarrow> accum" where
  "acc_sample off_us a = a\<lparr>
     acc_off_min_us := (if acc_n a = 0 \<or> off_us < acc_off_min_us a then off_us else acc_off_min_us a),
     acc_off_max_us := (if acc_n a = 0 \<or> off_us > acc_off_max_us a then off_us else acc_off_max_us a),
     acc_off_sum_us := acc_off_sum_us a + off_us, acc_n := acc_n a + 1\<rparr>"

text \<open>\<open>%+lld\<close>.\<close>

definition fmt_plus :: "int \<Rightarrow> string" where
  "fmt_plus i = (if i < 0 then dec_int i else CHR ''+'' # dec_int i)"

definition acc_avg :: "accum \<Rightarrow> int" where
  "acc_avg a = (if acc_n a \<noteq> 0 then cdiv (acc_off_sum_us a) (acc_n a) else 0)"

definition emit_summary :: "int \<Rightarrow> tm \<Rightarrow> accum \<Rightarrow> accum \<times> string" where
  "emit_summary log_interval t a = (acc_zero,
     ''STAT: window='' @ dec_int log_interval @ ''s ts='' @ fmt_stamp t
     @ (if acc_n a > 0
        then '' n='' @ dec_int (acc_n a) @ '' off_us min='' @ fmt_plus (acc_off_min_us a) @ '' avg='' @ fmt_plus (acc_avg a)
             @ '' max='' @ fmt_plus (acc_off_max_us a)
        else '' n=0 off_us min=- avg=- max=-'')
     @ '' tod_n='' @ dec_int (acc_tod_n a) @ '' gated='' @ dec_int (acc_gated a) @ '' noedge='' @ dec_int (acc_noedge a)
     @ '' noanchor='' @ dec_int (acc_noanchor a) @ '' badtod='' @ dec_int (acc_badtod a))"

section \<open>Retention\<close>

record PruneEnt =
  pe_name :: string
  pe_bytes :: int

text \<open>\<open>sscanf\<close> with \<open>pps_tod_%4d-%2d-%2d.log\<close> assigns all three numbers.\<close>

definition dated_name :: "string \<Rightarrow> bool" where
  "dated_name s \<longleftrightarrow> has_prefix ''pps_tod_'' s \<and>
     (case scan_int 4 (drop 8 s) of Some (y, a # r) \<Rightarrow> a = CHR ''-'' \<and>
        (case scan_int 2 r of Some (mo, b # q) \<Rightarrow> b = CHR ''-'' \<and> scan_int 2 q \<noteq> None | _ \<Rightarrow> False)
      | _ \<Rightarrow> False)"

text \<open>The \<open>readdir\<close> loop, with the entries found so far counted down from 512.\<close>

fun prune_collect :: "(string \<Rightarrow> file_stat option) \<Rightarrow> string \<Rightarrow> nat \<Rightarrow> string list \<Rightarrow> PruneEnt list" where
  "prune_collect st dir k [] = []"
| "prune_collect st dir 0 (x # xs) = []"
| "prune_collect st dir (Suc k) (x # xs) =
    (if \<not> dated_name x then prune_collect st dir (Suc k) xs
     else case st (snprintf_s 512 (dir @ ''/'' @ x)) of None \<Rightarrow> prune_collect st dir (Suc k) xs
       | Some a \<Rightarrow> \<lparr>pe_name = snprintf_s 64 x, pe_bytes = st_size a\<rparr> # prune_collect st dir k xs)"

text \<open>The inner loop of the sort moves entry \<open>j\<close> down by swaps.\<close>

fun sift :: "nat \<Rightarrow> PruneEnt list \<Rightarrow> PruneEnt list" where
  "sift 0 ent = ent"
| "sift (Suc j) ent = (if pe_name (ent ! j) > pe_name (ent ! Suc j)
     then sift j (ent[j := ent ! Suc j, Suc j := ent ! j]) else ent)"

definition prune_sort :: "PruneEnt list \<Rightarrow> PruneEnt list" where
  "prune_sort ent = fold sift [1..<length ent] ent"

fun prune_loop :: "(string \<Rightarrow> bool) \<Rightarrow> string \<Rightarrow> int \<Rightarrow> int \<Rightarrow> PruneEnt list \<Rightarrow> PruneEnt list" where
  "prune_loop unlink dir cap tot [] = []"
| "prune_loop unlink dir cap tot (x # xs) =
    (if tot > cap
     then if unlink (snprintf_s 512 (dir @ ''/'' @ pe_name x)) then x # prune_loop unlink dir cap (tot - pe_bytes x) xs
          else prune_loop unlink dir cap tot xs
     else [])"

definition pruned_text :: "string list \<Rightarrow> string" where
  "pruned_text names = fold (\<lambda>x acc. snprintf_s 512 (acc @ (if acc = [] then [] else '','') @ x)) names []"

text \<open>The removed entries and the message, if one is logged.\<close>

definition prune_old_logs ::
  "int \<Rightarrow> string \<Rightarrow> string list option \<Rightarrow> (string \<Rightarrow> file_stat option) \<Rightarrow> (string \<Rightarrow> bool) \<Rightarrow> PruneEnt list \<times> string option" where
  "prune_old_logs retain_mb dir listing st unlink =
    (if retain_mb \<le> 0 then ([], None)
     else case listing of None \<Rightarrow> ([], None)
     | Some names \<Rightarrow>
       let ent = prune_collect st dir 512 names in
       if length ent \<le> 1 then ([], None)
       else let ent' = prune_sort ent; del = prune_loop unlink dir (retain_mb * 1024 * 1024) (sum_list (map pe_bytes ent')) (butlast ent')
         in (del, if pruned_text (map pe_name del) = [] then None
                  else Some (''log: size cap '' @ dec_int retain_mb @ '' MB exceeded, pruned oldest: '' @ pruned_text (map pe_name del))))"

section \<open>Sorting\<close>

lemma sift_snoc:
  "sift (Suc (length zs)) (zs @ z # x # ys) =
    (if pe_name z > pe_name x then sift (length zs) (zs @ x # z # ys) else zs @ z # x # ys)"
proof -
  have "(zs @ z # x # ys) ! length zs = z" "(zs @ z # x # ys) ! Suc (length zs) = x"
    "(zs @ z # x # ys)[length zs := x, Suc (length zs) := z] = zs @ x # z # ys"
    by (simp_all add: nth_append list_update_append)
  then show ?thesis by (simp only: sift.simps)
qed

lemma sift_inserts:
  assumes "sorted (map pe_name xs)"
  shows "\<exists>us vs. sift (length xs) (xs @ x # ys) = us @ x # vs @ ys \<and> xs = us @ vs
    \<and> (\<forall>u\<in>set us. pe_name u \<le> pe_name x) \<and> (\<forall>v\<in>set vs. pe_name x < pe_name v)"
  using assms
proof (induction xs arbitrary: ys rule: rev_induct)
  case (snoc z zs)
  show ?case
  proof (cases "pe_name z > pe_name x")
    case True
    from snoc.prems have "sorted (map pe_name zs)" by (simp add: sorted_append)
    from snoc.IH [OF this, of "z # ys"] obtain us vs where
      "sift (length zs) (zs @ x # z # ys) = us @ x # vs @ z # ys" "zs = us @ vs"
      "\<forall>u\<in>set us. pe_name u \<le> pe_name x" "\<forall>v\<in>set vs. pe_name x < pe_name v" by blast
    with True have "sift (length (zs @ [z])) ((zs @ [z]) @ x # ys) = us @ x # (vs @ [z]) @ ys \<and> zs @ [z] = us @ (vs @ [z])
      \<and> (\<forall>u\<in>set us. pe_name u \<le> pe_name x) \<and> (\<forall>v\<in>set (vs @ [z]). pe_name x < pe_name v)"
      using sift_snoc [of zs z x ys] by simp
    then show ?thesis by blast
  next
    case False
    then have "sift (length (zs @ [z])) ((zs @ [z]) @ x # ys) = (zs @ [z]) @ x # [] @ ys \<and> zs @ [z] = (zs @ [z]) @ []
      \<and> (\<forall>u\<in>set (zs @ [z]). pe_name u \<le> pe_name x) \<and> (\<forall>v\<in>set []. pe_name x < pe_name v)"
      using sift_snoc [of zs z x ys] snoc.prems by (auto simp: sorted_append)
    then show ?thesis by blast
  qed
qed simp

lemma sift_sorts:
  assumes "sorted (map pe_name xs)"
  shows "\<exists>xs'. sift (length xs) (xs @ x # ys) = xs' @ ys \<and> sorted (map pe_name xs') \<and> mset xs' = mset (xs @ [x])
    \<and> length xs' = Suc (length xs)"
proof -
  obtain us vs where 1: "sift (length xs) (xs @ x # ys) = us @ x # vs @ ys" "xs = us @ vs"
    "\<forall>u\<in>set us. pe_name u \<le> pe_name x" "\<forall>v\<in>set vs. pe_name x < pe_name v"
    using sift_inserts [OF assms] by blast
  from assms 1 show ?thesis
    by (intro exI [of _ "us @ x # vs"]) (auto simp: sorted_append)
qed

lemma prune_sort_prefix:
  "k < length ent \<Longrightarrow> \<exists>xs ys. fold sift [1..<Suc k] ent = xs @ ys \<and> length xs = Suc k \<and> sorted (map pe_name xs)
    \<and> mset (xs @ ys) = mset ent"
proof (induction k)
  case 0
  then show ?case by (cases ent) (simp, rule exI [of _ "[hd ent]"], rule exI [of _ "tl ent"], simp)
next
  case (Suc k)
  then obtain xs ys where 1: "fold sift [1..<Suc k] ent = xs @ ys" "length xs = Suc k" "sorted (map pe_name xs)" "mset (xs @ ys) = mset ent" by auto
  then have "length ys \<noteq> 0" using Suc.prems mset_eq_length [OF 1(4)] by auto
  then obtain y zs where ys: "ys = y # zs" by (cases ys) auto
  obtain xs' where 2: "sift (length xs) (xs @ y # zs) = xs' @ zs" "sorted (map pe_name xs')" "mset xs' = mset (xs @ [y])"
    "length xs' = Suc (length xs)" using sift_sorts [OF 1(3)] by blast
  have "fold sift [1..<Suc (Suc k)] ent = sift (Suc k) (fold sift [1..<Suc k] ent)" by simp
  then have "fold sift [1..<Suc (Suc k)] ent = xs' @ zs" using 1 2 ys by simp
  then show ?case using 1 2 ys by (simp only:) (rule exI [of _ xs'], rule exI [of _ zs], simp)
qed

lemma prune_sort_sorts: "sorted (map pe_name (prune_sort ent)) \<and> mset (prune_sort ent) = mset ent"
proof (cases "length ent")
  case 0
  then show ?thesis by (simp add: prune_sort_def)
next
  case (Suc k)
  then obtain xs ys where 1: "fold sift [1..<Suc k] ent = xs @ ys" "length xs = Suc k" "sorted (map pe_name xs)" "mset (xs @ ys) = mset ent"
    using prune_sort_prefix [of k ent] by auto
  then have "ys = []" using Suc mset_eq_length [OF 1(4)] by simp
  with 1 Suc show ?thesis by (simp add: prune_sort_def)
qed

section \<open>Removal\<close>

abbreviation bytes_of :: "PruneEnt list \<Rightarrow> int" where
  "bytes_of es \<equiv> sum_list (map pe_bytes es)"

lemma prune_loop_prefix:
  assumes "\<And>p. unlink p"
  shows "\<exists>k\<le>length xs. prune_loop unlink dir cap (bytes_of xs + r) xs = take k xs
    \<and> (k < length xs \<longrightarrow> bytes_of (drop k xs) + r \<le> cap) \<and> (\<forall>j<k. bytes_of (drop j xs) + r > cap)"
proof (induction xs)
  case (Cons x xs)
  then obtain k where k: "k \<le> length xs" "prune_loop unlink dir cap (bytes_of xs + r) xs = take k xs"
    "k < length xs \<longrightarrow> bytes_of (drop k xs) + r \<le> cap" "\<forall>j<k. bytes_of (drop j xs) + r > cap" by blast
  show ?case
  proof (cases "bytes_of (x # xs) + r > cap")
    case True
    have u: "unlink (snprintf_s 512 (dir @ ''/'' @ pe_name x))" by (rule assms)
    have "prune_loop unlink dir cap (bytes_of (x # xs) + r) (x # xs) = x # prune_loop unlink dir cap (bytes_of xs + r) xs"
      using True u by (simp only: prune_loop.simps if_True) (simp add: algebra_simps)
    with True k show ?thesis
      by (intro exI [of _ "Suc k"]) (auto simp: less_Suc_eq_0_disj)
  qed (auto intro: exI [of _ 0])
qed simp

lemma prune_collect_dated:
  "x \<in> set (prune_collect st dir k xs) \<Longrightarrow> \<exists>n\<in>set xs. dated_name n \<and> pe_name x = snprintf_s 64 n
    \<and> (\<exists>a. st (snprintf_s 512 (dir @ ''/'' @ n)) = Some a \<and> pe_bytes x = st_size a)"
  by (induction st dir k xs rule: prune_collect.induct) (auto split: if_splits option.splits)

text \<open>C30: the retention policy.  When files can be removed, what is removed are the oldest managed
  entries in name order, one after the other while the total is above the cap, never the newest
  entry; afterwards the total fits or only the newest is left.  Only names that carry a date are
  managed.\<close>

theorem prune_effect:
  assumes "\<And>p. unlink p" and "retain_mb > 0"
  shows "\<exists>old k. sorted (map pe_name old) \<and> mset old = mset (prune_collect st dir 512 names) \<and> k \<le> length old - 1
    \<and> fst (prune_old_logs retain_mb dir (Some names) st unlink) = take k old
    \<and> (bytes_of (drop k old) \<le> retain_mb * 1048576 \<or> k = length old - 1)
    \<and> (\<forall>j<k. bytes_of (drop j old) > retain_mb * 1048576)
    \<and> (\<forall>x\<in>set old. \<exists>n\<in>set names. dated_name n \<and> pe_name x = snprintf_s 64 n)"
proof -
  define ent where "ent = prune_collect st dir 512 names"
  have dated: "x \<in> set ent \<Longrightarrow> \<exists>n\<in>set names. dated_name n \<and> pe_name x = snprintf_s 64 n" for x
    unfolding ent_def using prune_collect_dated by blast
  note srt = prune_sort_sorts [of ent]
  have sets: "set (prune_sort ent) = set ent" using srt by (metis set_mset_mset)
  show ?thesis
  proof (cases "length ent \<le> 1")
    case True
    have "length (prune_sort ent) = length ent" using srt by (metis size_mset)
    with True assms(2) srt dated sets show ?thesis
      by (intro exI [of _ "prune_sort ent"] exI [of _ 0]) (simp add: prune_old_logs_def ent_def [symmetric])
  next
    case False
    define l where "l = last (prune_sort ent)"
    define b where "b = butlast (prune_sort ent)"
    have "prune_sort ent \<noteq> []" using False srt by (metis le_numeral_extra(1) list.size(3) size_mset zero_le)
    then have old: "prune_sort ent = b @ [l]" by (simp add: b_def l_def)
    obtain k where k: "k \<le> length b" "prune_loop unlink dir (retain_mb * 1048576) (bytes_of b + pe_bytes l) b = take k b"
      "k < length b \<longrightarrow> bytes_of (drop k b) + pe_bytes l \<le> retain_mb * 1048576" "\<forall>j<k. bytes_of (drop j b) + pe_bytes l > retain_mb * 1048576"
      using prune_loop_prefix [where unlink = unlink and xs = b and r = "pe_bytes l", OF assms(1)] by blast
    have r: "fst (prune_old_logs retain_mb dir (Some names) st unlink) = take k (b @ [l])"
      using False assms(2) k old by (simp add: prune_old_logs_def ent_def [symmetric] Let_def mult.commute)
    from k r srt dated sets old show ?thesis
      by (intro exI [of _ "b @ [l]"] exI [of _ k]) (auto simp: ent_def)
  qed
qed

definition sample_names :: "string list" where
  "sample_names = [''pps_tod_2026-01-03.log'', ''watchdog.log'', ''pps_tod_2026-01-01.log.gz'', ''pps_tod_2026-01-02.log.gz'']"

theorem prune_effect_witness:
  "\<exists>old k. sorted (map pe_name old) \<and> k \<le> length old - 1
    \<and> fst (prune_old_logs 1 ''/l'' (Some sample_names) (\<lambda>p. Some \<lparr>st_reg = True, st_size = 600000, st_mtime = 0\<rparr>) (\<lambda>_. True)) = take k old
    \<and> map pe_name (take k old) = [''pps_tod_2026-01-01.log.gz'', ''pps_tod_2026-01-02.log.gz'']"
proof -
  have "map pe_name (fst (prune_old_logs 1 ''/l'' (Some sample_names) (\<lambda>p. Some \<lparr>st_reg = True, st_size = 600000, st_mtime = 0\<rparr>) (\<lambda>_. True)))
      = [''pps_tod_2026-01-01.log.gz'', ''pps_tod_2026-01-02.log.gz'']"
    by code_simp
  with prune_effect [of "\<lambda>_. True" 1 "\<lambda>p. Some \<lparr>st_reg = True, st_size = 600000, st_mtime = 0\<rparr>" "''/l''" sample_names]
  show ?thesis by (metis zero_less_one)
qed

section \<open>The summary\<close>

lemma div_between: "0 < n \<Longrightarrow> n * a \<le> s \<Longrightarrow> s \<le> n * b \<Longrightarrow> a \<le> s div n \<and> s div n \<le> b" for n :: int
  using zdiv_mono1 [of "n * a" s n] zdiv_mono1 [of s "n * b" n] by simp

lemma cdiv_between: "0 < n \<Longrightarrow> n * a \<le> s \<Longrightarrow> s \<le> n * b \<Longrightarrow> a \<le> cdiv s n \<and> cdiv s n \<le> b"
  using div_between [of n a s b] div_between [of n "- b" "- s" "- a"] by (auto simp: cdiv_def)

lemma acc_samples:
  assumes "xs \<noteq> []"
  shows "acc_n (fold acc_sample xs acc_zero) = int (length xs) \<and> acc_off_sum_us (fold acc_sample xs acc_zero) = sum_list xs
    \<and> acc_off_min_us (fold acc_sample xs acc_zero) = Min (set xs) \<and> acc_off_max_us (fold acc_sample xs acc_zero) = Max (set xs)"
  using assms
proof (induction xs rule: rev_induct)
  case (snoc x xs)
  show ?case
  proof (cases "xs = []")
    case True
    then show ?thesis by (simp add: acc_sample_def acc_zero_def)
  next
    case False
    define a where "a = fold acc_sample xs acc_zero"
    have a: "acc_n a = int (length xs)" "acc_off_sum_us a = sum_list xs" "acc_off_min_us a = Min (set xs)" "acc_off_max_us a = Max (set xs)"
      using snoc.IH [OF False] by (simp_all add: a_def)
    have f: "fold acc_sample (xs @ [x]) acc_zero = acc_sample x a" by (simp add: a_def)
    have "Min (set (xs @ [x])) = min x (acc_off_min_us a)" "Max (set (xs @ [x])) = max x (acc_off_max_us a)"
      "sum_list (xs @ [x]) = acc_off_sum_us a + x" "int (length (xs @ [x])) = acc_n a + 1" "acc_n a \<noteq> 0" using False a by simp_all
    then show ?thesis unfolding f by (simp only: acc_sample_def accum.simps accum.select_convs min_def max_def) auto
  qed
qed simp

text \<open>The summary of a window is that of its samples: their number, least and greatest offset and
  truncated mean, which lies between the two; the window then starts again from zero.\<close>

theorem summary_of_samples:
  assumes "xs \<noteq> []"
  shows "acc_n (fold acc_sample xs acc_zero) = int (length xs)
    \<and> acc_off_min_us (fold acc_sample xs acc_zero) = Min (set xs) \<and> acc_off_max_us (fold acc_sample xs acc_zero) = Max (set xs)
    \<and> acc_avg (fold acc_sample xs acc_zero) = cdiv (sum_list xs) (int (length xs))
    \<and> Min (set xs) \<le> acc_avg (fold acc_sample xs acc_zero) \<and> acc_avg (fold acc_sample xs acc_zero) \<le> Max (set xs)
    \<and> fst (emit_summary w t (fold acc_sample xs acc_zero)) = acc_zero"
proof -
  have "int (length xs) * Min (set xs) \<le> sum_list xs" "sum_list xs \<le> int (length xs) * Max (set xs)"
    using sum_list_mono [of xs "\<lambda>_. Min (set xs)" "\<lambda>x. x"] sum_list_mono [of xs "\<lambda>x. x" "\<lambda>_. Max (set xs)"]
    by (simp_all add: sum_list_triv)
  then have "Min (set xs) \<le> cdiv (sum_list xs) (int (length xs)) \<and> cdiv (sum_list xs) (int (length xs)) \<le> Max (set xs)"
    using assms by (intro cdiv_between) auto
  with acc_samples [OF assms] assms show ?thesis by (simp add: acc_avg_def emit_summary_def)
qed

theorem summary_of_samples_witness:
  "acc_avg (fold acc_sample [-3, 5, -4] acc_zero) = 0 \<and> acc_off_min_us (fold acc_sample [-3, 5, -4] acc_zero) = Min {-3, 5, -4}"
  using summary_of_samples [of "[-3, 5, -4]"] by (simp add: cdiv_def insert_commute)

section \<open>Rollover\<close>

definition day_file :: "string \<Rightarrow> int \<Rightarrow> string" where
  "day_file dir d = day_path dir (d div 10000) (d div 100 mod 100) (d mod 100)"

definition log_ok :: "logger \<Rightarrow> bool" where
  "log_ok lg \<longleftrightarrow> (lg_roll lg \<longrightarrow> lg_fp lg = None \<or> lg_fp lg = Some (day_file (lg_dir lg) (lg_day lg)))"

definition tm_ok :: "tm \<Rightarrow> bool" where
  "tm_ok t \<longleftrightarrow> 0 \<le> tm_mon t \<and> tm_mon t \<le> 11 \<and> 1 \<le> tm_mday t \<and> tm_mday t \<le> 31"

lemma day_file_num:
  assumes "tm_ok t"
  shows "day_file dir (day_num t) = day_path dir (tm_year t + 1900) (tm_mon t + 1) (tm_mday t)"
proof -
  define y m d where "y = tm_year t + 1900" and "m = tm_mon t + 1" and "d = tm_mday t"
  have b: "0 \<le> m" "m < 100" "0 \<le> d" "d < 100" using assms by (simp_all add: tm_ok_def m_def d_def)
  define k where "k = m + 100 * y"
  have n: "day_num t = d + 100 * k" by (simp add: day_num_def y_def m_def d_def k_def)
  have 1: "day_num t mod 100 = d" "day_num t div 100 = k" unfolding n using b by simp_all
  have "day_num t div 10000 = day_num t div 100 div 100" using zdiv_zmult2_eq [of 100 "day_num t" 100] by simp
  moreover have "k mod 100 = m" "k div 100 = y" unfolding k_def using b by simp_all
  ultimately have "day_num t div 10000 = y" "day_num t div 100 mod 100 = m" using 1 by simp_all
  with 1 show ?thesis by (simp add: day_file_def y_def m_def d_def)
qed

lemma log_open_ok:
  assumes "tm_ok (ltime now)" "log_ok lg" "log_open ltime openable now lg = (lg', acts)"
  shows "log_ok lg' \<and> lg_roll lg' = lg_roll lg \<and> lg_dir lg' = lg_dir lg
    \<and> (lg_roll lg \<longrightarrow> lg_day lg' = day_num (ltime now)) \<and> (\<forall>q l. Append q l \<notin> set acts)
    \<and> (\<forall>p. Gzip p \<in> set acts \<longrightarrow> lg_roll lg \<and> lg_fp lg = Some p \<and> lg_day lg' \<noteq> lg_day lg)"
proof -
  have lg': "lg_roll lg' = lg_roll lg" "lg_dir lg' = lg_dir lg" "lg_day lg' = day_num (ltime now)"
    "lg_roll lg \<Longrightarrow> lg_fp lg' = None \<or> lg_fp lg' = Some (day_file (lg_dir lg) (day_num (ltime now)))"
    using assms(1,3) by (auto simp: log_open_def Let_def day_file_num)
  have "set acts \<subseteq> {Mkdir (lg_dir lg)} \<union>
      (if lg_roll lg \<and> lg_fp lg \<noteq> None \<and> day_num (ltime now) \<noteq> lg_day lg then {Gzip (day_file (lg_dir lg) (lg_day lg))} else {})"
    using assms(3) by (auto simp: log_open_def Let_def day_file_def split: if_splits)
  then show ?thesis using assms(2) lg' unfolding log_ok_def by (fastforce split: if_splits)
qed

text \<open>The daily rollover.  Logging a message keeps the open file that of the recorded day; a file
  is compressed only when it is the one being left because the day changed, and the message is
  appended to the file of a day the clock showed during the call.\<close>

theorem rollover_seals_left_file:
  assumes "\<And>x. tm_ok (ltime x)" "log_ok lg" "lg_roll lg" "logmsg ltime openable wall msg lg = (lg', acts)"
  shows "log_ok lg'
    \<and> (\<forall>p. Gzip p \<in> set acts \<longrightarrow> lg_fp lg = Some p \<and> lg_day lg' \<noteq> lg_day lg)
    \<and> (\<forall>q l. Append q l \<in> set acts \<longrightarrow> lg_fp lg' = Some q
        \<and> (q = day_file (lg_dir lg) (day_num (ltime (wall 1))) \<or> q = day_file (lg_dir lg) (day_num (ltime (wall 2)))))"
proof (cases "lg_fp lg = None \<or> day_num (ltime (wall 1)) \<noteq> lg_day lg")
  case True
  obtain lg1 a where o1: "log_open ltime openable (wall 2) lg = (lg1, a)" by (metis surj_pair)
  note k = log_open_ok [OF assms(1,2) o1]
  have l: "lg' = lg1" using assms(3,4) True o1 by (auto simp: logmsg_def Let_def)
  have "set acts \<subseteq> set a \<union> {x. \<exists>q l. x = Append q l \<and> lg_fp lg1 = Some q} \<union> range Print"
    using assms(3,4) True o1 by (cases "lg_fp lg1") (auto simp: logmsg_def Let_def)
  then have g: "Gzip p \<in> set acts \<Longrightarrow> Gzip p \<in> set a" and ap: "Append q t \<in> set acts \<Longrightarrow> Append q t \<in> set a \<or> lg_fp lg1 = Some q" for p q t by auto
  have "Append q t \<in> set acts \<Longrightarrow> lg_fp lg1 = Some q" for q t using k ap by blast
  moreover have "lg_fp lg1 = Some q \<Longrightarrow> q = day_file (lg_dir lg) (day_num (ltime (wall 2)))" for q
    using k assms(3) by (simp add: log_ok_def)
  ultimately show ?thesis unfolding l using k g by blast
next
  case False
  then have l: "lg' = lg" using assms(3,4) by (auto simp: logmsg_def Let_def)
  have "set acts \<subseteq> {x. \<exists>q l. x = Append q l \<and> lg_fp lg = Some q} \<union> range Print"
    using assms(3,4) False by (cases "lg_fp lg") (auto simp: logmsg_def Let_def)
  then have "Append q t \<in> set acts \<Longrightarrow> lg_fp lg = Some q" "Gzip p \<notin> set acts" for p q t by auto
  moreover have "lg_fp lg = Some q \<Longrightarrow> q = day_file (lg_dir lg) (day_num (ltime (wall 1)))" for q
    using False assms(2,3) by (simp add: log_ok_def)
  ultimately show ?thesis unfolding l using assms(2) by simp
qed

definition sample_tm :: "int \<Rightarrow> tm" where
  "sample_tm x = (if x < 100 then \<lparr>tm_year = 126, tm_mon = 0, tm_mday = 31, tm_hour = 23, tm_min = 59, tm_sec = 59\<rparr>
     else \<lparr>tm_year = 126, tm_mon = 1, tm_mday = 1, tm_hour = 0, tm_min = 0, tm_sec = 0\<rparr>)"

definition sample_logger :: logger where
  "sample_logger = \<lparr>lg_dir = ''/var/log/pps_tod'', lg_file = [], lg_fp = Some (day_file ''/var/log/pps_tod'' 20260131),
     lg_day = 20260131, lg_roll = True, lg_dir_done = True\<rparr>"

theorem rollover_seals_left_file_witness:
  "\<exists>lg' acts. logmsg sample_tm (\<lambda>_. True) (\<lambda>k. 99 + int k) ''x'' sample_logger = (lg', acts)
    \<and> Gzip (day_file ''/var/log/pps_tod'' 20260131) \<in> set acts \<and> log_ok lg'"
proof -
  obtain lg' acts where r: "logmsg sample_tm (\<lambda>_. True) (\<lambda>k. 99 + int k) ''x'' sample_logger = (lg', acts)" by (metis surj_pair)
  have "log_ok lg'"
    using rollover_seals_left_file [OF _ _ _ r] by (auto simp: tm_ok_def sample_tm_def log_ok_def sample_logger_def)
  moreover have "Gzip (day_file ''/var/log/pps_tod'' 20260131) \<in> set acts"
    using r by (auto simp: logmsg_def log_open_def Let_def sample_logger_def sample_tm_def day_num_def day_file_def)
  ultimately show ?thesis using r by blast
qed

end
