(* ===== verification/PpsTod.thy ===== *)
theory PpsTod
  imports Nmea PpsLog "HOL-Library.Monad_Syntax"
begin

text \<open>
  The time daemon \<open>pps_tod/pps_tod.c\<close>: pairing of pulse edges with the seconds of the receiver,
  samples for chrony in shared memory, the coarse clock step, the status file and the two threads.
  A section of code that holds \<open>pair_mutex\<close> is one step, and so is the status frame; a thread that asks
  for the mutex while it is held gets no result (\<open>None\<close>).  The mutexes of the log and of its counters are
  always taken last and are left out.  Clock readings are an argument: the \<open>k\<close>-th reading of the
  monotonic clock in a section is \<open>mono ck k\<close>, and so on.  Times are unbounded integers; the code's
  64-bit values hold nanoseconds up to the year 2262.
\<close>

section \<open>Clocks, configuration, messages\<close>

record clocks =
  mono :: "nat \<Rightarrow> int"
  real_ns :: "nat \<Rightarrow> int"
  mraw :: "nat \<Rightarrow> int"
  wall :: "nat \<Rightarrow> int"

definition later :: "nat \<Rightarrow> clocks \<Rightarrow> clocks" where
  "later n ck = \<lparr>mono = (\<lambda>k. mono ck (n + k)), real_ns = (\<lambda>k. real_ns ck (n + k)),
     mraw = (\<lambda>k. mraw ck (n + k)), wall = (\<lambda>k. wall ck (n + k))\<rparr>"

record cfg =
  gpio_chip :: int
  gpio_line :: int
  edge_flags :: int
  tod_dev :: string
  tod_baud :: int
  shm_unit :: int
  logfile :: string
  log_roll :: bool
  status_path :: string
  status_enabled :: bool
  coarse_enabled :: bool
  mode_ntp :: bool
  daemonize :: bool
  log_interval :: int
  retain_mb :: int
  strike_max :: int
  reset_max :: int

definition cfg_default :: cfg where
  "cfg_default = \<lparr>gpio_chip = 3, gpio_line = 5, edge_flags = 1, tod_dev = ''/dev/ttyS3'', tod_baud = 9600, shm_unit = 0,
     logfile = ''/var/log/pps_tod/pps_tod_YYYY-MM-DD.log'', log_roll = True, status_path = ''/run/pps_tod/status'',
     status_enabled = True, coarse_enabled = True, mode_ntp = False, daemonize = True, log_interval = 60, retain_mb = 100,
     strike_max = 10, reset_max = 6\<rparr>"

definition edge_delta :: int where
  "edge_delta = 1"

definition logdir :: string where
  "logdir = ''/var/log/pps_tod''"

text \<open>The messages, one constructor per format string.\<close>

datatype event = LogGated int int | LogSample int int int | LogPhaseLag | LogAnchor int string | LogQuota int
  | LogStep bool int int int int | LogIdle bool | LogTsClock bool | LogOverride int int | LogStat string | LogPrune string

section \<open>Shared memory\<close>

record shm_time =
  shm_mode :: int
  shm_count :: int
  clock_sec :: int
  clock_usec :: int
  recv_sec :: int
  recv_usec :: int
  shm_leap :: int
  shm_precision :: int
  shm_nsamples :: int
  shm_valid :: int
  clock_nsec :: int
  recv_nsec :: int

definition shm_zero :: shm_time where
  "shm_zero = \<lparr>shm_mode = 1, shm_count = 0, clock_sec = 0, clock_usec = 0, recv_sec = 0, recv_usec = 0, shm_leap = 0,
     shm_precision = 0, shm_nsamples = 0, shm_valid = 0, clock_nsec = 0, recv_nsec = 0\<rparr>"

text \<open>The stores, in program order.\<close>

definition shm_stores :: "int \<Rightarrow> int \<Rightarrow> int \<Rightarrow> int \<Rightarrow> (shm_time \<Rightarrow> shm_time) list" where
  "shm_stores rsec rnsec csec cnsec =
    [\<lambda>m. m\<lparr>shm_valid := 0\<rparr>, \<lambda>m. m\<lparr>shm_count := shm_count m + 1\<rparr>,
     \<lambda>m. m\<lparr>clock_sec := csec\<rparr>, \<lambda>m. m\<lparr>clock_usec := cdiv cnsec 1000\<rparr>, \<lambda>m. m\<lparr>clock_nsec := cnsec\<rparr>,
     \<lambda>m. m\<lparr>recv_sec := rsec\<rparr>, \<lambda>m. m\<lparr>recv_usec := cdiv rnsec 1000\<rparr>, \<lambda>m. m\<lparr>recv_nsec := rnsec\<rparr>,
     \<lambda>m. m\<lparr>shm_leap := 0\<rparr>, \<lambda>m. m\<lparr>shm_precision := -20\<rparr>, \<lambda>m. m\<lparr>shm_nsamples := 0\<rparr>,
     \<lambda>m. m\<lparr>shm_count := shm_count m + 1\<rparr>, \<lambda>m. m\<lparr>shm_valid := 1\<rparr>]"

definition run_stores :: "(shm_time \<Rightarrow> shm_time) list \<Rightarrow> shm_time \<Rightarrow> shm_time" where
  "run_stores fs m = fold (\<lambda>f x. f x) fs m"

definition shm_write :: "int \<Rightarrow> int \<Rightarrow> int \<Rightarrow> int \<Rightarrow> shm_time \<Rightarrow> shm_time" where
  "shm_write rsec rnsec csec cnsec m = run_stores (shm_stores rsec rnsec csec cnsec) m"

section \<open>State\<close>

text \<open>\<open>steps\<close> are the calls of \<open>clock_settime\<close> (whose result the code ignores), newest first: the
  monotonic reading before each, its seconds and nanoseconds;
  \<open>msgs\<close> the messages logged, \<open>status_file\<close> what was last renamed to the status path,
  \<open>removed\<close> the log files removed.\<close>

record pps =
  anchor_valid :: bool
  anchor_S :: int
  anchor_mono :: int
  edge_count :: int
  pending :: "int list"
  ts_is_realtime :: int
  strike :: int
  strike_sign :: int
  forced_resets :: int
  forced_window_mono :: int
  reset_capped :: bool
  capped_log_mono :: int
  anchor_seq :: int
  anchor_prev_S :: int
  last_sample_mono :: int
  last_nudge_mono :: int
  last_off_us :: int
  last_off_mono :: int
  last_status_mono :: int
  last_summary_mono :: int
  last_print :: int
  last_prune_day :: int
  prev_rt_ns :: int
  prev_mraw_ns :: int
  sec_gated :: int
  sec_noedge :: int
  sec_noanchor :: int
  sec_badtod :: int
  acc :: accum
  shm :: shm_time
  rx :: rx_state
  pair_locked :: bool
  steps :: "(int \<times> int \<times> int) list"
  msgs :: "event list"
  status_file :: "string option"
  removed :: "string list"

definition say :: "event \<Rightarrow> pps \<Rightarrow> pps" where
  "say ev st = st\<lparr>msgs := msgs st @ [ev]\<rparr>"

definition pps_init :: "clocks \<Rightarrow> pps" where
  "pps_init ck = \<lparr>anchor_valid = False, anchor_S = 0, anchor_mono = 0, edge_count = 0, pending = [], ts_is_realtime = -1,
     strike = 0, strike_sign = 0, forced_resets = 0, forced_window_mono = 0, reset_capped = False, capped_log_mono = 0,
     anchor_seq = 0, anchor_prev_S = 0, last_sample_mono = 0, last_nudge_mono = mono ck 0 - 10000000000, last_off_us = 0,
     last_off_mono = 0, last_status_mono = 0, last_summary_mono = mono ck 1, last_print = 0, last_prune_day = 0,
     prev_rt_ns = 0, prev_mraw_ns = 0, sec_gated = 0, sec_noedge = 0, sec_noanchor = 0, sec_badtod = 0, acc = acc_zero,
     shm = shm_zero, rx = rx_init, pair_locked = False, steps = [], msgs = [], status_file = None, removed = []\<rparr>"

section \<open>Samples\<close>

definition edge_realtime :: "clocks \<Rightarrow> int \<Rightarrow> pps \<Rightarrow> int" where
  "edge_realtime ck ev_ts st = (if ts_is_realtime st \<noteq> 1 then ev_ts + (real_ns ck 0 - mono ck 0) else ev_ts)"

definition off_is_onesec :: "int \<Rightarrow> bool" where
  "off_is_onesec off_ns \<longleftrightarrow> \<bar>off_ns\<bar> > 650000000 \<and> \<bar>off_ns\<bar> < 1350000000"

definition gate_sample :: "int \<Rightarrow> pps \<Rightarrow> pps" where
  "gate_sample off st = (let sg = (if off > 0 then 1 else -1); base = (if strike_sign st \<noteq> 0 \<and> sg \<noteq> strike_sign st then 0 else strike st)
     in say (LogGated off (base + 1)) (st\<lparr>sec_gated := sec_gated st + 1, strike_sign := sg, strike := base + 1\<rparr>))"

definition pass_sample :: "cfg \<Rightarrow> int \<Rightarrow> int \<Rightarrow> int \<Rightarrow> int \<Rightarrow> pps \<Rightarrow> pps" where
  "pass_sample c now_m S rt_e off st =
    (let st1 = st\<lparr>strike := 0, strike_sign := 0, shm := shm_write (cdiv rt_e 1000000000) (cmod rt_e 1000000000) S 0 (shm st),
                  last_sample_mono := now_m\<rparr>
     in if log_interval c = 0 then say (LogSample S rt_e off) st1 else st1\<lparr>acc := acc_sample (last_off_us st1) (acc st1)\<rparr>)"

definition emit_sample :: "cfg \<Rightarrow> clocks \<Rightarrow> int \<Rightarrow> int \<Rightarrow> pps \<Rightarrow> pps" where
  "emit_sample c ck S e_mono st =
    (let rt_e = (if ts_is_realtime st = 1 then e_mono else e_mono + (real_ns ck 0 - mono ck 0));
         off = S * 1000000000 - rt_e;
         st1 = st\<lparr>last_off_us := cdiv off 1000, last_off_mono := mono ck 1\<rparr>
     in if \<bar>off\<bar> > 500000000 then gate_sample off st1 else pass_sample c (mono ck 2) S rt_e off st1)"

section \<open>The serial thread\<close>

text \<open>The pending edge just before the sentence.\<close>

fun best_edge :: "int \<Rightarrow> int list \<Rightarrow> int option \<Rightarrow> int option" where
  "best_edge am [] best = best"
| "best_edge am (e # es) best =
    (if e > am then best_edge am es best
     else if am - e > 1000000000 then best_edge am es best
     else best_edge am es (case best of None \<Rightarrow> Some e | Some b \<Rightarrow> if e > b then Some e else Some b))"

definition anchor_section :: "cfg \<Rightarrow> clocks \<Rightarrow> int \<Rightarrow> string \<Rightarrow> pps \<Rightarrow> pps" where
  "anchor_section c ck S line st =
    (let am = mono ck 0;
         seq = (if anchor_prev_S st \<noteq> 0 \<and> S = anchor_prev_S st + 1
                then if anchor_seq st < 1000000 then anchor_seq st + 1 else anchor_seq st else 1);
         best = best_edge am (pending st) None;
         st1 = st\<lparr>anchor_S := S, anchor_mono := am, anchor_valid := True, anchor_seq := seq, anchor_prev_S := S, pending := []\<rparr>;
         st2 = (case best of None \<Rightarrow> st1
           | Some e \<Rightarrow> let off = S * 1000000000 - edge_realtime (later 1 ck) e st1
               in emit_sample c (later 2 ck) S e (if off_is_onesec off then say LogPhaseLag st1 else st1));
         st3 = st2\<lparr>edge_count := 0\<rparr>
     in if log_interval c = 0 then say (LogAnchor S line) st3 else st3\<lparr>acc := (acc st3)\<lparr>acc_tod_n := acc_tod_n (acc st3) + 1\<rparr>\<rparr>)"

definition handle_line :: "cfg \<Rightarrow> clocks \<Rightarrow> string \<Rightarrow> pps \<Rightarrow> pps option" where
  "handle_line c ck raw_line st =
    (let line = cstr raw_line in case parse_line (mono ck) line (rx st) of (rx', bad, S) \<Rightarrow>
       let st1 = st\<lparr>rx := rx', sec_badtod := sec_badtod st + (if bad then 1 else 0)\<rparr>
       in if S > 0 then if pair_locked st then None else Some (anchor_section c (later 6 ck) S line st1) else Some st1)"

text \<open>One received byte: the line so far and the state.\<close>

definition serial_byte :: "cfg \<Rightarrow> clocks \<Rightarrow> char \<Rightarrow> string \<times> pps \<Rightarrow> (string \<times> pps) option" where
  "serial_byte c ck b x = (case x of (line, st) \<Rightarrow>
     if b = CHR 0x0A \<or> b = CHR 0x0D
     then if line \<noteq> [] then map_option (Pair []) (handle_line c ck line st) else Some (line, st)
     else Some (if length line < 255 then line @ [b] else [], st))"

fun serial_bytes :: "cfg \<Rightarrow> (nat \<Rightarrow> clocks) \<Rightarrow> string \<Rightarrow> string \<times> pps \<Rightarrow> (string \<times> pps) option" where
  "serial_bytes c cks [] x = Some x"
| "serial_bytes c cks (b # rest) x = do { y \<leftarrow> serial_byte c (cks 0) b x; serial_bytes c (\<lambda>i. cks (Suc i)) rest y }"

section \<open>The coarse step\<close>

definition coarse_fresh :: "clocks \<Rightarrow> pps \<Rightarrow> bool" where
  "coarse_fresh ck st \<longleftrightarrow> anchor_valid st \<and> mono ck 0 - anchor_mono st < 3000000000"

definition coarse_meas :: "clocks \<Rightarrow> pps \<Rightarrow> bool" where
  "coarse_meas ck st \<longleftrightarrow> mono ck 1 - last_off_mono st < 3000000000"

definition coarse_off :: "clocks \<Rightarrow> pps \<Rightarrow> int" where
  "coarse_off ck st = (if coarse_meas ck st then last_off_us st * 1000 else 0)"

definition coarse_urgent :: "bool \<Rightarrow> clocks \<Rightarrow> pps \<Rightarrow> bool" where
  "coarse_urgent fresh ck st \<longleftrightarrow> fresh \<and> coarse_meas ck st \<and> \<bar>coarse_off ck st\<bar> > 1000000000"

definition coarse_stuck :: "cfg \<Rightarrow> bool \<Rightarrow> clocks \<Rightarrow> pps \<Rightarrow> bool" where
  "coarse_stuck c fresh ck st \<longleftrightarrow> fresh \<and> coarse_meas ck st \<and> strike st \<ge> strike_max c"

definition coarse_due :: "cfg \<Rightarrow> bool \<Rightarrow> int \<Rightarrow> clocks \<Rightarrow> pps \<Rightarrow> bool" where
  "coarse_due c fresh seq ck st \<longleftrightarrow> seq \<ge> 3 \<and> (coarse_urgent fresh ck st \<or> coarse_stuck c fresh ck st)
     \<and> mono ck 2 - last_nudge_mono st > 10000000000"

definition quota_window :: "clocks \<Rightarrow> pps \<Rightarrow> pps" where
  "quota_window ck st = (if mono ck 3 - forced_window_mono st \<ge> 3600000000000
     then st\<lparr>forced_window_mono := mono ck 4, forced_resets := 0, reset_capped := False\<rparr> else st)"

definition quota_reached :: "cfg \<Rightarrow> clocks \<Rightarrow> pps \<Rightarrow> pps" where
  "quota_reached c ck st = (if \<not> reset_capped st \<or> mono ck 6 - capped_log_mono st > 3600000000000
     then say (LogQuota (reset_max c)) (st\<lparr>reset_capped := True, capped_log_mono := mono ck 7\<rparr>) else st)"

definition clock_step :: "bool \<Rightarrow> int \<Rightarrow> int \<Rightarrow> pps \<Rightarrow> pps" where
  "clock_step urgent off seq st = (let sec = anchor_S st + edge_delta - 1 in
     say (LogStep urgent off seq sec (forced_resets st + 1))
       (st\<lparr>steps := (last_nudge_mono st, sec, 0) # steps st, forced_resets := forced_resets st + 1, strike := 0\<rparr>))"

text \<open>The thread takes the mutex twice: to read the anchor, and to read the second to set.  Between the
  two, and between the first and the decision, the serial thread may handle sentences.  \<open>coarse_decide\<close>
  is the code without the mutex; it yields the offset and its urgency when the clock is to be set.\<close>

definition coarse_read :: "clocks \<Rightarrow> pps \<Rightarrow> bool \<times> int" where
  "coarse_read ck st = (coarse_fresh ck st, anchor_seq st)"

definition coarse_decide :: "cfg \<Rightarrow> bool \<times> int \<Rightarrow> clocks \<Rightarrow> pps \<Rightarrow> pps \<times> (bool \<times> int) option" where
  "coarse_decide c r ck st = (case r of (fresh, seq) \<Rightarrow>
     if coarse_due c fresh seq ck st
     then let st2 = (quota_window ck st)\<lparr>last_nudge_mono := mono ck 5\<rparr>
       in if forced_resets st2 \<ge> reset_max c then (quota_reached c ck st2, None)
          else (st2, Some (coarse_urgent fresh ck st, coarse_off ck st))
     else (st, None))"

definition coarse_commit :: "int \<Rightarrow> (bool \<times> int) option \<Rightarrow> pps \<Rightarrow> pps" where
  "coarse_commit seq d st = (case d of None \<Rightarrow> st | Some (urgent, off) \<Rightarrow> clock_step urgent off seq st)"

text \<open>The pass without a sentence in between.\<close>

definition coarse_section :: "cfg \<Rightarrow> clocks \<Rightarrow> pps \<Rightarrow> pps" where
  "coarse_section c ck st = (case coarse_decide c (coarse_read ck st) ck st of (st2, d) \<Rightarrow> coarse_commit (anchor_seq st) d st2)"

section \<open>The status file\<close>

definition kv :: "string \<Rightarrow> string \<Rightarrow> string" where
  "kv k v = k @ ''='' @ v @ [CHR 0x0A]"

definition age_s :: "int \<Rightarrow> int \<Rightarrow> int" where
  "age_s now_m since = (if since \<noteq> 0 then cdiv (now_m - since) 1000000000 else -1)"

definition clock_diag :: "int \<Rightarrow> int \<Rightarrow> pps \<Rightarrow> int" where
  "clock_diag rt_now mraw_now st = (if prev_rt_ns st \<noteq> 0
     then cdiv ((rt_now - prev_rt_ns st) - (mraw_now - prev_mraw_ns st)) 1000 else 0)"

text \<open>The lines of the first \<open>snprintf\<close>, then those of the constellations.\<close>

definition status_head :: "tm \<Rightarrow> int \<Rightarrow> int \<Rightarrow> bool \<Rightarrow> pps \<Rightarrow> (string \<times> string) list" where
  "status_head t now_m diag fresh st = (let age = age_s now_m (last_sample_mono st) in
    [(''ts'', fmt_0d 4 (tm_year t + 1900) @ ''-'' @ fmt_0d 2 (tm_mon t + 1) @ ''-'' @ fmt_0d 2 (tm_mday t) @ '' ''
        @ fmt_0d 2 (tm_hour t) @ '':'' @ fmt_0d 2 (tm_min t) @ '':'' @ fmt_0d 2 (tm_sec t)),
     (''good'', dec_int (if age \<ge> 0 \<and> age \<le> 3 then 1 else 0)),
     (''last_good_age_s'', dec_int age),
     (''offset_us'', dec_int (last_off_us st)),
     (''anchor_fresh'', dec_int (if fresh then 1 else 0)),
     (''sec_gated'', dec_int (sec_gated st)),
     (''sec_noedge'', dec_int (sec_noedge st)),
     (''sec_noanchor'', dec_int (sec_noanchor st)),
     (''sec_badtod'', dec_int (sec_badtod st)),
     (''rt_vs_mono_us'', dec_int diag),
     (''anchor_seq'', dec_int (anchor_seq st)),
     (''consec_gated'', dec_int (strike st)),
     (''forced_resets'', dec_int (forced_resets st)),
     (''reset_state'', if reset_capped st then ''CAPPED'' else ''OK''),
     (''fix'', dec_int (g_rx_fix (rx st))),
     (''sats'', dec_int (g_rx_sats (rx st))),
     (''sats_age_s'', dec_int (age_s now_m (g_gga_mono (rx st))))])"

definition sats_of :: "int \<Rightarrow> constel \<Rightarrow> pps \<Rightarrow> int" where
  "sats_of now_m k st = (if g_gsa_mono (rx st) k \<noteq> 0 \<and> now_m - g_gsa_mono (rx st) k < 3000000000 then g_sats (rx st) k else -1)"

definition status_sats :: "int \<Rightarrow> pps \<Rightarrow> (string \<times> string) list" where
  "status_sats now_m st =
    [(''sats_gps'', dec_int (sats_of now_m GPS st)), (''sats_bds'', dec_int (sats_of now_m BDS st)),
     (''sats_glo'', dec_int (sats_of now_m GLO st)), (''sats_gal'', dec_int (sats_of now_m GAL st)),
     (''sats_qzss'', dec_int (sats_of now_m QZSS st)), (''sats_sbas'', dec_int (sats_of now_m SBAS st))]"

text \<open>Text before the write position, what a truncated line left after it, and the room left.  A head
  of 640 bytes would leave the buffer: \<open>None\<close>.\<close>

definition status_append :: "string \<times> string \<Rightarrow> string \<times> string \<times> nat \<Rightarrow> string \<times> string \<times> nat" where
  "status_append x b = (case b of (txt, rest, left) \<Rightarrow> let s = kv (fst x) (snd x) in
     if length s < left then (txt @ s, [], left - length s) else (txt, snprintf_s left s, left))"

definition status_text :: "(string \<times> string) list \<Rightarrow> (string \<times> string) list \<Rightarrow> string option" where
  "status_text hd_lines sats = (let s = concat (map (\<lambda>(k, v). kv k v) hd_lines) in
     if length s \<ge> 640 then None
     else (case fold status_append sats (s, [], 640 - length s) of (txt, rest, left) \<Rightarrow> Some (txt @ rest)))"

text \<open>Whether the temporary file could be opened is a parameter.\<close>

definition status_update :: "(int \<Rightarrow> tm) \<Rightarrow> (string \<Rightarrow> bool) \<Rightarrow> cfg \<Rightarrow> clocks \<Rightarrow> pps \<Rightarrow> pps option" where
  "status_update ltime openable c ck st =
    (if \<not> status_enabled c then Some st
     else if pair_locked st then None
     else let now_m = mono ck 0; rt_now = real_ns ck 0; mraw_now = mraw ck 0; diag = clock_diag rt_now mraw_now st;
         fresh = (anchor_valid st \<and> now_m - anchor_mono st < 3000000000);
         st1 = st\<lparr>prev_rt_ns := rt_now, prev_mraw_ns := mraw_now\<rparr>;
         txt = status_text (status_head (ltime (wall ck 0)) now_m diag fresh st1) (status_sats now_m st1);
         st2 = (if openable (snprintf_s 160 (status_path c @ ''.tmp'')) then st1\<lparr>status_file := txt\<rparr> else st1);
         a = acc st2;
         st3 = (if log_interval c > 0
               then st2\<lparr>acc := a\<lparr>acc_gated := acc_gated a + sec_gated st2, acc_noedge := acc_noedge a + sec_noedge st2,
                   acc_noanchor := acc_noanchor a + sec_noanchor st2, acc_badtod := acc_badtod a + sec_badtod st2\<rparr>\<rparr> else st2)
       in Some (st3\<lparr>sec_gated := 0, sec_noedge := 0, sec_noanchor := 0, sec_badtod := 0\<rparr>))"

section \<open>The GPIO thread\<close>

record fs_env =
  fs_ltime :: "int \<Rightarrow> tm"
  fs_openable :: "string \<Rightarrow> bool"
  fs_listing :: "string list option"
  fs_stat :: "string \<Rightarrow> file_stat option"
  fs_unlink :: "string \<Rightarrow> bool"

definition summary_due :: "fs_env \<Rightarrow> cfg \<Rightarrow> clocks \<Rightarrow> pps \<Rightarrow> pps" where
  "summary_due w c ck st = (if log_interval c > 0 \<and> mono ck 0 - last_summary_mono st \<ge> log_interval c * 1000000000
     then (case emit_summary (log_interval c) (fs_ltime w (wall ck 0)) (acc st) of (a, line) \<Rightarrow>
       say (LogStat line) (st\<lparr>last_summary_mono := mono ck 1, acc := a\<rparr>))
     else st)"

definition prune_due :: "fs_env \<Rightarrow> cfg \<Rightarrow> clocks \<Rightarrow> pps \<Rightarrow> pps" where
  "prune_due w c ck st = (let today = day_num (fs_ltime w (wall ck 0)) in
     if last_prune_day st \<noteq> today
     then (case prune_old_logs (retain_mb c) logdir (fs_listing w) (fs_stat w) (fs_unlink w) of (del, msg) \<Rightarrow>
       let st1 = st\<lparr>last_prune_day := today, removed := removed st @ map pe_name del\<rparr> in
       case msg of None \<Rightarrow> st1 | Some line \<Rightarrow> say (LogPrune line) st1)
     else st)"

definition tick_section :: "fs_env \<Rightarrow> cfg \<Rightarrow> clocks \<Rightarrow> pps \<Rightarrow> pps option" where
  "tick_section w c ck st =
    (if mono ck 0 - last_status_mono st \<ge> 1000000000
     then do { st2 \<leftarrow> status_update (fs_ltime w) (fs_openable w) c (later 2 ck) (st\<lparr>last_status_mono := mono ck 1\<rparr>);
               Some (prune_due w c (later 6 ck) (summary_due w c (later 4 ck) st2)) }
     else Some st)"

definition idle_section :: "clocks \<Rightarrow> pps \<Rightarrow> pps" where
  "idle_section ck st = (let st1 = st\<lparr>sec_noedge := sec_noedge st + 1\<rparr> in
     if mono ck 0 - last_print st1 > 10000000000 then say (LogIdle (anchor_valid st1)) (st1\<lparr>last_print := mono ck 1\<rparr>) else st1)"

definition ts_classify :: "clocks \<Rightarrow> int \<Rightarrow> pps \<Rightarrow> pps" where
  "ts_classify ck ts st = (if ts_is_realtime st < 0
     then let r = (\<bar>ts - real_ns ck 0\<bar> < \<bar>ts - mono ck 0\<bar>) in say (LogTsClock r) (st\<lparr>ts_is_realtime := (if r then 1 else 0)\<rparr>)
     else st)"

definition edge_ntp :: "cfg \<Rightarrow> clocks \<Rightarrow> int \<Rightarrow> pps \<Rightarrow> pps" where
  "edge_ntp c ck ts st =
    (let rt_e = edge_realtime ck ts st; r = cdiv rt_e 1000000000; frac = rt_e - r * 1000000000
     in if frac > 400000000 \<and> frac < 600000000 then st\<lparr>pair_locked := True\<rparr>
        else emit_sample c (later 1 ck) (r + (if frac > 500000000 then 1 else 0)) ts st)"

definition s_round :: "int \<Rightarrow> int" where
  "s_round rt_e = cdiv rt_e 1000000000 + (if cmod rt_e 1000000000 \<ge> 500000000 then 1 else 0)"

definition edge_tod :: "cfg \<Rightarrow> clocks \<Rightarrow> int \<Rightarrow> pps \<Rightarrow> pps" where
  "edge_tod c ck ts st =
    (let r = s_round (edge_realtime ck ts st); chain = anchor_S st + edge_delta + edge_count st;
         (S, st1) = (if \<bar>r - chain\<bar> \<le> 1 then (r, st) else (chain, say (LogOverride r chain) st))
     in emit_sample c (later 1 ck) S ts (st1\<lparr>edge_count := edge_count st1 + 1\<rparr>))"

text \<open>An edge.  In NTP mode an edge in mid-second leaves the loop body without unlocking.\<close>

definition edge_section :: "cfg \<Rightarrow> clocks \<Rightarrow> int \<Rightarrow> pps \<Rightarrow> pps option" where
  "edge_section c ck ts st =
    (let st1 = ts_classify ck ts st in
     if pair_locked st1 then None
     else Some (if mode_ntp c then edge_ntp c (later 1 ck) ts st1
       else if anchor_valid st1 \<and> mono ck 1 - anchor_mono st1 < 3000000000 then edge_tod c (later 2 ck) ts st1
       else if length (pending st1) < 8 then st1\<lparr>sec_noanchor := sec_noanchor st1 + 1, pending := pending st1 @ [ts]\<rparr>
       else st1))"

text \<open>What \<open>poll\<close> and \<open>read\<close> report: an error (whether it was \<open>EINTR\<close>), a time-out, an event (id and
  time stamp) or a short read.\<close>

datatype poll_result = PollErr bool | PollTimeout | PollShort | PollEvent int int

definition gpio_iter :: "fs_env \<Rightarrow> cfg \<Rightarrow> clocks \<Rightarrow> poll_result \<Rightarrow> pps \<Rightarrow> (pps \<times> bool) option" where
  "gpio_iter w c ck pr st = do {
     st1 \<leftarrow> (if coarse_enabled c then if pair_locked st then None else Some (coarse_section c ck st) else Some st);
     st2 \<leftarrow> tick_section w c (later 8 ck) st1;
     (case pr of PollErr eintr \<Rightarrow> Some (st2, eintr)
      | PollTimeout \<Rightarrow> Some (idle_section (later 16 ck) st2, True)
      | PollShort \<Rightarrow> Some (st2, True)
      | PollEvent i ts \<Rightarrow> if i \<noteq> 1 \<and> i \<noteq> 2 then Some (st2, True)
          else map_option (\<lambda>s. (s, True)) (edge_section c (later 16 ck) ts st2)) }"

section \<open>Options\<close>

text \<open>\<open>getopt\<close> delivers letters with their arguments; a letter it does not know is the usage branch.\<close>

definition opt_chip :: "string \<Rightarrow> cfg \<Rightarrow> cfg" where
  "opt_chip a c = (case scan_int (length a) a of None \<Rightarrow> c
     | Some (x, r) \<Rightarrow> let c1 = c\<lparr>gpio_chip := to_int32 x\<rparr> in
       (case r of k # r2 \<Rightarrow> if k = CHR '':'' then (case scan_int (length r2) r2 of None \<Rightarrow> c1 | Some (y, q) \<Rightarrow> c1\<lparr>gpio_line := to_int32 y\<rparr>) else c1
        | [] \<Rightarrow> c1))"

definition apply_opt :: "char \<times> string \<Rightarrow> cfg \<Rightarrow> cfg option" where
  "apply_opt x c = (case x of (o1, a) \<Rightarrow>
     if o1 = CHR ''g'' then Some (opt_chip a c)
     else if o1 = CHR ''e'' then Some (c\<lparr>edge_flags := (if a = ''rising'' then 1 else if a = ''falling'' then 2 else if a = ''both'' then 3 else edge_flags c)\<rparr>)
     else if o1 = CHR ''t'' then Some (c\<lparr>tod_dev := snprintf_s 64 a\<rparr>)
     else if o1 = CHR ''b'' then Some (c\<lparr>tod_baud := (if atoi a = 115200 then 115200 else if atoi a = 4800 then 4800 else if atoi a = 19200 then 19200 else 9600)\<rparr>)
     else if o1 = CHR ''u'' then Some (c\<lparr>shm_unit := atoi a\<rparr>)
     else if o1 = CHR ''l'' then Some (c\<lparr>logfile := snprintf_s 128 a, log_roll := False\<rparr>)
     else if o1 = CHR ''s'' then Some (c\<lparr>status_path := snprintf_s 128 a\<rparr>)
     else if o1 = CHR ''S'' then Some (c\<lparr>status_enabled := False\<rparr>)
     else if o1 = CHR ''C'' then Some (c\<lparr>coarse_enabled := False\<rparr>)
     else if o1 = CHR ''A'' then Some (c\<lparr>mode_ntp := (a = ''ntp'')\<rparr>)
     else if o1 = CHR ''D'' then Some (c\<lparr>daemonize := False\<rparr>)
     else if o1 = CHR ''L'' then Some (c\<lparr>log_interval := (if atoi a < 0 then 0 else atoi a)\<rparr>)
     else if o1 = CHR ''R'' then Some (c\<lparr>retain_mb := (if atoi a < 0 then 0 else atoi a)\<rparr>)
     else if o1 = CHR ''M'' then Some (c\<lparr>strike_max := (if atoi a < 1 then 1 else atoi a)\<rparr>)
     else if o1 = CHR ''X'' then Some (c\<lparr>reset_max := (if atoi a < 1 then 1 else atoi a)\<rparr>)
     else None)"

fun main_options :: "(char \<times> string) list \<Rightarrow> cfg \<Rightarrow> cfg option" where
  "main_options [] c = Some c"
| "main_options (x # xs) c = do { c1 \<leftarrow> apply_opt x c; main_options xs c1 }"

text \<open>\<open>main\<close>.  Whether the log can be opened, whether the shared memory can be attached and the result of
  \<open>fork\<close> are parameters.  The result is the exit status, or the configuration the two threads run with.\<close>

definition pps_main :: "(cfg \<Rightarrow> bool) \<Rightarrow> (int \<Rightarrow> bool) \<Rightarrow> int \<Rightarrow> (char \<times> string) list \<Rightarrow> int + cfg" where
  "pps_main log_opens shm_inits pid opts =
    (case main_options opts cfg_default of None \<Rightarrow> Inl 1
     | Some c \<Rightarrow> if \<not> log_opens c then Inl 1
         else if \<not> shm_inits (shm_unit c) then Inl 1
         else if daemonize c \<and> pid < 0 then Inl 1
         else if daemonize c \<and> pid > 0 then Inl 0
         else Inr c)"

section \<open>Steps of the two threads\<close>

definition clk_ok :: "int \<Rightarrow> clocks \<Rightarrow> bool" where
  "clk_ok t ck \<longleftrightarrow> t \<le> mono ck 0 \<and> (\<forall>i j. i \<le> j \<longrightarrow> mono ck i \<le> mono ck j)"

text \<open>Sentences handled by the serial thread.\<close>

inductive serial_run :: "cfg \<Rightarrow> int \<times> pps \<Rightarrow> int \<times> pps \<Rightarrow> bool" for c x where
  none: "serial_run c x x"
| more: "serial_run c x (t, st) \<Longrightarrow> clk_ok t ck \<Longrightarrow> handle_line c ck l st = Some st' \<Longrightarrow> serial_run c x (mono ck 30, st')"

text \<open>Sections of the two threads in any order, with the latest monotonic reading.  In the pass of the
  coarse step, which is not one section, sentences may come before the decision and before the clock is
  set.\<close>

inductive pps_step :: "fs_env \<Rightarrow> cfg \<Rightarrow> int \<times> pps \<Rightarrow> int \<times> pps \<Rightarrow> bool" for w c where
  coarse: "clk_ok t ck \<Longrightarrow> coarse_enabled c \<Longrightarrow> \<not> pair_locked st
    \<Longrightarrow> serial_run c (mono ck 0, st) (t1, st1) \<Longrightarrow> t1 \<le> mono ck 1
    \<Longrightarrow> coarse_decide c (coarse_read ck st) ck st1 = (st2, d)
    \<Longrightarrow> serial_run c (mono ck 7, st2) (t2, st3) \<Longrightarrow> t2 \<le> mono ck 30
    \<Longrightarrow> pps_step w c (t, st) (mono ck 30, coarse_commit (anchor_seq st) d st3)"
| tick: "clk_ok t ck \<Longrightarrow> tick_section w c ck st = Some st' \<Longrightarrow> pps_step w c (t, st) (mono ck 30, st')"
| idle: "clk_ok t ck \<Longrightarrow> pps_step w c (t, st) (mono ck 30, idle_section ck st)"
| edge: "clk_ok t ck \<Longrightarrow> edge_section c ck ts st = Some st' \<Longrightarrow> pps_step w c (t, st) (mono ck 30, st')"
| line: "clk_ok t ck \<Longrightarrow> handle_line c ck l st = Some st' \<Longrightarrow> pps_step w c (t, st) (mono ck 30, st')"

inductive pps_reach :: "fs_env \<Rightarrow> cfg \<Rightarrow> int \<times> pps \<Rightarrow> bool" for w c where
  start: "clk_ok 0 ck \<Longrightarrow> pps_reach w c (mono ck 1, pps_init ck)"
| step: "pps_reach w c x \<Longrightarrow> pps_step w c x y \<Longrightarrow> pps_reach w c y"

section \<open>What a section leaves alone\<close>

named_theorems frame

definition quota :: "pps \<Rightarrow> (int \<times> int \<times> int) list \<times> int \<times> int \<times> int" where
  "quota st = (steps st, forced_resets st, forced_window_mono st, last_nudge_mono st)"

lemma quota_update [frame]:
  "quota (st\<lparr>anchor_valid := x0\<rparr>) = quota st"
  "quota (st\<lparr>anchor_S := x1\<rparr>) = quota st"
  "quota (st\<lparr>anchor_mono := x2\<rparr>) = quota st"
  "quota (st\<lparr>edge_count := x3\<rparr>) = quota st"
  "quota (st\<lparr>pending := x4\<rparr>) = quota st"
  "quota (st\<lparr>ts_is_realtime := x5\<rparr>) = quota st"
  "quota (st\<lparr>strike := x6\<rparr>) = quota st"
  "quota (st\<lparr>strike_sign := x7\<rparr>) = quota st"
  "quota (st\<lparr>anchor_seq := x8\<rparr>) = quota st"
  "quota (st\<lparr>anchor_prev_S := x9\<rparr>) = quota st"
  "quota (st\<lparr>rx := x10\<rparr>) = quota st"
  "quota (st\<lparr>sec_badtod := x11\<rparr>) = quota st"
  "quota (st\<lparr>sec_noanchor := x12\<rparr>) = quota st"
  "quota (st\<lparr>acc := x13\<rparr>) = quota st"
  "quota (st\<lparr>shm := x14\<rparr>) = quota st"
  "quota (st\<lparr>reset_capped := x15\<rparr>) = quota st"
  "quota (st\<lparr>capped_log_mono := x16\<rparr>) = quota st"
  "quota (st\<lparr>pair_locked := x17\<rparr>) = quota st"
  by (simp_all add: quota_def)

lemma say_frame [frame]: "quota (say ev st) = quota st" "pair_locked (say ev st) = pair_locked st" "shm (say ev st) = shm st"
  by (simp_all add: say_def quota_def)

lemma gate_frame [frame]: "quota (gate_sample off st) = quota st" "pair_locked (gate_sample off st) = pair_locked st"
  "shm (gate_sample off st) = shm st"
  by (simp_all add: gate_sample_def Let_def say_def quota_def)

lemma pass_frame [frame]: "quota (pass_sample c m S r off st) = quota st" "pair_locked (pass_sample c m S r off st) = pair_locked st"
  by (simp_all add: pass_sample_def Let_def say_def quota_def)

lemma emit_frame [frame]: "quota (emit_sample c ck S e st) = quota st" "pair_locked (emit_sample c ck S e st) = pair_locked st"
  by (simp_all add: emit_sample_def Let_def frame) (simp_all add: quota_def)

lemma anchor_frame [frame]: "quota (anchor_section c ck S l st) = quota st" "pair_locked (anchor_section c ck S l st) = pair_locked st"
  by (simp_all add: anchor_section_def Let_def frame split: option.split)

lemma line_frame [frame]:
  assumes "handle_line c ck l st = Some st'"
  shows "quota st' = quota st" "pair_locked st' = pair_locked st"
proof -
  obtain rx' bad S where p: "parse_line (mono ck) (cstr l) (rx st) = (rx', bad, S)" by (metis prod_cases3)
  define st1 where "st1 = st\<lparr>rx := rx', sec_badtod := sec_badtod st + (if bad then 1 else 0)\<rparr>"
  have "st' = anchor_section c (later 6 ck) S (cstr l) st1 \<or> st' = st1"
    using assms by (simp add: handle_line_def Let_def p st1_def [symmetric] split: if_splits)
  moreover have "quota st1 = quota st" "pair_locked st1 = pair_locked st" by (simp_all add: st1_def quota_def)
  ultimately show "quota st' = quota st" "pair_locked st' = pair_locked st" by (auto simp: frame)
qed

lemma tick_frame [frame]:
  assumes "tick_section w c ck st = Some st'"
  shows "quota st' = quota st" "pair_locked st' = pair_locked st" "shm st' = shm st" "ts_is_realtime st' = ts_is_realtime st"
proof -
  have u: "quota st2 = quota st1 \<and> pair_locked st2 = pair_locked st1 \<and> shm st2 = shm st1 \<and> ts_is_realtime st2 = ts_is_realtime st1"
    if "status_update lt op c ck' st1 = Some st2" for lt op ck' st1 st2
    using that by (auto simp: status_update_def Let_def quota_def split: if_splits option.splits)
  have m: "quota (summary_due w c ck' st1) = quota st1 \<and> pair_locked (summary_due w c ck' st1) = pair_locked st1 \<and> shm (summary_due w c ck' st1) = shm st1 \<and> ts_is_realtime (summary_due w c ck' st1) = ts_is_realtime st1"
    for ck' st1 by (simp add: summary_due_def emit_summary_def say_def quota_def)
  have r: "quota (prune_due w c ck' st1) = quota st1 \<and> pair_locked (prune_due w c ck' st1) = pair_locked st1 \<and> shm (prune_due w c ck' st1) = shm st1 \<and> ts_is_realtime (prune_due w c ck' st1) = ts_is_realtime st1"
    for ck' st1 by (simp add: prune_due_def Let_def say_def quota_def split: prod.split option.split)
  show "quota st' = quota st" "pair_locked st' = pair_locked st" "shm st' = shm st" "ts_is_realtime st' = ts_is_realtime st"
    using assms u m r by (auto simp: tick_section_def bind_eq_Some_conv quota_def split: if_splits)
qed

lemma idle_frame [frame]: "quota (idle_section ck st) = quota st" "pair_locked (idle_section ck st) = pair_locked st"
  "shm (idle_section ck st) = shm st"
  by (simp_all add: idle_section_def Let_def say_def quota_def)

lemma edge_frame [frame]:
  assumes "edge_section c ck ts st = Some st'"
  shows "quota st' = quota st" "\<not> mode_ntp c \<Longrightarrow> pair_locked st' = pair_locked st"
proof -
  have k: "quota (ts_classify ck ts st) = quota st" "pair_locked (ts_classify ck ts st) = pair_locked st"
    by (simp_all add: ts_classify_def Let_def say_def quota_def)
  have n: "quota (edge_ntp c ck' ts st1) = quota st1" for ck' st1
    by (simp add: edge_ntp_def Let_def frame)
  have t: "quota (edge_tod c ck' ts st1) = quota st1" "pair_locked (edge_tod c ck' ts st1) = pair_locked st1" for ck' st1
    by (simp_all add: edge_tod_def Let_def frame split: prod.split)
  show "quota st' = quota st"
    using assms by (auto simp: edge_section_def Let_def k n t frame split: if_splits)
  show "\<not> mode_ntp c \<Longrightarrow> pair_locked st' = pair_locked st"
    using assms by (auto simp: edge_section_def Let_def k t split: if_splits)
qed

section \<open>The quota of clock steps\<close>

abbreviation hour :: int where "hour \<equiv> 3600000000000"

definition steps_where :: "(int \<Rightarrow> bool) \<Rightarrow> (int \<times> 'x) list \<Rightarrow> int" where
  "steps_where P l = int (length (filter (\<lambda>s. P (fst s)) l))"

definition quota_inv :: "int \<Rightarrow> int \<Rightarrow> (int \<times> int \<times> int) list \<times> int \<times> int \<times> int \<Rightarrow> bool" where
  "quota_inv lim t q = (case q of (l, n, fw, nudge) \<Rightarrow>
     fw \<le> t \<and> nudge \<le> t \<and> (\<forall>s\<in>set l. fst s \<le> nudge) \<and> sorted_wrt (\<lambda>x y. fst x > fst y + 10000000000) l
     \<and> steps_where (\<lambda>s. fw \<le> s) l = n \<and> n \<le> lim
     \<and> steps_where (\<lambda>s. fw - hour < s \<and> s < fw) l \<le> lim
     \<and> (\<forall>a. steps_where (\<lambda>s. a \<le> s \<and> s < a + hour) l \<le> 2 * lim))"

lemma steps_where_Cons [simp]: "steps_where P (x # l) = (if P (fst x) then 1 else 0) + steps_where P l"
  by (simp add: steps_where_def)

lemma steps_where_mono: "(\<And>s. s \<in> fst ` set l \<Longrightarrow> P s \<Longrightarrow> Q s) \<Longrightarrow> steps_where P l \<le> steps_where Q l"
  by (induction l) (auto simp: steps_where_def)

lemma steps_where_split: "(\<And>s. P s \<Longrightarrow> Q s \<or> R s) \<Longrightarrow> steps_where P l \<le> steps_where Q l + steps_where R l"
proof (induction l)
  case (Cons x l)
  from Cons.prems [of "fst x"] Cons.IH [OF Cons.prems] show ?case by auto
qed (simp add: steps_where_def)

lemma steps_where_none: "(\<And>s. s \<in> fst ` set l \<Longrightarrow> \<not> P s) \<Longrightarrow> steps_where P l = 0"
  by (induction l) (auto simp: steps_where_def)

lemma quota_inv_later: "quota_inv lim t q \<Longrightarrow> t \<le> t' \<Longrightarrow> quota_inv lim t' q"
  by (auto simp: quota_inv_def)

lemma quota_inv_window:
  assumes "quota_inv lim t (l, n, fw, nudge)" "t \<le> m" "nudge < m" "fw + hour \<le> m" "0 \<le> lim"
  shows "quota_inv lim m (l, 0, m, nudge)"
proof -
  have le: "s \<in> fst ` set l \<Longrightarrow> s < m" for s using assms by (force simp: quota_inv_def)
  have "steps_where (\<lambda>s. m \<le> s) l = 0" using le by (intro steps_where_none) fastforce
  moreover have "steps_where (\<lambda>s. m - hour < s \<and> s < m) l \<le> steps_where (\<lambda>s. fw \<le> s) l"
    using assms(4) by (intro steps_where_mono) linarith
  ultimately show ?thesis using assms by (auto simp: quota_inv_def)
qed

lemma quota_inv_step:
  assumes "quota_inv lim t (l, n, fw, nudge)" "t \<le> m" "nudge + 10000000000 < m" "n < lim"
  shows "quota_inv lim m ((m, x) # l, n + 1, fw, m)"
proof -
  note i = assms(1) [unfolded quota_inv_def prod.case]
  have fw: "fw \<le> m" using i assms(2) by linarith
  have gap: "\<forall>s\<in>set l. m > fst s + 10000000000" using i assms(3) by fastforce
  have C: "steps_where (\<lambda>s. a \<le> s \<and> s < a + hour) ((m, x) # l) \<le> 2 * lim" for a
  proof (cases "a \<le> m \<and> m < a + hour")
    case True
    with fw have "a > fw - hour" by linarith
    then have "steps_where (\<lambda>s. a \<le> s \<and> s < a + hour) l
        \<le> steps_where (\<lambda>s. fw \<le> s) l + steps_where (\<lambda>s. fw - hour < s \<and> s < fw) l"
      by (intro steps_where_split) linarith
    also have "\<dots> \<le> n + lim" using i by linarith
    finally show ?thesis using True assms(4) by simp
  next
    case False
    with i show ?thesis by auto
  qed
  from i assms fw gap C show ?thesis by (auto simp: quota_inv_def)
qed

lemma quota_inv_nudge: "quota_inv lim t (l, n, fw, nudge) \<Longrightarrow> t \<le> m \<Longrightarrow> quota_inv lim m (l, n, fw, m)"
  by (fastforce simp: quota_inv_def)

lemma quota_reached_frame [frame]: "quota (quota_reached c ck st) = quota st"
  by (simp add: quota_reached_def frame)

lemma clk_ok_le: "clk_ok t ck \<Longrightarrow> t \<le> mono ck k"
  unfolding clk_ok_def using order_trans [of t "mono ck 0" "mono ck k"] by simp

lemma serial_frame:
  assumes "serial_run c x y"
  shows "quota (snd y) = quota (snd x)" "pair_locked (snd y) = pair_locked (snd x)"
  using assms by (induction rule: serial_run.induct) (simp_all add: frame)

text \<open>The decision keeps the invariant, also with the clock setting it may announce.\<close>

lemma decide_quota:
  assumes ck: "clk_ok t ck" and i: "quota_inv (reset_max c) t (quota st)" and lim: "0 \<le> reset_max c"
    and d: "coarse_decide c r ck st = (st2, d)"
  shows "quota_inv (reset_max c) (mono ck 7) (case d of None \<Rightarrow> quota st2
    | Some y \<Rightarrow> ((last_nudge_mono st2, x) # steps st2, forced_resets st2 + 1, forced_window_mono st2, last_nudge_mono st2))"
proof (cases "coarse_due c (fst r) (snd r) ck st")
  case False
  then have "st2 = st" "d = None" using d by (simp_all add: coarse_decide_def split_beta)
  moreover have "t \<le> mono ck 7" using ck by (rule clk_ok_le)
  ultimately show ?thesis using i by (simp add: quota_inv_later)
next
  case True
  have m: "mono ck i \<le> mono ck j" if "i \<le> j" for i j using ck that by (simp add: clk_ok_def)
  have t: "t \<le> mono ck 4" using ck by (rule clk_ok_le)
  note ms = m [of 2 4] m [of 3 4] m [of 4 5] m [of 5 7] m [of 2 5]
  define w where "w = quota_window ck st"
  have nudge: "last_nudge_mono w = last_nudge_mono st" by (simp add: w_def quota_window_def)
  have due: "last_nudge_mono st + 10000000000 < mono ck 2" using True by (simp add: coarse_due_def)
  have iw: "quota_inv (reset_max c) (mono ck 4) (quota w)"
  proof (cases "mono ck 3 - forced_window_mono st \<ge> hour")
    case True
    with i t ms due lim show ?thesis unfolding w_def quota_window_def quota_def
      by (simp add: quota_inv_window [where t = t])
  next
    case False
    with i t show ?thesis by (simp add: w_def quota_window_def quota_inv_later)
  qed
  obtain l n fw where q: "quota w = (l, n, fw, last_nudge_mono st)" by (simp add: quota_def nudge)
  define st1 where "st1 = w\<lparr>last_nudge_mono := mono ck 5\<rparr>"
  have q1: "quota st1 = (l, n, fw, mono ck 5)" using q by (simp add: st1_def quota_def)
  have "coarse_decide c r ck st = (if forced_resets st1 \<ge> reset_max c then (quota_reached c ck st1, None)
      else (st1, Some (coarse_urgent (fst r) ck st, coarse_off ck st)))"
    using True by (simp add: coarse_decide_def Let_def st1_def w_def split_beta)
  note e = d [unfolded this]
  show ?thesis
  proof (cases "forced_resets st1 \<ge> reset_max c")
    case True
    have "quota_inv (reset_max c) (mono ck 5) (l, n, fw, mono ck 5)" using iw q ms by (intro quota_inv_nudge) auto
    moreover have "st2 = quota_reached c ck st1" "d = None" using True e by simp_all
    ultimately show ?thesis using ms by (simp add: frame q1 quota_inv_later)
  next
    case False
    then have n: "n < reset_max c" using q1 by (simp add: quota_def)
    have "quota_inv (reset_max c) (mono ck 5) ((mono ck 5, x) # l, n + 1, fw, mono ck 5)"
      using iw q n due ms by (intro quota_inv_step) auto
    moreover have "st2 = st1" "d = Some (coarse_urgent (fst r) ck st, coarse_off ck st)" using False e by simp_all
    ultimately show ?thesis using ms q1 by (simp add: quota_def quota_inv_later)
  qed
qed

lemma coarse_quota:
  assumes "clk_ok t ck" "quota_inv (reset_max c) t (quota st)" "0 \<le> reset_max c"
    and "serial_run c (u1, st) (t1, st1)" "coarse_decide c r ck st1 = (st2, d)" "serial_run c (u2, st2) (t2, st3)"
  shows "quota_inv (reset_max c) (mono ck 30) (quota (coarse_commit seq d st3))"
proof -
  have q: "quota st1 = quota st" "quota st3 = quota st2" using serial_frame(1) [OF assms(4)] serial_frame(1) [OF assms(6)] by simp_all
  have m: "mono ck 7 \<le> mono ck 30" using assms(1) by (simp add: clk_ok_def)
  note i = decide_quota [OF assms(1) _ assms(3,5), unfolded q(1), OF assms(2)]
  show ?thesis
  proof (cases d)
    case None
    with i show ?thesis using m q(2) by (simp add: coarse_commit_def quota_inv_later)
  next
    case (Some y)
    have s3: "steps st3 = steps st2" "forced_resets st3 = forced_resets st2" "forced_window_mono st3 = forced_window_mono st2"
      "last_nudge_mono st3 = last_nudge_mono st2" using q(2) by (simp_all add: quota_def)
    have "quota (coarse_commit seq d st3) = ((last_nudge_mono st2, anchor_S st3 + edge_delta - 1, 0) # steps st2,
        forced_resets st2 + 1, forced_window_mono st2, last_nudge_mono st2)"
      using Some s3 by (cases y) (simp add: coarse_commit_def clock_step_def Let_def say_def quota_def)
    with i [of "(anchor_S st3 + edge_delta - 1, 0)"] show ?thesis using m Some by (simp add: quota_inv_later)
  qed
qed

lemma quota_reachable: "pps_reach w c x \<Longrightarrow> 0 \<le> reset_max c \<Longrightarrow> quota_inv (reset_max c) (fst x) (quota (snd x))"
proof (induction rule: pps_reach.induct)
  case (start ck)
  have "0 \<le> mono ck 0" "mono ck 0 \<le> mono ck 1" using start by (simp_all add: clk_ok_def)
  with start show ?case by (simp add: pps_init_def quota_def quota_inv_def steps_where_def)
next
  case (step x y)
  have late: "clk_ok t ck \<Longrightarrow> quota_inv (reset_max c) t q \<Longrightarrow> quota_inv (reset_max c) (mono ck 30) q" for t ck q
    by (rule quota_inv_later) (auto intro: clk_ok_le)
  from step(2) step.IH [OF step.prems] show ?case
  proof (cases rule: pps_step.cases)
    case (coarse t ck st t1 st1 st2 d t2 st3)
    then have "quota_inv (reset_max c) t (quota st)" using step.IH [OF step.prems] by simp
    from coarse_quota [OF coarse(3) this step.prems coarse(6,8,9)] coarse(2) show ?thesis by simp
  qed (use step.IH [OF step.prems] late in \<open>auto simp: frame\<close>)
qed

text \<open>C4: the quota of clock steps.  In every run, however pulses, sentences, idle times and status
  frames interleave, two settings of the system clock are more than 10 s apart on the monotonic clock,
  and no stretch of one hour holds more than twice the configured number; the counter the status
  shows never exceeds that number.\<close>

theorem clock_steps_bounded:
  assumes "pps_reach w c (t, st)" "0 \<le> reset_max c"
  shows "sorted_wrt (\<lambda>x y. fst x > fst y + 10000000000) (steps st)
    \<and> (\<forall>a. int (length (filter (\<lambda>s. a \<le> fst s \<and> fst s < a + 3600000000000) (steps st))) \<le> 2 * reset_max c)
    \<and> forced_resets st \<le> reset_max c"
  using quota_reachable [OF assms] by (simp add: quota_inv_def quota_def steps_where_def)

section \<open>Shared memory samples\<close>

definition shm_ok :: "shm_time \<Rightarrow> bool" where
  "shm_ok m \<longleftrightarrow> even (shm_count m) \<and> shm_mode m = 1 \<and> (shm_valid m = 0 \<or> shm_valid m = 1
     \<and> \<bar>(clock_sec m * 1000000000 + clock_nsec m) - (recv_sec m * 1000000000 + recv_nsec m)\<bar> \<le> 500000000
     \<and> clock_usec m = cdiv (clock_nsec m) 1000 \<and> recv_usec m = cdiv (recv_nsec m) 1000 \<and> shm_leap m = 0)"

lemma cdiv_cmod: "cdiv a b * b + cmod a b = a"
  by (simp add: cmod_def mult.commute)

lemma shm_write_eq: "shm_write rs rn cs cn m = m\<lparr>shm_valid := 1, shm_count := shm_count m + 2, clock_sec := cs,
    clock_usec := cdiv cn 1000, clock_nsec := cn, recv_sec := rs, recv_usec := cdiv rn 1000, recv_nsec := rn,
    shm_leap := 0, shm_precision := -20, shm_nsamples := 0\<rparr>"
  by (simp add: shm_write_def run_stores_def shm_stores_def)

lemma pass_shm: "shm (pass_sample c m S r off st) = shm_write (cdiv r 1000000000) (cmod r 1000000000) S 0 (shm st)"
  by (simp add: pass_sample_def Let_def say_def)

lemma shm_write_ok: "shm_ok m \<Longrightarrow> \<not> 500000000 < \<bar>S * 1000000000 - r\<bar> \<Longrightarrow> shm_ok (shm_write (cdiv r 1000000000) (cmod r 1000000000) S 0 m)"
  using cdiv_cmod [of r 1000000000] by (simp add: shm_write_eq shm_ok_def cdiv_def [of 0])

definition edge_rt :: "clocks \<Rightarrow> int \<Rightarrow> pps \<Rightarrow> int" where
  "edge_rt ck e st = (if ts_is_realtime st = 1 then e else e + (real_ns ck 0 - mono ck 0))"

lemma emit_sample_eq: "emit_sample c ck S e st =
    (let off = S * 1000000000 - edge_rt ck e st; st1 = st\<lparr>last_off_us := cdiv off 1000, last_off_mono := mono ck 1\<rparr>
     in if \<bar>off\<bar> > 500000000 then gate_sample off st1 else pass_sample c (mono ck 2) S (edge_rt ck e st) off st1)"
  by (simp only: emit_sample_def edge_rt_def Let_def)

lemma emit_gated: "\<bar>S * 1000000000 - edge_rt ck e st\<bar> > 500000000 \<Longrightarrow> emit_sample c ck S e st =
    gate_sample (S * 1000000000 - edge_rt ck e st) (st\<lparr>last_off_us := cdiv (S * 1000000000 - edge_rt ck e st) 1000, last_off_mono := mono ck 1\<rparr>)"
  by (simp add: emit_sample_eq Let_def)

lemma emit_passed: "\<bar>S * 1000000000 - edge_rt ck e st\<bar> \<le> 500000000 \<Longrightarrow> emit_sample c ck S e st =
    pass_sample c (mono ck 2) S (edge_rt ck e st) (S * 1000000000 - edge_rt ck e st)
      (st\<lparr>last_off_us := cdiv (S * 1000000000 - edge_rt ck e st) 1000, last_off_mono := mono ck 1\<rparr>)"
  by (simp add: emit_sample_eq Let_def)

lemma emit_shm_ok: "shm_ok (shm st) \<Longrightarrow> shm_ok (shm (emit_sample c ck S e st))"
  by (cases "\<bar>S * 1000000000 - edge_rt ck e st\<bar> > 500000000") (simp_all add: emit_gated emit_passed frame pass_shm shm_write_ok)

lemma anchor_shm_ok: "shm_ok (shm st) \<Longrightarrow> shm_ok (shm (anchor_section c ck S l st))"
  by (simp add: anchor_section_def Let_def frame emit_shm_ok split: option.split)

lemma line_shm_ok: "handle_line c ck l st = Some st' \<Longrightarrow> shm_ok (shm st) \<Longrightarrow> shm_ok (shm st')"
  by (auto simp: handle_line_def Let_def anchor_shm_ok split: prod.splits if_splits)

lemma edge_shm_ok: "edge_section c ck ts st = Some st' \<Longrightarrow> shm_ok (shm st) \<Longrightarrow> shm_ok (shm st')"
proof -
  assume e: "edge_section c ck ts st = Some st'" and m: "shm_ok (shm st)"
  have k: "shm (ts_classify ck ts st) = shm st" by (simp add: ts_classify_def Let_def frame)
  have n: "shm_ok (shm (edge_ntp c ck' ts st1))" if "shm_ok (shm st1)" for ck' st1
    unfolding edge_ntp_def Let_def using that by (simp only: emit_shm_ok if_distrib [of shm] if_distrib [of shm_ok] if_cancel pps.simps) simp
  have t: "shm_ok (shm (edge_tod c ck' ts st1))" if "shm_ok (shm st1)" for ck' st1
  proof -
    obtain S st2 where "edge_tod c ck' ts st1 = emit_sample c (later 1 ck') S ts (st2\<lparr>edge_count := edge_count st2 + 1\<rparr>)" "shm st2 = shm st1"
      unfolding edge_tod_def Let_def by (cases "\<bar>s_round (edge_realtime ck' ts st1) - (anchor_S st1 + edge_delta + edge_count st1)\<bar> \<le> 1") (auto simp only: if_True if_False prod.case frame)
    with that show ?thesis by (simp add: emit_shm_ok)
  qed
  from e have "st' = edge_ntp c (later 1 ck) ts (ts_classify ck ts st) \<or> st' = edge_tod c (later 2 ck) ts (ts_classify ck ts st)
      \<or> shm st' = shm (ts_classify ck ts st)"
    by (simp add: edge_section_def Let_def split: if_splits) auto
  with m k n t show ?thesis by auto
qed

lemma decide_frame [frame]:
  assumes "coarse_decide c r ck st = (st2, d)"
  shows "shm st2 = shm st" "pair_locked st2 = pair_locked st" "anchor_S st2 = anchor_S st" "ts_is_realtime st2 = ts_is_realtime st"
  using assms by (auto simp: coarse_decide_def Let_def quota_reached_def quota_window_def say_def split: prod.splits if_splits)

lemma commit_frame [frame]: "shm (coarse_commit seq d st) = shm st" "pair_locked (coarse_commit seq d st) = pair_locked st"
  "ts_is_realtime (coarse_commit seq d st) = ts_is_realtime st"
  by (simp_all add: coarse_commit_def clock_step_def Let_def say_def split: option.split prod.split)

lemma coarse_frame [frame]: "pair_locked (coarse_section c ck st) = pair_locked st" "ts_is_realtime (coarse_section c ck st) = ts_is_realtime st"
  by (simp_all add: coarse_section_def frame split: prod.split)

lemma serial_shm: "serial_run c x y \<Longrightarrow> shm_ok (shm (snd x)) \<Longrightarrow> shm_ok (shm (snd y))"
  by (induction rule: serial_run.induct) (auto simp: line_shm_ok)

lemma coarse_shm:
  assumes "serial_run c (u1, st) (t1, st1)" "coarse_decide c r ck st1 = (st2, d)" "serial_run c (u2, st2) (t2, st3)" "shm_ok (shm st)"
  shows "shm_ok (shm (coarse_commit seq d st3))"
proof -
  have "shm_ok (shm st1)" using serial_shm [OF assms(1)] assms(4) by simp
  then have "shm_ok (shm st2)" using decide_frame(1) [OF assms(2)] by simp
  then have "shm_ok (shm st3)" using serial_shm [OF assms(3)] by simp
  then show ?thesis by (simp add: frame)
qed

lemma shm_reachable: "pps_reach w c x \<Longrightarrow> shm_ok (shm (snd x))"
proof (induction rule: pps_reach.induct)
  case (start ck)
  show ?case by (simp add: pps_init_def shm_zero_def shm_ok_def)
next
  case (step x y)
  from step(2) show ?case
  proof (cases rule: pps_step.cases)
    case (coarse t ck st t1 st1 st2 d t2 st3)
    with coarse_shm [OF coarse(6,8,9)] step(3) show ?thesis by simp
  qed (use step(3) in \<open>auto simp: frame edge_shm_ok line_shm_ok\<close>)
qed

lemma shm_torn: "0 < k \<Longrightarrow> k < 13 \<Longrightarrow> shm_valid (run_stores (take k (shm_stores rs rn cs cn)) m) = 0"
proof -
  assume k: "0 < k" "k < 13"
  have "k \<in> {1, 2, 3, 4, 5, 6, 7, 8, 9, 10, 11, 12}" using k by (auto simp: numeral_eq_Suc less_Suc_eq)
  then show ?thesis by (auto simp: shm_stores_def run_stores_def)
qed

text \<open>C11: what chrony can read.  In every run the sample in shared memory, once marked valid, has an
  even count, agrees with the local time of its edge to half a second, and its microseconds are those of
  its nanoseconds; and while a new sample is being stored, the marker is cleared at every point between
  the first and the last store, so a reader that sees it set sees a whole sample.\<close>

theorem shm_samples_sound:
  assumes "pps_reach w c (t, st)"
  shows "shm_ok (shm st)
    \<and> (\<forall>k rs rn cs cn. 0 < k \<and> k < length (shm_stores rs rn cs cn) \<longrightarrow> shm_valid (run_stores (take k (shm_stores rs rn cs cn)) (shm st)) = 0)"
proof -
  have "length (shm_stores rs rn cs cn) = 13" for rs rn cs cn by (simp add: shm_stores_def)
  with shm_reachable [OF assms] shm_torn show ?thesis by simp
qed

section \<open>The second of an edge\<close>

text \<open>C16: which second a pulse gets in TOD mode.  With an anchor, the rounded local time of the edge is
  used when it is within one second of the count from the last sentence, and then the sample always
  reaches chrony and clears the anomaly run; otherwise the counted second is used, the sample is always
  gated and counted.  So a local clock that is wrong by one whole second is reported to chrony as right.\<close>

theorem edge_second:
  assumes "ts_is_realtime st = 1" "0 \<le> ts" "0 \<le> strike st"
  shows "let r = s_round ts; chain = anchor_S st + 1 + edge_count st; st' = edge_tod c ck ts st in
    edge_count st' = edge_count st + 1 \<and>
    (if \<bar>r - chain\<bar> \<le> 1
     then shm st' = shm_write (ts div 1000000000) (ts mod 1000000000) r 0 (shm st) \<and> strike st' = 0 \<and> sec_gated st' = sec_gated st
     else shm st' = shm st \<and> strike st' > 0 \<and> sec_gated st' = sec_gated st + 1)"
proof -
  define r chain where "r = s_round ts" and "chain = anchor_S st + 1 + edge_count st"
  have rt: "edge_realtime ck ts st = ts" using assms by (simp add: edge_realtime_def)
  have rt2: "edge_rt ck' ts st1 = ts" if "ts_is_realtime st1 = 1" for ck' st1
    using that by (simp add: edge_rt_def)
  have b: "1000000000 * (ts div 1000000000) + ts mod 1000000000 = ts" "0 \<le> ts mod 1000000000" "ts mod 1000000000 < 1000000000" by simp_all
  have c: "cdiv ts 1000000000 = ts div 1000000000" "cmod ts 1000000000 = ts mod 1000000000"
    using assms(2) by (simp_all add: cmod_def minus_mult_div_eq_mod)
  have g: "ts = 1000000000 * d + m \<Longrightarrow> 0 \<le> m \<Longrightarrow> m < 1000000000 \<Longrightarrow> \<bar>(d + (if m \<ge> 500000000 then 1 else 0)) * 1000000000 - ts\<bar> \<le> 500000000"
    for d m :: int by auto
  have r: "\<bar>r * 1000000000 - ts\<bar> \<le> 500000000" unfolding r_def s_round_def c by (rule g) (use b in simp_all)
  show ?thesis
  proof (cases "\<bar>r - chain\<bar> \<le> 1")
    case True
    have e: "edge_tod c ck ts st = emit_sample c (later 1 ck) r ts (st\<lparr>edge_count := edge_count st + 1\<rparr>)"
      using True by (simp add: edge_tod_def Let_def rt r_def chain_def edge_delta_def)
    show ?thesis using True r rt2 [of "st\<lparr>edge_count := edge_count st + 1\<rparr>" "later 1 ck"] assms(1)
      unfolding Let_def r_def [symmetric] chain_def [symmetric] e
      by (simp add: emit_passed pass_sample_def Let_def say_def c)
  next
    case False
    have e: "edge_tod c ck ts st = emit_sample c (later 1 ck) chain ts (say (LogOverride r chain) st\<lparr>edge_count := edge_count st + 1\<rparr>)"
      using False by (simp add: edge_tod_def Let_def rt r_def chain_def edge_delta_def say_def)
    have "\<bar>chain * 1000000000 - ts\<bar> > 500000000" using False r by linarith
    then show ?thesis using False assms(1,3) rt2 [of "say (LogOverride r chain) st\<lparr>edge_count := edge_count st + 1\<rparr>" "later 1 ck"]
      unfolding Let_def r_def [symmetric] chain_def [symmetric] e
      by (simp add: emit_gated gate_sample_def Let_def say_def)
  qed
qed

section \<open>Recovery and deadlock\<close>





section \<open>The mutex\<close>

lemma tick_unlocked: "\<not> pair_locked st \<Longrightarrow> tick_section w c ck st \<noteq> None"
  by (simp add: tick_section_def status_update_def Let_def)

lemma tod_pass:
  assumes "\<not> mode_ntp c" "\<not> pair_locked st"
  shows "\<exists>st' more. gpio_iter w c ck pr st = Some (st', more) \<and> \<not> pair_locked st'"
proof -
  define st1 where "st1 = (if coarse_enabled c then coarse_section c ck st else st)"
  have u1: "\<not> pair_locked st1" using assms by (simp add: st1_def frame)
  obtain st2 where t: "tick_section w c (later 8 ck) st1 = Some st2" using tick_unlocked [OF u1] by blast
  have u2: "\<not> pair_locked st2" using tick_frame(2) [OF t] u1 by simp
  have e: "\<exists>st3. edge_section c (later 16 ck) ts st2 = Some st3 \<and> \<not> pair_locked st3" for ts
  proof -
    have "pair_locked (ts_classify (later 16 ck) ts st2) = pair_locked st2" by (simp add: ts_classify_def Let_def frame)
    then obtain st3 where "edge_section c (later 16 ck) ts st2 = Some st3" using u2 by (simp add: edge_section_def Let_def)
    with edge_frame(2) [OF this assms(1)] u2 show ?thesis by simp
  qed
  have "gpio_iter w c ck pr st = (case pr of PollErr eintr \<Rightarrow> Some (st2, eintr) | PollTimeout \<Rightarrow> Some (idle_section (later 16 ck) st2, True)
      | PollShort \<Rightarrow> Some (st2, True)
      | PollEvent i ts \<Rightarrow> if i \<noteq> 1 \<and> i \<noteq> 2 then Some (st2, True) else map_option (\<lambda>s. (s, True)) (edge_section c (later 16 ck) ts st2))"
    using assms(2) t by (cases "coarse_enabled c") (simp_all add: gpio_iter_def st1_def)
  with e u2 show ?thesis by (cases pr) (auto simp: frame)
qed

text \<open>C23: liveness in TOD mode.  Neither thread ever keeps the mutex: from any state in which it is
  free, every pass of the GPIO thread, whatever \<open>poll\<close> reports, and every line of the serial
  thread returns, and the mutex is free again.\<close>

theorem tod_mode_never_blocks:
  assumes "\<not> mode_ntp c" "\<not> pair_locked st"
  shows "(\<exists>st' more. gpio_iter w c ck pr st = Some (st', more) \<and> \<not> pair_locked st')
    \<and> (\<exists>st'. handle_line c ck l st = Some st' \<and> \<not> pair_locked st')"
proof (rule conjI [OF tod_pass [OF assms]])
  obtain rx' bad S where p: "parse_line (mono ck) (cstr l) (rx st) = (rx', bad, S)" by (metis prod_cases3)
  show "\<exists>st'. handle_line c ck l st = Some st' \<and> \<not> pair_locked st'"
    using assms(2) by (simp add: handle_line_def Let_def p frame)
qed


text \<open>C22: the deadlock in NTP mode.  An edge in the middle of a second leaves the mutex locked: the pass
  that sees it returns, and after it no pass of the GPIO thread with the coarse step enabled returns,
  and no time sentence is accepted any more.\<close>

theorem ntp_mode_deadlock:
  assumes "mode_ntp c" "coarse_enabled c" "\<not> pair_locked st" "ts_is_realtime st = 1" "0 \<le> ts"
    and "400000000 < ts mod 1000000000" "ts mod 1000000000 < 600000000" "i = 1 \<or> i = 2"
  shows "\<exists>st'. gpio_iter w c ck (PollEvent i ts) st = Some (st', True)
    \<and> (\<forall>w' ck' pr. gpio_iter w' c ck' pr st' = None)
    \<and> (\<forall>ck' l. snd (snd (parse_line (mono ck') (cstr l) (rx st'))) > 0 \<longrightarrow> handle_line c ck' l st' = None)"
proof -
  define st1 where "st1 = coarse_section c ck st"
  have u1: "\<not> pair_locked st1" "ts_is_realtime st1 = 1" using assms by (simp_all add: st1_def frame)
  obtain st2 where t: "tick_section w c (later 8 ck) st1 = Some st2" using tick_unlocked [OF u1(1)] by blast
  have u2: "\<not> pair_locked st2" using tick_frame(2) [OF t] u1 by simp
  have r2: "ts_is_realtime st2 = 1" using tick_frame(4) [OF t] u1 by simp
  have "ts - ts div 1000000000 * 1000000000 = ts mod 1000000000" by (simp add: minus_div_mult_eq_mod)
  then have e: "edge_section c (later 16 ck) ts st2 = Some (st2\<lparr>pair_locked := True\<rparr>)"
    using assms u2 r2 by (simp add: edge_section_def Let_def ts_classify_def edge_ntp_def edge_realtime_def)
  have "gpio_iter w c ck (PollEvent i ts) st = Some (st2\<lparr>pair_locked := True\<rparr>, True)"
    using assms t e by (auto simp: gpio_iter_def st1_def)
  moreover have "gpio_iter w' c ck' pr (st2\<lparr>pair_locked := True\<rparr>) = None" for w' ck' pr
    using assms(2) by (simp add: gpio_iter_def)
  moreover have "snd (snd (parse_line (mono ck') (cstr l) (rx st2))) > 0 \<longrightarrow> handle_line c ck' l (st2\<lparr>pair_locked := True\<rparr>) = None" for ck' l
    by (simp add: handle_line_def Let_def split: prod.split)
  ultimately show ?thesis by fastforce
qed

section \<open>Lines of the serial stream\<close>

fun line_run :: "cfg \<Rightarrow> (nat \<Rightarrow> clocks) \<Rightarrow> string list \<Rightarrow> pps \<Rightarrow> pps option" where
  "line_run c cks [] st = Some st"
| "line_run c cks (l # ls) st = do { st1 \<leftarrow> handle_line c (cks (length l)) l st; line_run c (\<lambda>i. cks (Suc (length l) + i)) ls st1 }"

lemma serial_plain:
  assumes "\<forall>b\<in>set l. b \<noteq> CHR 0x0A \<and> b \<noteq> CHR 0x0D" "length p + length l \<le> 255"
  shows "serial_bytes c cks (l @ rest) (p, st) = serial_bytes c (\<lambda>i. cks (length l + i)) rest (p @ l, st)"
  using assms
proof (induction l arbitrary: p cks)
  case (Cons b l)
  have "serial_byte c (cks 0) b (p, st) = Some (p @ [b], st)" using Cons.prems by (simp add: serial_byte_def)
  with Cons.IH [of "p @ [b]" "\<lambda>i. cks (Suc i)"] Cons.prems show ?case by simp
qed simp

text \<open>Framing.  However the reads cut the stream, lines of one to 255 bytes ended by a newline are
  handed to the parser whole, in order, with nothing left over.\<close>

theorem serial_framing:
  assumes "\<forall>l\<in>set ls. l \<noteq> [] \<and> length l \<le> 255 \<and> (\<forall>b\<in>set l. b \<noteq> CHR 0x0A \<and> b \<noteq> CHR 0x0D)"
  shows "serial_bytes c cks (concat (map (\<lambda>l. l @ [CHR 0x0A]) ls)) ([], st) = map_option (Pair []) (line_run c cks ls st)"
  using assms
proof (induction ls arbitrary: cks st)
  case (Cons l ls)
  have "serial_byte c ck (CHR 0x0A) (l, st) = map_option (Pair []) (handle_line c ck l st)" for ck
    using Cons.prems by (simp add: serial_byte_def)
  with Cons serial_plain [of l "[]" c cks "CHR 0x0A # concat (map (\<lambda>l. l @ [CHR 0x0A]) ls)" st]
  show ?case by (cases "handle_line c (cks (length l)) l st") simp_all
qed simp

section \<open>Pending edges\<close>

lemma best_edge_max: "best_edge am es b = (let S = {e \<in> set es. am - 1000000000 \<le> e \<and> e \<le> am} \<union> set_option b in
    if S = {} then None else Some (Max S))"
proof (induction es arbitrary: b)
  case Nil
  then show ?case by (cases b) (simp_all add: Let_def)
next
  case (Cons e es)
  let ?A = "\<lambda>es. {e \<in> set es. am - 1000000000 \<le> e \<and> e \<le> am}"
  show ?case
  proof (cases "am - 1000000000 \<le> e \<and> e \<le> am")
    case False
    then have "?A (e # es) = ?A es" by auto
    moreover have "best_edge am (e # es) b = best_edge am es b"
    proof (cases "e > am")
      case no: False
      with False have "am - e > 1000000000" by linarith
      with no show ?thesis by simp
    qed simp
    ultimately show ?thesis using Cons.IH [of b] by (simp only: Let_def)
  next
    case True
    then have A: "?A (e # es) = insert e (?A es)" by auto
    have fin: "finite (?A es)" by simp
    have mx: "finite B \<Longrightarrow> Max (insert e B \<union> {x}) = Max (B \<union> {max e x})" for B and x :: int
      by (cases "B = {}") (simp_all add: max.assoc max.left_commute max.commute)
    show ?thesis
    proof (cases b)
      case None
      then have "best_edge am (e # es) b = best_edge am es (Some e)" "?A (e # es) \<union> set_option b = ?A es \<union> set_option (Some e)"
        "?A es \<union> set_option (Some e) \<noteq> {}" using True A by auto
      then show ?thesis using Cons.IH [of "Some e"] by (simp only: Let_def if_False)
    next
      case (Some x)
      have "Max (?A (e # es) \<union> set_option b) = Max (?A es \<union> set_option (Some (max e x)))"
        unfolding A Some using mx [OF fin] by simp
      moreover have "best_edge am (e # es) b = best_edge am es (Some (max e x))"
        using True Some by (simp add: max_def)
      moreover have "?A (e # es) \<union> set_option b \<noteq> {}" "?A es \<union> set_option (Some (max e x)) \<noteq> {}" using Some by auto
      ultimately show ?thesis using Cons.IH [of "Some (max e x)"] by (simp only: Let_def if_False)
    qed
  qed
qed

section \<open>Options\<close>

text \<open>The configuration a command line asks for, option by option: the last value given counts.\<close>

definition args :: "char \<Rightarrow> (char \<times> string) list \<Rightarrow> string list" where
  "args o1 opts = map snd (filter (\<lambda>x. fst x = o1) opts)"

definition last_of :: "'b \<Rightarrow> (string \<Rightarrow> 'b) \<Rightarrow> string list \<Rightarrow> 'b" where
  "last_of d f as = (if as = [] then d else f (last as))"

definition edge_name :: "string \<Rightarrow> int" where
  "edge_name a = (if a = ''rising'' then 1 else if a = ''falling'' then 2 else 3)"

definition baud_of :: "string \<Rightarrow> int" where
  "baud_of a = (if atoi a \<in> {4800, 19200, 115200} then atoi a else 9600)"

definition cfg_of :: "(char \<times> string) list \<Rightarrow> cfg" where
  "cfg_of opts = \<lparr>gpio_chip = gpio_chip (fold opt_chip (args (CHR ''g'') opts) cfg_default),
     gpio_line = gpio_line (fold opt_chip (args (CHR ''g'') opts) cfg_default),
     edge_flags = last_of 1 edge_name (filter (\<lambda>a. a \<in> {''rising'', ''falling'', ''both''}) (args (CHR ''e'') opts)),
     tod_dev = last_of ''/dev/ttyS3'' (snprintf_s 64) (args (CHR ''t'') opts),
     tod_baud = last_of 9600 baud_of (args (CHR ''b'') opts),
     shm_unit = last_of 0 atoi (args (CHR ''u'') opts),
     logfile = last_of ''/var/log/pps_tod/pps_tod_YYYY-MM-DD.log'' (snprintf_s 128) (args (CHR ''l'') opts),
     log_roll = (args (CHR ''l'') opts = []),
     status_path = last_of ''/run/pps_tod/status'' (snprintf_s 128) (args (CHR ''s'') opts),
     status_enabled = (args (CHR ''S'') opts = []), coarse_enabled = (args (CHR ''C'') opts = []),
     mode_ntp = last_of False (\<lambda>a. a = ''ntp'') (args (CHR ''A'') opts), daemonize = (args (CHR ''D'') opts = []),
     log_interval = last_of 60 (\<lambda>a. max 0 (atoi a)) (args (CHR ''L'') opts),
     retain_mb = last_of 100 (\<lambda>a. max 0 (atoi a)) (args (CHR ''R'') opts),
     strike_max = last_of 10 (\<lambda>a. max 1 (atoi a)) (args (CHR ''M'') opts),
     reset_max = last_of 6 (\<lambda>a. max 1 (atoi a)) (args (CHR ''X'') opts)\<rparr>"

definition known_opts :: "(char \<times> string) list \<Rightarrow> bool" where
  "known_opts opts \<longleftrightarrow> fst ` set opts \<subseteq> set ''getbulsSCADLRMX''"

lemma args_snoc: "args k (xs @ [(j, a)]) = args k xs @ (if j = k then [a] else [])"
  by (simp add: args_def)

lemma last_of_snoc [simp]: "last_of d f (xs @ [a]) = f a" "last_of d f [] = d"
  by (simp_all add: last_of_def)

lemma opt_chip_fields: "gpio_chip c = gpio_chip d \<Longrightarrow> gpio_line c = gpio_line d \<Longrightarrow>
    opt_chip a c = c\<lparr>gpio_chip := gpio_chip (opt_chip a d), gpio_line := gpio_line (opt_chip a d)\<rparr>"
  by (simp add: opt_chip_def Let_def split: option.split prod.split list.split)

lemma if_some_cases: "(if P then Some x else y) = Some z \<Longrightarrow> (P \<Longrightarrow> x = z \<Longrightarrow> R) \<Longrightarrow> (\<not> P \<Longrightarrow> y = Some z \<Longrightarrow> R) \<Longrightarrow> R"
  by (cases P) simp_all

lemma if_none: "(if P then Some x else y) = None \<longleftrightarrow> \<not> P \<and> y = None"
  by simp

lemma apply_opt_none: "apply_opt x c = None \<longleftrightarrow> fst x \<notin> set ''getbulsSCADLRMX''"
  by (cases x) (simp only: apply_opt_def prod.case if_none fst_conv list.set insert_iff empty_iff de_Morgan_disj not_False_eq_True simp_thms)

lemma clamp: "(if x < 0 then 0 else x) = max 0 x" "(if x < 1 then 1 else x) = max 1 x" for x :: int
  by simp_all

lemma apply_opt_cfg: "apply_opt (o1, a) (cfg_of xs) = Some c \<Longrightarrow> c = cfg_of (xs @ [(o1, a)])"
proof -
  assume p: "apply_opt (o1, a) (cfg_of xs) = Some c"
  have chip: "opt_chip a (cfg_of xs) = (cfg_of xs)\<lparr>gpio_chip := gpio_chip (fold opt_chip (args (CHR ''g'') xs @ [a]) cfg_default),
      gpio_line := gpio_line (fold opt_chip (args (CHR ''g'') xs @ [a]) cfg_default)\<rparr>"
    by (subst opt_chip_fields [where d = "fold opt_chip (args (CHR ''g'') xs) cfg_default"]) (simp_all add: cfg_of_def)
  show ?thesis
    using p unfolding apply_opt_def prod.case
    by (elim if_some_cases)
      (hypsubst?, (simp only: chip)?, simp add: cfg_of_def args_snoc clamp edge_name_def baud_of_def)+
qed

lemma main_options_snoc: "main_options (xs @ [x]) c = Option.bind (main_options xs c) (apply_opt x)"
  by (induction xs arbitrary: c) (simp_all add: bind_eq_Some_conv split: Option.bind_split)

lemma main_options_cfg: "main_options opts cfg_default = (if known_opts opts then Some (cfg_of opts) else None)"
proof (induction opts rule: rev_induct)
  case Nil
  show ?case by (simp add: known_opts_def cfg_of_def args_def cfg_default_def)
next
  case (snoc x xs)
  obtain o1 a where x: "x = (o1, a)" by (cases x)
  have k: "known_opts (xs @ [x]) \<longleftrightarrow> known_opts xs \<and> apply_opt x (cfg_of xs) \<noteq> None"
    unfolding apply_opt_none known_opts_def by (simp only: set_append list.set image_Un image_insert image_empty Un_subset_iff insert_subset empty_subsetI simp_thms)
  show ?case
  proof (cases "known_opts xs")
    case True
    then show ?thesis using k snoc.IH apply_opt_cfg [of o1 a xs] unfolding main_options_snoc x
      by (cases "apply_opt (o1, a) (cfg_of xs)") simp_all
  next
    case False
    then show ?thesis using k snoc.IH unfolding main_options_snoc by simp
  qed
qed

text \<open>C40: the start of the daemon.  For every command line and whatever opening the log, attaching the
  shared memory and \<open>fork\<close> yield: the threads run exactly when all options are known, the log and the
  shared memory are there and this process is to stay, and then with the configuration in which every
  option has the last value given for it, cut to its buffer or raised to its minimum, and the default
  otherwise; in all other cases \<open>main\<close> returns 1, and 0 only in the parent of the daemon.\<close>

theorem main_starts:
  "pps_main log_opens shm_inits pid opts =
    (let c = cfg_of opts in
     if known_opts opts \<and> log_opens c \<and> shm_inits (last_of 0 atoi (args (CHR ''u'') opts)) \<and> (args (CHR ''D'') opts = [] \<longrightarrow> pid = 0) then Inr c
     else if known_opts opts \<and> log_opens c \<and> shm_inits (last_of 0 atoi (args (CHR ''u'') opts)) \<and> pid > 0 then Inl 0
     else Inl 1)"
  unfolding pps_main_def main_options_cfg Let_def by (auto simp: cfg_of_def)

section \<open>The status text\<close>

definition i32 :: "int \<Rightarrow> bool" where
  "i32 x \<longleftrightarrow> -2147483648 \<le> x \<and> x < 2147483648"

definition i64 :: "int \<Rightarrow> bool" where
  "i64 x \<longleftrightarrow> -9223372036854775808 \<le> x \<and> x < 9223372036854775808"

definition tm_digits :: "tm \<Rightarrow> bool" where
  "tm_digits t \<longleftrightarrow> 0 \<le> tm_year t + 1900 \<and> tm_year t + 1900 < 10000 \<and> (\<forall>x\<in>{tm_mon t + 1, tm_mday t, tm_hour t, tm_min t, tm_sec t}. 0 \<le> x \<and> x < 100)"

text \<open>The values shown lie within the types of their variables.\<close>

definition status_range :: "tm \<Rightarrow> int \<Rightarrow> int \<Rightarrow> pps \<Rightarrow> bool" where
  "status_range t now_m diag st \<longleftrightarrow> tm_digits t
     \<and> (\<forall>x\<in>{age_s now_m (last_sample_mono st), last_off_us st, diag, age_s now_m (g_gga_mono (rx st))}. i64 x)
     \<and> (\<forall>x\<in>{sec_gated st, sec_noedge st, sec_noanchor st, sec_badtod st, anchor_seq st, strike st, forced_resets st,
           g_rx_fix (rx st), g_rx_sats (rx st)}. i32 x)
     \<and> (\<forall>k. i32 (g_sats (rx st) k))"

lemma dec_int_length32: "i32 x \<Longrightarrow> length (dec_int x) \<le> 11"
  using dec_int_length [of x 10] by (simp add: i32_def abs_less_iff)

lemma dec_int_length64: "i64 x \<Longrightarrow> length (dec_int x) \<le> 20"
  using dec_int_length [of x 19] by (simp add: i64_def abs_less_iff)

lemma fmt_0d_length: "0 \<le> x \<Longrightarrow> x < 10 ^ k \<Longrightarrow> 0 < k \<Longrightarrow> length (fmt_0d k x) = k"
  using dec_nat_length [of "nat x" k] by (auto simp: fmt_0d_def pad0_def nat_less_iff)

lemma kv_length [simp]: "length (kv k v) = length k + length v + 2"
  by (simp add: kv_def)

lemma status_appends: "length s + sum_list (map (\<lambda>(k, v). length (kv k v)) xs) < 640 \<Longrightarrow>
  fold status_append xs (s, [], 640 - length s)
    = (s @ concat (map (\<lambda>(k, v). kv k v) xs), [], 640 - length (s @ concat (map (\<lambda>(k, v). kv k v) xs)))"
proof (induction xs arbitrary: s)
  case (Cons x xs)
  obtain k v where x: "x = (k, v)" by (cases x)
  have "status_append x (s, [], 640 - length s) = (s @ kv k v, [], 640 - length (s @ kv k v))"
    using Cons.prems by (simp add: status_append_def x Let_def)
  with Cons.IH [of "s @ kv k v"] Cons.prems show ?case by (simp add: x)
qed simp

lemma concat_kv_length: "length (concat (map (\<lambda>(k, v). kv k v) xs)) = sum_list (map (\<lambda>(k, v). length (kv k v)) xs)"
  by (induction xs) (auto split: prod.split)

lemma status_text_whole:
  assumes "status_range t now_m diag st"
  shows "status_text (status_head t now_m diag fresh st) (status_sats now_m st)
    = Some (concat (map (\<lambda>(k, v). kv k v) (status_head t now_m diag fresh st @ status_sats now_m st)))"
proof -
  define len where "len = (\<lambda>xs :: (string \<times> string) list. sum_list (map (\<lambda>(k, v). length (kv k v)) xs))"
  note r = assms [unfolded status_range_def tm_digits_def]
  have k: "i32 (sats_of now_m k st)" for k using r by (simp add: sats_of_def i32_def)
  have one: "length (dec_int (if b then 1 else 0)) = 1" for b by (simp add: dec_int_def dec_nat.simps)
  have ts: "length (fmt_0d 4 (tm_year t + 1900)) = 4" "length (fmt_0d 2 (tm_mon t + 1)) = 2" "length (fmt_0d 2 (tm_mday t)) = 2"
    "length (fmt_0d 2 (tm_hour t)) = 2" "length (fmt_0d 2 (tm_min t)) = 2" "length (fmt_0d 2 (tm_sec t)) = 2"
    using r by (auto intro!: fmt_0d_length)
  have w32: "length (dec_int (sec_gated st)) \<le> 11" "length (dec_int (sec_noedge st)) \<le> 11" "length (dec_int (sec_noanchor st)) \<le> 11"
    "length (dec_int (sec_badtod st)) \<le> 11" "length (dec_int (anchor_seq st)) \<le> 11" "length (dec_int (strike st)) \<le> 11"
    "length (dec_int (forced_resets st)) \<le> 11" "length (dec_int (g_rx_fix (rx st))) \<le> 11" "length (dec_int (g_rx_sats (rx st))) \<le> 11"
    using r by (auto intro!: dec_int_length32)
  have w64: "length (dec_int (age_s now_m (last_sample_mono st))) \<le> 20" "length (dec_int (last_off_us st)) \<le> 20"
    "length (dec_int diag) \<le> 20" "length (dec_int (age_s now_m (g_gga_mono (rx st)))) \<le> 20"
    using r by (auto intro!: dec_int_length64)
  have hd: "len (status_head t now_m diag fresh st) \<le> 450"
    using ts w32 w64 one unfolding status_head_def len_def Let_def by simp
  have "len (status_sats now_m st) \<le> 130"
    using dec_int_length32 [OF k, of GPS] dec_int_length32 [OF k, of BDS] dec_int_length32 [OF k, of GLO] dec_int_length32 [OF k, of GAL]
      dec_int_length32 [OF k, of QZSS] dec_int_length32 [OF k, of SBAS]
    unfolding status_sats_def len_def by simp
  with hd show ?thesis
    unfolding status_text_def Let_def
    by (subst status_appends) (simp_all add: concat_kv_length len_def)
qed

text \<open>The status buffer of 640 bytes is never overrun and never cuts a line: with every value in
  the range of its type the text is exactly the lines of all 23 entries.\<close>

theorem status_fits:
  assumes "status_range t now_m diag st"
  shows "status_text (status_head t now_m diag fresh st) (status_sats now_m st)
    = Some (concat (map (\<lambda>(k, v). kv k v) (status_head t now_m diag fresh st @ status_sats now_m st)))"
  by (rule status_text_whole [OF assms])

section \<open>Runs at concrete inputs\<close>

definition run_cfg :: cfg where
  "run_cfg = cfg_default\<lparr>strike_max := 2\<rparr>"

text \<open>Second \<open>n\<close> of the run: the monotonic clock shows 1000 s + \<open>n\<close>, the system clock the reference plus
  \<open>lag\<close> seconds.\<close>

definition run_clk :: "int \<Rightarrow> int \<Rightarrow> clocks" where
  "run_clk lag n = \<lparr>mono = (\<lambda>k. (1000 + n) * 1000000000 + 100000000 + int k),
     real_ns = (\<lambda>k. (1767225600 + n + lag) * 1000000000 + 100000000 + int k), mraw = (\<lambda>k. (1000 + n) * 1000000000 + int k), wall = (\<lambda>k. 1767225600 + n)\<rparr>"

definition run_line :: "nat \<Rightarrow> string" where
  "run_line n = ''$GNZDA,0000'' @ fmt_0d 2 (int n) @ ''.00,01,01,2026,00,00*00''"

definition run_start :: pps where
  "run_start = pps_init (run_clk 0 0)"

text \<open>Three sentences, an edge with the system clock 100 s ahead, and a pass of the coarse step.\<close>

definition run_far :: "pps option" where
  "run_far = do {
     s1 \<leftarrow> handle_line run_cfg (run_clk 100 1) (run_line 1) run_start;
     s2 \<leftarrow> handle_line run_cfg (run_clk 100 2) (run_line 2) s1;
     s3 \<leftarrow> handle_line run_cfg (run_clk 100 3) (run_line 3) s2;
     s4 \<leftarrow> edge_section run_cfg (run_clk 100 4) ((1767225604 + 100) * 1000000000) s3;
     Some (coarse_section run_cfg (run_clk 100 5) s4) }"

text \<open>The same with a right clock and no coarse step.\<close>

definition run_near :: "pps option" where
  "run_near = do {
     s1 \<leftarrow> handle_line run_cfg (run_clk 0 1) (run_line 1) run_start;
     edge_section run_cfg (run_clk 0 2) (1767225602 * 1000000000) s1 }"

lemma case_some: "(case x of None \<Rightarrow> a | Some s \<Rightarrow> f s) = y \<Longrightarrow> x = Some z \<Longrightarrow> f z = y"
  and case_none: "(case x of None \<Rightarrow> a | Some s \<Rightarrow> f s) = y \<Longrightarrow> a \<noteq> y \<Longrightarrow> \<exists>z. x = Some z"
  by (auto split: option.splits)

lemma run_far_result: "(case run_far of None \<Rightarrow> [] | Some s \<Rightarrow> steps s) = [(1005100000005, 1767225603, 0)]"
  by code_simp

lemma run_clk_ok: "t \<le> (1000 + n) * 1000000000 + 100000000 \<Longrightarrow> clk_ok t (run_clk lag n)"
  by (simp add: clk_ok_def run_clk_def)

lemma run_mono: "mono (run_clk lag n) k = (1000 + n) * 1000000000 + 100000000 + int k"
  by (simp add: run_clk_def)

lemma run_line_step:
  "pps_reach w c (t, s) \<Longrightarrow> t \<le> (1000 + n) * 1000000000 + 100000000 \<Longrightarrow> handle_line c (run_clk lag n) l s = Some s'
    \<Longrightarrow> pps_reach w c ((1000 + n) * 1000000000 + 100000030, s')"
  using pps_reach.step [OF _ pps_step.line [OF run_clk_ok]] by (fastforce simp: run_mono)

lemma run_edge_step:
  "pps_reach w c (t, s) \<Longrightarrow> t \<le> (1000 + n) * 1000000000 + 100000000 \<Longrightarrow> edge_section c (run_clk lag n) ts s = Some s'
    \<Longrightarrow> pps_reach w c ((1000 + n) * 1000000000 + 100000030, s')"
  using pps_reach.step [OF _ pps_step.edge [OF run_clk_ok]] by (fastforce simp: run_mono)

lemma run_coarse_step:
  assumes "pps_reach w c (t, s)" "t \<le> (1000 + n) * 1000000000 + 100000000" "coarse_enabled c" "\<not> pair_locked s"
  shows "pps_reach w c ((1000 + n) * 1000000000 + 100000030, coarse_section c (run_clk lag n) s)"
proof -
  obtain s2 d where d: "coarse_decide c (coarse_read (run_clk lag n) s) (run_clk lag n) s = (s2, d)" by fastforce
  have "pps_step w c (t, s) (mono (run_clk lag n) 30, coarse_commit (anchor_seq s) d s2)"
    by (rule pps_step.coarse [OF run_clk_ok [OF assms(2)] assms(3,4) serial_run.none _ d serial_run.none]) (simp_all add: run_mono)
  from pps_reach.step [OF assms(1) this] show ?thesis by (simp add: coarse_section_def d run_mono)
qed

lemma run_start_reach: "pps_reach w c (1000100000001, run_start)"
  using pps_reach.start [OF run_clk_ok, of 0 w c 0] by (simp add: run_start_def run_mono)

lemma run_far_reach: "run_far = Some st \<Longrightarrow> pps_reach w run_cfg (1005100000030, st)"
proof -
  assume "run_far = Some st"
  then obtain s1 s2 s3 s4 where s: "handle_line run_cfg (run_clk 100 1) (run_line 1) run_start = Some s1"
    "handle_line run_cfg (run_clk 100 2) (run_line 2) s1 = Some s2" "handle_line run_cfg (run_clk 100 3) (run_line 3) s2 = Some s3"
    "edge_section run_cfg (run_clk 100 4) ((1767225604 + 100) * 1000000000) s3 = Some s4" "st = coarse_section run_cfg (run_clk 100 5) s4"
    by (auto simp: run_far_def bind_eq_Some_conv)
  have c: "coarse_enabled run_cfg" "\<not> mode_ntp run_cfg" by (simp_all add: run_cfg_def cfg_default_def)
  have l: "\<not> pair_locked s4"
    using line_frame(2) [OF s(1)] line_frame(2) [OF s(2)] line_frame(2) [OF s(3)] edge_frame(2) [OF s(4) c(2)]
    by (simp add: run_start_def pps_init_def)
  note r1 = run_line_step [OF run_start_reach _ s(1), simplified]
  note r2 = run_line_step [OF r1 _ s(2), simplified]
  note r3 = run_line_step [OF r2 _ s(3), simplified]
  have r4: "pps_reach w run_cfg (1004100000030, s4)" using run_edge_step [OF r3 _ s(4)] by simp
  show ?thesis using run_coarse_step [OF r4, of 5 100] c(1) l by (simp add: s(5))
qed

theorem clock_steps_bounded_witness:
  "\<exists>st. run_far = Some st \<and> steps st = [(1005100000005, 1767225603, 0)] \<and> forced_resets st \<le> 6
    \<and> (\<forall>a. int (length (filter (\<lambda>s. a \<le> fst s \<and> fst s < a + 3600000000000) (steps st))) \<le> 2 * 6)"
proof -
  obtain st where st: "run_far = Some st" using case_none [OF run_far_result] by auto
  note st = st case_some [OF run_far_result st]
  have x: "reset_max run_cfg = 6" by (simp add: run_cfg_def cfg_default_def)
  note b = clock_steps_bounded [OF run_far_reach [OF st(1)], unfolded x]
  show ?thesis
    by (intro exI [of _ st] conjI st b [THEN conjunct2, THEN conjunct2] b [THEN conjunct2, THEN conjunct1]) simp_all
qed

lemma run_near_result: "(case run_near of None \<Rightarrow> 0 | Some s \<Rightarrow> clock_sec (shm s)) = 1767225602
    \<and> (case run_near of None \<Rightarrow> 0 | Some s \<Rightarrow> shm_valid (shm s)) = 1"
  by code_simp

lemma run_near_reach: "run_near = Some st \<Longrightarrow> pps_reach w run_cfg (1002100000030, st)"
proof -
  assume "run_near = Some st"
  then obtain s1 where s: "handle_line run_cfg (run_clk 0 1) (run_line 1) run_start = Some s1"
    "edge_section run_cfg (run_clk 0 2) (1767225602 * 1000000000) s1 = Some st"
    by (auto simp: run_near_def bind_eq_Some_conv)
  note r1 = run_line_step [OF run_start_reach _ s(1), simplified]
  show ?thesis using run_edge_step [OF r1 _ s(2)] by simp
qed

theorem shm_samples_sound_witness:
  "\<exists>st. run_near = Some st \<and> clock_sec (shm st) = 1767225602 \<and> shm_valid (shm st) = 1 \<and> shm_ok (shm st)"
proof -
  obtain st where st: "run_near = Some st" using case_none [OF run_near_result [THEN conjunct1]] by auto
  note st = st case_some [OF run_near_result [THEN conjunct1] st] case_some [OF run_near_result [THEN conjunct2] st]
  with shm_samples_sound [OF run_near_reach [OF st(1)]] show ?thesis by blast
qed

text \<open>The system clock one second ahead: the sample says so was right.\<close>

definition ahead_state :: pps where
  "ahead_state = run_start\<lparr>ts_is_realtime := 1, anchor_valid := True, anchor_S := 1767225600, anchor_mono := 1000100000000\<rparr>"

theorem edge_second_witness:
  "let st' = edge_tod run_cfg (run_clk 1 1) (1767225602 * 1000000000) ahead_state in
    clock_sec (shm st') = anchor_S ahead_state + 2 \<and> strike st' = 0 \<and> sec_gated st' = 0"
proof -
  have s: "ts_is_realtime ahead_state = 1" "strike ahead_state = 0" "anchor_S ahead_state = 1767225600" "edge_count ahead_state = 0"
    "sec_gated ahead_state = 0" by (simp_all add: ahead_state_def run_start_def pps_init_def)
  have r: "s_round (1767225602 * 1000000000) = 1767225602" by (simp add: s_round_def cmod_def)
  show ?thesis
    using edge_second [of ahead_state "1767225602 * 1000000000" run_cfg "run_clk 1 1"] unfolding Let_def s r by (simp add: s shm_write_eq)
qed



theorem tod_mode_never_blocks_witness:
  "\<forall>w. \<exists>st' more. gpio_iter w run_cfg (run_clk 1 1) (PollEvent 1 (1767225602 * 1000000000)) ahead_state = Some (st', more) \<and> \<not> pair_locked st'"
  using tod_mode_never_blocks [of run_cfg ahead_state _ "run_clk 1 1" "PollEvent 1 (1767225602 * 1000000000)"]
  by (simp add: run_cfg_def cfg_default_def ahead_state_def run_start_def pps_init_def)

theorem ntp_mode_deadlock_witness:
  "\<forall>w. \<exists>st'. gpio_iter w (run_cfg\<lparr>mode_ntp := True\<rparr>) (run_clk 0 1) (PollEvent 1 (1767225601 * 1000000000 + 500000000)) ahead_state = Some (st', True)
    \<and> (\<forall>w' ck' pr. gpio_iter w' (run_cfg\<lparr>mode_ntp := True\<rparr>) ck' pr st' = None)"
proof
  fix w :: fs_env
  have r: "(1767225601 * 1000000000 + 500000000) mod 1000000000 = (500000000 :: int)" by simp
  show "\<exists>st'. gpio_iter w (run_cfg\<lparr>mode_ntp := True\<rparr>) (run_clk 0 1) (PollEvent 1 (1767225601 * 1000000000 + 500000000)) ahead_state = Some (st', True)
    \<and> (\<forall>w' ck' pr. gpio_iter w' (run_cfg\<lparr>mode_ntp := True\<rparr>) ck' pr st' = None)"
    using ntp_mode_deadlock [of "run_cfg\<lparr>mode_ntp := True\<rparr>" ahead_state "1767225601 * 1000000000 + 500000000" 1 w "run_clk 0 1"] r
    by (simp add: run_cfg_def cfg_default_def ahead_state_def run_start_def pps_init_def) blast
qed

theorem serial_framing_witness:
  "serial_bytes run_cfg (\<lambda>_. run_clk 0 1) (concat (map (\<lambda>l. l @ [CHR 0x0A]) [run_line 1, ''$GNGGA''])) ([], run_start)
    = map_option (Pair []) (line_run run_cfg (\<lambda>_. run_clk 0 1) [run_line 1, ''$GNGGA''] run_start)"
proof -
  have "run_line 1 = ''$GNZDA,000001.00,01,01,2026,00,00*00''" by code_simp
  then show ?thesis by (intro serial_framing) simp
qed

theorem main_starts_witness:
  "\<exists>c. pps_main (\<lambda>_. True) (\<lambda>_. True) 0 [(CHR ''X'', ''0''), (CHR ''M'', ''5''), (CHR ''M'', ''7'')] = Inr c \<and> reset_max c = 1 \<and> strike_max c = 7"
proof -
  have n: "atoi ''0'' = 0" "atoi ''7'' = 7" by code_simp+
  show ?thesis
    unfolding main_starts [of "\<lambda>_. True" "\<lambda>_. True" 0] Let_def
    by (simp add: known_opts_def cfg_of_def args_def last_of_def n)
qed

theorem status_fits_witness:
  "status_text (status_head (sample_tm 0) 1000200000000 0 False run_start) (status_sats 1000200000000 run_start)
    = Some (concat (map (\<lambda>(k, v). kv k v) (status_head (sample_tm 0) 1000200000000 0 False run_start @ status_sats 1000200000000 run_start)))"
  by (rule status_fits) (simp add: status_range_def tm_digits_def sample_tm_def run_start_def pps_init_def rx_init_def age_s_def i32_def i64_def)

end
