(* ===== verification/Window.thy ===== *)
theory Window
  imports Main
begin

text \<open>
  Counters over a sliding window of time: an array of \<open>n\<close> slots holds one count per unit of time,
  slot \<open>t mod n\<close> for time \<open>t\<close>, and is cleared as time goes on.  The contract \<open>window_counter\<close> says what
  such a counter shows for each time after any chronological sequence of events.
\<close>

section \<open>The contract\<close>

locale window_counter =
  fixes now :: "'s \<Rightarrow> int" and get :: "'s \<Rightarrow> int \<Rightarrow> 'c::comm_monoid_add" and ok :: "'s \<Rightarrow> bool"
    and put :: "'e \<Rightarrow> 's \<Rightarrow> 's" and at :: "'e \<Rightarrow> int" and amount :: "'e \<Rightarrow> 'c" and span :: int
  assumes put_ok: "ok s \<Longrightarrow> now s \<le> at e \<Longrightarrow> ok (put e s)"
    and put_now: "ok s \<Longrightarrow> now s \<le> at e \<Longrightarrow> now (put e s) = at e"
    and put_get: "ok s \<Longrightarrow> now s \<le> at e \<Longrightarrow> at e - span < j \<Longrightarrow> get (put e s) j = get s j + (if j = at e then amount e else 0)"
    and get_out: "ok s \<Longrightarrow> j \<le> now s - span \<or> now s < j \<Longrightarrow> get s j = 0"
begin

fun chrono :: "int \<Rightarrow> 'e list \<Rightarrow> bool" where
  "chrono t [] = True"
| "chrono t (e # es) = (t \<le> at e \<and> chrono (at e) es)"

definition total_at :: "int \<Rightarrow> 'e list \<Rightarrow> 'c" where
  "total_at j es = sum_list (map (\<lambda>e. if at e = j then amount e else 0) es)"

lemma fold_ok: "ok s \<Longrightarrow> chrono (now s) es \<Longrightarrow> ok (fold put es s) \<and> now s \<le> now (fold put es s)"
proof (induction es arbitrary: s)
  case (Cons e es)
  then have "ok (put e s)" "now (put e s) = at e" by (simp_all add: put_ok put_now)
  with Cons.IH [of "put e s"] Cons.prems show ?case by auto
qed simp

lemma fold_get:
  assumes "ok s" "chrono (now s) es" "now (fold put es s) - span < j"
  shows "get (fold put es s) j = get s j + total_at j es"
  using assms
proof (induction es arbitrary: s)
  case (Cons e es)
  then have k: "ok (put e s)" "now (put e s) = at e" by (simp_all add: put_ok put_now)
  with Cons.prems have "at e \<le> now (fold put es (put e s))" using fold_ok [of "put e s" es] by simp
  with Cons.prems have j: "at e - span < j" by simp
  have "get (fold put es (put e s)) j = get (put e s) j + total_at j es"
    using Cons.IH [of "put e s"] Cons.prems k by simp
  then show ?case using put_get [OF Cons.prems(1) _ j] Cons.prems(2) by (simp add: total_at_def add.assoc)
qed (simp add: total_at_def)

lemma from_zero:
  assumes "ok s" "chrono (now s) es" "\<And>j. get s j = 0"
  shows "get (fold put es s) j = (if now (fold put es s) - span < j then total_at j es else 0)"
  using fold_get [OF assms(1,2)] fold_ok [OF assms(1,2)] get_out assms(3) by simp

lemma total_over: "finite J \<Longrightarrow> (\<Sum>j\<in>J. total_at j es) = sum_list (map (\<lambda>e. if at e \<in> J then amount e else 0) es)"
  by (induction es) (simp_all add: total_at_def sum.distrib)

lemma window_total:
  assumes "ok s" "chrono (now s) es" "\<And>j. get s j = 0" "now (fold put es s) \<le> m" "k \<le> span"
  shows "(\<Sum>j\<in>{m - k<..m}. get (fold put es s) j) = sum_list (map (\<lambda>e. if m - k < at e \<and> at e \<le> m then amount e else 0) es)"
proof -
  have "(\<Sum>j\<in>{m - k<..m}. get (fold put es s) j) = (\<Sum>j\<in>{m - k<..m}. total_at j es)"
    using from_zero [OF assms(1-3)] assms(4,5) by (intro sum.cong) auto
  then show ?thesis by (simp add: total_over)
qed

end

section \<open>Arrays used as windows\<close>

definition slot_of :: "int \<Rightarrow> int \<Rightarrow> nat" where
  "slot_of n t = nat (t mod n)"

definition ring_get :: "int \<Rightarrow> 'a::zero list \<Rightarrow> int \<Rightarrow> int \<Rightarrow> 'a" where
  "ring_get n arr newest t = (if t \<le> newest \<and> newest - t < n then arr ! slot_of n t else 0)"

definition ring_clear :: "int \<Rightarrow> int \<Rightarrow> int \<Rightarrow> 'a::zero list \<Rightarrow> 'a list" where
  "ring_clear n newest d arr = fold (\<lambda>k a. a[slot_of n (newest + k) := 0]) [1..d] arr"

lemma slot_of_less: "0 < n \<Longrightarrow> slot_of n t < nat n"
  by (simp add: slot_of_def nat_less_iff)

lemma slot_of_eq: "0 < n \<Longrightarrow> slot_of n t = slot_of n u \<Longrightarrow> \<bar>t - u\<bar> < n \<Longrightarrow> t = u"
proof -
  assume n: "0 < n" and e: "slot_of n t = slot_of n u" and d: "\<bar>t - u\<bar> < n"
  have "t mod n = u mod n" using e n by (simp add: slot_of_def nat_eq_iff2)
  then have "n dvd (t - u)" by (simp add: mod_eq_dvd_iff)
  then show ?thesis using d n zdvd_imp_le [of n "\<bar>t - u\<bar>"] by (cases "t = u") auto
qed

lemma slot_of_add: "slot_of n (t + n) = slot_of n t"
  by (simp add: slot_of_def)

lemma length_fold_clear [simp]: "length (fold (\<lambda>k a. a[f k := c]) ks arr) = length arr"
  by (induction ks arbitrary: arr) simp_all

lemma length_ring_clear [simp]: "length (ring_clear n newest d arr) = length arr"
  by (simp add: ring_clear_def)

lemma nth_fold_clear: "i < length arr \<Longrightarrow> fold (\<lambda>k a. a[f k := c]) ks arr ! i = (if \<exists>k\<in>set ks. f k = i then c else arr ! i)"
  by (induction ks arbitrary: arr) (auto simp: nth_list_update)

lemma nth_ring_clear:
  "i < length arr \<Longrightarrow> ring_clear n newest d arr ! i = (if \<exists>k\<in>{1..d}. slot_of n (newest + k) = i then 0 else arr ! i)"
  unfolding ring_clear_def by (subst nth_fold_clear) simp_all

lemma ring_advance_get:
  assumes n: "0 < n" "length arr = nat n" and d: "0 \<le> d" "t \<le> newest + d" "newest + d - t < n"
  shows "ring_clear n newest (if d > n then n else d) arr ! slot_of n t = ring_get n arr newest t"
proof -
  have i: "slot_of n t < length arr" using slot_of_less n by simp
  let ?d = "if d > n then n else d"
  show ?thesis
  proof (cases "t \<le> newest")
    case True
    have "slot_of n (newest + k) \<noteq> slot_of n t" if "k \<in> {1..?d}" for k
      using slot_of_eq [OF n(1), of "newest + k" t] that True d by (auto split: if_splits)
    then have "ring_clear n newest ?d arr ! slot_of n t = arr ! slot_of n t" by (simp only: nth_ring_clear [OF i]) auto
    then show ?thesis using True d by (simp add: ring_get_def)
  next
    case False
    have "\<exists>k\<in>{1..?d}. slot_of n (newest + k) = slot_of n t"
    proof (cases "d > n")
      case True
      define k where "k = (t - newest - 1) mod n + 1"
      have "0 \<le> (t - newest - 1) mod n" "(t - newest - 1) mod n < n" using n by simp_all
      then have "k \<in> {1..n}" unfolding k_def by simp
      moreover have "(newest + k) mod n = t mod n" using mod_add_right_eq [of "newest + 1" "t - newest - 1" n] by (simp add: k_def ac_simps)
      ultimately show ?thesis using True by (intro bexI [of _ k]) (simp_all add: slot_of_def)
    next
      case no: False
      with False d show ?thesis by (intro bexI [of _ "t - newest"]) auto
    qed
    then show ?thesis using False by (simp only: nth_ring_clear [OF i]) (simp add: ring_get_def)
  qed
qed

lemma ring_get_advance:
  assumes "0 < n" "length arr = nat n" "newest \<le> m" "m - n < t"
  shows "ring_get n (ring_clear n newest (if m - newest > n then n else m - newest) arr) m t = ring_get n arr newest t"
  using ring_advance_get [of n arr "m - newest" t newest] assms by (auto simp: ring_get_def)

lemma ring_get_update:
  assumes "0 < n" "length arr = nat n" "m - n < t"
  shows "ring_get n (arr[slot_of n m := x]) m t = (if t = m then x else ring_get n arr m t)"
  using assms slot_of_less [of n m] slot_of_eq [of n m t] by (auto simp: ring_get_def nth_list_update)

end
