(* ===== verification/NicMon.thy ===== *)
theory NicMon
  imports Window Host Json "HOL-Library.Multiset"
begin

text \<open>
  The NTP service monitor \<open>ntp_nic_monitor.c\<close>: per-interface counters over sliding windows, the table of
  clients, the packet filter of the capture loop, the iptables response counters, the JSON snapshot
  and the main loop.  \<open>%\<close> is \<open>mod\<close> here: times are not negative, and the minute or second that starts a
  window (\<open>bucket_sum\<close>, \<open>ring_tail\<close>, \<open>sec_tail\<close>) is not either unless the clock shows the first day of 1970,
  when the code reads before its array and the model does not follow it.  The iptables program, the
  received packets and the interface numbers are parameters; a board with little-endian words is
  taken, as the code keeps addresses in network order in an integer.
\<close>

unbundle bit_operations_syntax

section \<open>State\<close>

record ClientEnt =
  ce_used :: bool
  ce_ifindex :: int
  ce_ip :: u32
  ce_req :: u64
  ce_valid :: u64
  ce_last :: int

record NicStat =
  ns_name :: string
  ns_ifindex :: int
  ns_req :: u64
  ns_valid :: u64
  ns_rsp :: u64
  ns_ipt_rule :: u64
  ns_ipt_last :: u64
  ns_bucket :: "u32 list"
  ns_vbucket :: "u32 list"
  ns_rbucket :: "u32 list"
  ns_bucket_min :: int
  ns_sreq :: "u32 list"
  ns_sreq_min :: int

abbreviation BUCKETS :: int where "BUCKETS \<equiv> 1440"
abbreviation SSEC :: int where "SSEC \<equiv> 120"

definition MAX_NICS :: nat where "MAX_NICS = 8"
definition CLIENT_SLOTS :: nat where "CLIENT_SLOTS = 1024"
definition BUCKETS_OUT :: int where "BUCKETS_OUT = 60"
definition CLIENT_TTL :: int where "CLIENT_TTL = 86400"
definition TOP_CLIENTS :: nat where "TOP_CLIENTS = 32"
definition IPT_OUT :: nat where "IPT_OUT = 32768"

definition g_windows :: "(int \<times> string) list" where
  "g_windows = [(60, ''1m''), (3600, ''1h''), (18000, ''5h''), (86400, ''24h'')]"

text \<open>Slots of the interface table are filled in order and never freed: a list.\<close>

record monitor =
  g_nics :: "NicStat list"
  g_clients :: "ClientEnt list"
  mon_log :: "string list"
  last_write :: int
  last_expire :: int
  snapshot :: "string option"

definition client_none :: ClientEnt where
  "client_none = \<lparr>ce_used = False, ce_ifindex = 0, ce_ip = 0, ce_req = 0, ce_valid = 0, ce_last = 0\<rparr>"

definition nic_init :: "string \<Rightarrow> int \<Rightarrow> int \<Rightarrow> NicStat" where
  "nic_init name idx m = \<lparr>ns_name = snprintf_s 16 name, ns_ifindex = idx, ns_req = 0, ns_valid = 0, ns_rsp = 0, ns_ipt_rule = 0, ns_ipt_last = 0,
     ns_bucket = replicate 1440 0, ns_vbucket = replicate 1440 0, ns_rbucket = replicate 1440 0, ns_bucket_min = m,
     ns_sreq = replicate 120 0, ns_sreq_min = 0\<rparr>"

definition mon_init :: monitor where
  "mon_init = \<lparr>g_nics = [], g_clients = replicate 1024 client_none, mon_log = [], last_write = 0, last_expire = 0, snapshot = None\<rparr>"

section \<open>Interfaces\<close>

definition now_min :: "int \<Rightarrow> int" where
  "now_min now = now div 60"

fun nic_slot :: "NicStat list \<Rightarrow> int \<Rightarrow> nat option" where
  "nic_slot [] ifindex = None"
| "nic_slot (ns # nss) ifindex = (if ns_ifindex ns = ifindex then Some 0 else map_option Suc (nic_slot nss ifindex))"

definition add_nic :: "(string \<Rightarrow> int) \<Rightarrow> int \<Rightarrow> string \<Rightarrow> monitor \<Rightarrow> monitor" where
  "add_nic if_nametoindex now name st =
    (if length (g_nics st) \<ge> MAX_NICS then st
     else if list_ex (\<lambda>ns. ns_name ns = name) (g_nics st) then st
     else let idx = if_nametoindex name in
       if idx = 0 then st\<lparr>mon_log := mon_log st @ [''NIC '' @ name @ '': no such interface, skipped'']\<rparr>
       else st\<lparr>g_nics := g_nics st @ [nic_init name idx (now_min now)]\<rparr>)"

section \<open>Clients\<close>

definition client_hash :: "int \<Rightarrow> u32 \<Rightarrow> u32" where
  "client_hash ifindex ip = (word_of_int ifindex * 2654435761) XOR ip"

definition client_slot :: "u32 \<Rightarrow> nat \<Rightarrow> nat" where
  "client_slot h i = unat ((h + word_of_nat i) AND 1023)"

fun client_scan :: "ClientEnt list \<Rightarrow> int \<Rightarrow> u32 \<Rightarrow> nat list \<Rightarrow> nat option" where
  "client_scan tbl ifindex ip [] = None"
| "client_scan tbl ifindex ip (i # is) =
    (let slot = client_slot (client_hash ifindex ip) i in
     if \<not> ce_used (tbl ! slot) then Some slot
     else if ce_ifindex (tbl ! slot) = ifindex \<and> ce_ip (tbl ! slot) = ip then Some slot
     else client_scan tbl ifindex ip is)"

definition client_get :: "int \<Rightarrow> u32 \<Rightarrow> int \<Rightarrow> ClientEnt list \<Rightarrow> (nat \<times> ClientEnt list) option" where
  "client_get ifindex ip now tbl = (case client_scan tbl ifindex ip [0..<CLIENT_SLOTS] of None \<Rightarrow> None
     | Some s \<Rightarrow> Some (s, if ce_used (tbl ! s) then tbl
         else tbl[s := \<lparr>ce_used = True, ce_ifindex = ifindex, ce_ip = ip, ce_req = 0, ce_valid = 0, ce_last = now\<rparr>]))"

definition clients_expire :: "int \<Rightarrow> ClientEnt list \<Rightarrow> ClientEnt list" where
  "clients_expire now tbl = map (\<lambda>c. if ce_used c \<and> now - ce_last c > CLIENT_TTL then c\<lparr>ce_used := False\<rparr> else c) tbl"

definition client_count :: "int \<Rightarrow> u32 \<Rightarrow> bool \<Rightarrow> int \<Rightarrow> ClientEnt list \<Rightarrow> ClientEnt list" where
  "client_count ifindex ip is_valid now tbl = (case client_get ifindex ip now tbl of None \<Rightarrow> tbl
     | Some (s, t) \<Rightarrow> t[s := (t ! s)\<lparr>ce_req := ce_req (t ! s) + 1, ce_valid := ce_valid (t ! s) + (if is_valid then 1 else 0), ce_last := now\<rparr>])"

section \<open>Windows\<close>

definition bucket_advance :: "int \<Rightarrow> NicStat \<Rightarrow> NicStat" where
  "bucket_advance m ns =
    (if m = ns_bucket_min ns then ns
     else let d0 = m - ns_bucket_min ns; d = (if d0 < 0 \<or> d0 > BUCKETS then BUCKETS else d0); bm = ns_bucket_min ns
       in ns\<lparr>ns_bucket := ring_clear BUCKETS bm d (ns_bucket ns), ns_vbucket := ring_clear BUCKETS bm d (ns_vbucket ns),
             ns_rbucket := ring_clear BUCKETS bm d (ns_rbucket ns), ns_bucket_min := m\<rparr>)"

definition bucket_sum :: "u32 list \<Rightarrow> int \<Rightarrow> int \<Rightarrow> int \<Rightarrow> u32" where
  "bucket_sum arr bucket_min m mins0 =
    (let mins = (if mins0 > BUCKETS then BUCKETS else mins0) in
     fold (\<lambda>k s. let bm = m - (mins - 1) + k in
       if bm \<le> bucket_min \<and> bucket_min - bm < BUCKETS then s + arr ! slot_of BUCKETS bm else s) [0..mins - 1] 0)"

definition sec_advance :: "int \<Rightarrow> NicStat \<Rightarrow> NicStat" where
  "sec_advance s ns =
    (if s = ns_sreq_min ns then ns
     else if ns_sreq_min ns \<le> 0 then ns\<lparr>ns_sreq_min := s\<rparr>
     else let d0 = s - ns_sreq_min ns; d = (if d0 < 0 \<or> d0 > SSEC then SSEC else d0)
       in ns\<lparr>ns_sreq := ring_clear SSEC (ns_sreq_min ns) d (ns_sreq ns), ns_sreq_min := s\<rparr>)"

definition bump :: "u32 list \<Rightarrow> nat \<Rightarrow> u32 \<Rightarrow> u32 list" where
  "bump arr i x = arr[i := arr ! i + x]"

text \<open>\<open>account\<close>: the counters of the interface, then the client.\<close>

definition account_nic :: "bool \<Rightarrow> int \<Rightarrow> NicStat \<Rightarrow> NicStat" where
  "account_nic is_valid now ns0 =
    (let m = now div 60; v = (if is_valid then 1 else 0);
         ns1 = bucket_advance m (ns0\<lparr>ns_req := ns_req ns0 + 1, ns_valid := ns_valid ns0 + (if is_valid then 1 else 0)\<rparr>);
         ns2 = ns1\<lparr>ns_bucket := bump (ns_bucket ns1) (slot_of BUCKETS m) 1, ns_vbucket := bump (ns_vbucket ns1) (slot_of BUCKETS m) v\<rparr>;
         ns3 = sec_advance now ns2
     in ns3\<lparr>ns_sreq := bump (ns_sreq ns3) (slot_of SSEC now) 1\<rparr>)"

definition account :: "nat \<Rightarrow> u32 \<Rightarrow> bool \<Rightarrow> int \<Rightarrow> monitor \<Rightarrow> monitor" where
  "account i src_ip is_valid now st =
    (let ns = g_nics st ! i in
     st\<lparr>g_nics := (g_nics st)[i := account_nic is_valid now ns],
        g_clients := client_count (ns_ifindex ns) src_ip is_valid now (g_clients st)\<rparr>)"

section \<open>Capture\<close>

definition ntp_mode3 :: "bytes \<Rightarrow> bool" where
  "ntp_mode3 udp = (if length udp < 1 then False else udp ! 0 AND 7 = 3)"

definition src_addr :: "bytes \<Rightarrow> u32" where
  "src_addr ip = word_of_nat (unat (ip ! 12) + 256 * unat (ip ! 13) + 65536 * unat (ip ! 14) + 16777216 * unat (ip ! 15))"

text \<open>The source and whether the payload is an NTP client request, for an IPv4 UDP packet to port 123.\<close>

definition packet_request :: "bytes \<Rightarrow> (u32 \<times> bool) option" where
  "packet_request buf =
    (let n = length buf in
     if n < 28 \<or> drop_bit 4 (buf ! 0) \<noteq> 4 then None
     else let ihl = unat (buf ! 0 AND 15) * 4 in
       if ihl < 20 \<or> n < ihl + 8 then None
       else if buf ! 9 \<noteq> 17 then None
       else let udp = drop ihl buf; udp_len = n - ihl in
         if udp_len < 8 then None
         else if 256 * unat (udp ! 2) + unat (udp ! 3) \<noteq> 123 then None
         else Some (src_addr buf, ntp_mode3 (drop 8 udp)))"

text \<open>What one turn of the capture loop meets: a set stop flag, an error of \<open>recvfrom\<close>, or a packet
  with its type and interface, at a time.\<close>

datatype recv_error = Eintr | Eagain | Eother string

datatype drain_input = StopSet | RecvError recv_error | Received int int bytes int

definition drain_step :: "drain_input \<Rightarrow> monitor \<Rightarrow> monitor \<times> bool" where
  "drain_step inp st = (case inp of
     StopSet \<Rightarrow> (st, False)
   | RecvError Eintr \<Rightarrow> (st, True)
   | RecvError Eagain \<Rightarrow> (st, False)
   | RecvError (Eother msg) \<Rightarrow> (st\<lparr>mon_log := mon_log st @ [''recvfrom: '' @ msg]\<rparr>, False)
   | Received pkttype ifindex buf now \<Rightarrow>
       if pkttype = 4 then (st, True)
       else (case packet_request buf of None \<Rightarrow> (st, True)
         | Some (src, valid) \<Rightarrow> (case nic_slot (g_nics st) ifindex of None \<Rightarrow> (st, True)
           | Some i \<Rightarrow> (account i src valid now st, True))))"

partial_function (option) capture_drain :: "(nat \<Rightarrow> drain_input) \<Rightarrow> nat \<Rightarrow> monitor \<Rightarrow> (monitor \<times> nat) option" where
  "capture_drain inp k st = (case drain_step (inp k) st of (st', again) \<Rightarrow>
     if again then capture_drain inp (Suc k) st' else Some (st', Suc k))"

section \<open>Response counters\<close>

datatype cmd_result = NoSpawn | Done int string

type_synonym 's ipt = "'s \<Rightarrow> string list \<Rightarrow> 's \<times> cmd_result"

text \<open>\<open>Some (status, text)\<close>, or \<open>None\<close> when the program could not be started.\<close>

definition run_capture :: "'s ipt \<Rightarrow> string list \<Rightarrow> nat \<Rightarrow> 's \<Rightarrow> 's \<times> (int \<times> string) option" where
  "run_capture ipt argv outlen s = (case ipt s argv of (s', NoSpawn) \<Rightarrow> (s', None) | (s', Done rc text) \<Rightarrow> (s', Some (rc, take (outlen - 1) text)))"

definition rule_argv :: "string \<Rightarrow> string \<Rightarrow> string list" where
  "rule_argv op name = [''iptables'', ''-w'', op, ''OUTPUT'', ''-o'', name, ''-p'', ''udp'', ''--sport'', ''123'', ''-j'', ''ACCEPT'']"

definition ipt_setup_nic :: "'s ipt \<Rightarrow> string \<Rightarrow> 's \<times> string list \<Rightarrow> 's \<times> string list" where
  "ipt_setup_nic ipt name x = (case x of (s, log) \<Rightarrow>
     (case run_capture ipt (rule_argv ''-C'' name) 64 s of
        (s1, None) \<Rightarrow> (s1, log)
      | (s1, Some (rc, _)) \<Rightarrow>
        if rc = 0 then (s1, log)
        else (case run_capture ipt (rule_argv ''-I'' name) 64 s1 of
            (s2, None) \<Rightarrow> (s2, log @ [''iptables insert failed for '' @ name])
          | (s2, Some _) \<Rightarrow> (s2, log @ [''counting rule added: OUTPUT -o '' @ name @ '' udp spt:123'']))))"

definition ipt_setup :: "'s ipt \<Rightarrow> NicStat list \<Rightarrow> 's \<times> string list \<Rightarrow> 's \<times> string list" where
  "ipt_setup ipt nics x = fold (\<lambda>ns. ipt_setup_nic ipt (ns_name ns)) nics x"

definition line_tokens :: "string \<Rightarrow> string list" where
  "line_tokens line = strtok (\<lambda>c. c = CHR '' '' \<or> c = CHR 0x09) line"

definition tok_at :: "string list \<Rightarrow> nat \<Rightarrow> string option" where
  "tok_at ts i = (if i < length ts then Some (ts ! i) else None)"

text \<open>\<open>atoll\<close> of the first column when the columns match the counting rule of the interface.\<close>

definition rule_line :: "string \<Rightarrow> string \<Rightarrow> int option" where
  "rule_line nic line = (let ts = line_tokens line in
     if tok_at ts 2 = Some ''ACCEPT'' \<and> tok_at ts 3 = Some ''udp'' \<and> tok_at ts 6 = Some nic
       \<and> list_ex (\<lambda>t. strstr ''spt:123'' t \<noteq> None) (drop 8 ts)
     then Some (strtol10 (ts ! 0)) else None)"

fun first_rule :: "string \<Rightarrow> string list \<Rightarrow> int" where
  "first_rule nic [] = -1"
| "first_rule nic (l # ls) = (case rule_line nic l of Some v \<Rightarrow> v | None \<Rightarrow> first_rule nic ls)"

definition ipt_out_count :: "'s ipt \<Rightarrow> string \<Rightarrow> 's \<Rightarrow> 's \<times> int" where
  "ipt_out_count ipt nic s = (case run_capture ipt [''iptables'', ''-w'', ''-nvx'', ''-L'', ''OUTPUT''] IPT_OUT s of
     (s', None) \<Rightarrow> (s', -1)
   | (s', Some (_, text)) \<Rightarrow> if text = [] then (s', -1) else (s', first_rule nic (strtok (\<lambda>c. c = nl) (cstr text))))"

fun ipt_baseline :: "'s ipt \<Rightarrow> NicStat list \<Rightarrow> 's \<Rightarrow> 's \<times> NicStat list" where
  "ipt_baseline ipt [] s = (s, [])"
| "ipt_baseline ipt (ns # nss) s = (case ipt_out_count ipt (ns_name ns) s of (s1, v) \<Rightarrow>
     (case ipt_baseline ipt nss s1 of (s2, r) \<Rightarrow> (s2, ns\<lparr>ns_ipt_rule := (if v \<ge> 0 then word_of_int v else 0)\<rparr> # r)))"

definition respond :: "u32 \<Rightarrow> int \<Rightarrow> NicStat \<Rightarrow> NicStat" where
  "respond delta now ns = (let m = now div 60; a = bucket_advance m ns
     in a\<lparr>ns_rbucket := bump (ns_rbucket a) (slot_of BUCKETS m) delta\<rparr>)"

definition count_response :: "int \<Rightarrow> int \<Rightarrow> NicStat \<Rightarrow> NicStat" where
  "count_response v now ns =
    (if v < 0 then ns
     else let cur = word_of_int v;
         ns1 = (if ns_ipt_last ns \<noteq> 0 \<and> cur \<ge> ns_ipt_last ns \<and> cur - ns_ipt_last ns \<noteq> 0
           then respond (ucast (cur - ns_ipt_last ns)) now ns else ns);
         ns2 = ns1\<lparr>ns_ipt_last := cur\<rparr>
       in if cur \<ge> ns_ipt_rule ns2 then ns2\<lparr>ns_rsp := cur - ns_ipt_rule ns2\<rparr> else ns2)"

text \<open>\<open>clk\<close> reads the clock when the program has run.\<close>

fun poll_responses :: "'s ipt \<Rightarrow> ('s \<Rightarrow> int) \<Rightarrow> NicStat list \<Rightarrow> 's \<Rightarrow> 's \<times> NicStat list" where
  "poll_responses ipt clk [] s = (s, [])"
| "poll_responses ipt clk (ns # nss) s = (case ipt_out_count ipt (ns_name ns) s of (s1, v) \<Rightarrow>
     (case poll_responses ipt clk nss s1 of (s2, r) \<Rightarrow> (s2, count_response v (clk s1) ns # r)))"

section \<open>The snapshot\<close>

definition dec_u :: "'a::len word \<Rightarrow> string" where
  "dec_u w = dec_nat (unat w)"

definition cmp_client :: "ClientEnt \<Rightarrow> ClientEnt \<Rightarrow> int" where
  "cmp_client x y = (if ce_req x \<noteq> ce_req y then if ce_req x < ce_req y then 1 else -1 else 0)"

text \<open>\<open>inet_ntop\<close> of an address in network byte order.\<close>

definition inet_text :: "u32 \<Rightarrow> string" where
  "inet_text ip = dec_nat (unat (ip AND 255)) @ ''.'' @ dec_nat (unat (drop_bit 8 ip AND 255)) @ ''.''
     @ dec_nat (unat (drop_bit 16 ip AND 255)) @ ''.'' @ dec_nat (unat (drop_bit 24 ip))"

definition window_item :: "NicStat \<Rightarrow> int \<Rightarrow> int \<times> string \<Rightarrow> string" where
  "window_item ns m ws = (case ws of (w, sfx) \<Rightarrow> let mins = w div 60 in
     ''\"req_'' @ sfx @ ''\":'' @ dec_u (bucket_sum (ns_bucket ns) (ns_bucket_min ns) m mins)
     @ '',\"valid_'' @ sfx @ ''\":'' @ dec_u (bucket_sum (ns_vbucket ns) (ns_bucket_min ns) m mins)
     @ '',\"rsp_'' @ sfx @ ''\":'' @ dec_u (bucket_sum (ns_rbucket ns) (ns_bucket_min ns) m mins) @ '','')"

definition ring_tail :: "NicStat \<Rightarrow> int \<Rightarrow> u32 list \<Rightarrow> string list" where
  "ring_tail ns m arr = map (\<lambda>k. let bm = m - (BUCKETS - 1) + k in
     dec_u (if bm \<le> ns_bucket_min ns \<and> ns_bucket_min ns - bm < BUCKETS then arr ! slot_of BUCKETS bm else 0))
     [BUCKETS - BUCKETS_OUT..BUCKETS - 1]"

definition sec_tail :: "NicStat \<Rightarrow> int \<Rightarrow> string list" where
  "sec_tail ns now = map (\<lambda>k. let e = now - (SSEC - 1) + k in
     dec_u (if ns_sreq_min ns > 0 \<and> e \<le> ns_sreq_min ns \<and> ns_sreq_min ns - e < SSEC then ns_sreq ns ! slot_of SSEC e else 0))
     [0..SSEC - 1]"

definition nic_text :: "int \<Rightarrow> NicStat \<Rightarrow> string" where
  "nic_text now ns = (let m = now div 60 in
     ''{\"name\":\"'' @ ns_name ns @ ''\",\"ifindex\":'' @ dec_int (ns_ifindex ns) @ '',\"req\":'' @ dec_u (ns_req ns)
     @ '',\"valid\":'' @ dec_u (ns_valid ns) @ '',\"rsp\":'' @ dec_u (ns_rsp ns) @ '',''
     @ concat (map (window_item ns m) g_windows)
     @ ''\"windows_s\":['' @ comma_join (map (\<lambda>ws. dec_int (fst ws)) g_windows) @ ''],\"buckets\":[''
     @ comma_join (map (\<lambda>arr. ''['' @ comma_join (ring_tail ns m arr) @ '']'') [ns_bucket ns, ns_vbucket ns, ns_rbucket ns])
     @ ''],\"sec\":['' @ comma_join (sec_tail ns now) @ '']}'')"

definition client_text :: "int \<Rightarrow> ClientEnt \<Rightarrow> string" where
  "client_text now c = ''{\"ip\":\"'' @ inet_text (ce_ip c) @ ''\",\"req\":'' @ dec_u (ce_req c) @ '',\"valid\":'' @ dec_u (ce_valid c)
     @ '',\"last_age_s\":'' @ dec_int (now - ce_last c) @ ''}''"

text \<open>\<open>for (i = 0; i < n && emitted < TOP_CLIENTS; i++)\<close>.\<close>

fun top_clients :: "int \<Rightarrow> nat \<Rightarrow> ClientEnt list \<Rightarrow> ClientEnt list" where
  "top_clients ifindex emitted [] = []"
| "top_clients ifindex emitted (c # cs) =
     (if emitted < TOP_CLIENTS then if ce_ifindex c \<noteq> ifindex then top_clients ifindex emitted cs
        else c # top_clients ifindex (emitted + 1) cs
      else [])"

definition clients_text :: "int \<Rightarrow> ClientEnt list \<Rightarrow> NicStat \<Rightarrow> string" where
  "clients_text now srt ns = ''\"'' @ ns_name ns @ ''\":['' @ comma_join (map (client_text now) (top_clients (ns_ifindex ns) 0 srt)) @ '']''"

text \<open>\<open>qsort\<close> leaves the order of equal elements open, so it is an argument.\<close>

type_synonym sorter = "(ClientEnt \<Rightarrow> ClientEnt \<Rightarrow> int) \<Rightarrow> ClientEnt list \<Rightarrow> ClientEnt list"

definition sorted_clients :: "sorter \<Rightarrow> ClientEnt list \<Rightarrow> ClientEnt list" where
  "sorted_clients qsort tbl = (let used = filter ce_used tbl in if length used > 1 then qsort cmp_client used else used)"

definition json_text :: "sorter \<Rightarrow> bool \<Rightarrow> int \<Rightarrow> monitor \<Rightarrow> string" where
  "json_text qsort use_iptables now st = (let srt = sorted_clients qsort (g_clients st) in
     ''{\"ts\":'' @ dec_int now @ '',\"sec_t0\":'' @ dec_int (now - SSEC + 1) @ '',\"nics\":[''
     @ comma_join (map (nic_text now) (g_nics st)) @ ''],\"clients\":{''
     @ comma_join (map (clients_text now srt) (g_nics st)) @ ''},\"clients_total\":'' @ dec_nat (length srt)
     @ '',\"rsp_source\":\"'' @ (if use_iptables then ''iptables'' else ''disabled'') @ ''\"}'')"

text \<open>The temporary file cannot be opened; it is written and renamed; it is written, not renamed.\<close>

datatype file_result = OpenFails string | Renamed | RenameFails string

definition write_json :: "sorter \<Rightarrow> string \<Rightarrow> bool \<Rightarrow> int \<Rightarrow> file_result \<Rightarrow> monitor \<Rightarrow> monitor" where
  "write_json qsort out use_iptables now res st = (case res of
     OpenFails e \<Rightarrow> st\<lparr>mon_log := mon_log st @ [''cannot write '' @ snprintf_s 256 (out @ ''.tmp'') @ '': '' @ e]\<rparr>
   | Renamed \<Rightarrow> st\<lparr>snapshot := Some (json_text qsort use_iptables now st)\<rparr>
   | RenameFails e \<Rightarrow> st\<lparr>mon_log := mon_log st @ [''rename: '' @ e]\<rparr>)"

section \<open>The program\<close>

record nic_cfg =
  out_path :: string
  interval :: int
  use_iptables :: bool
  nics :: string

definition nic_cfg_default :: nic_cfg where
  "nic_cfg_default = \<lparr>out_path = ''/var/db/ntp_nic.json'', interval = 5, use_iptables = True, nics = ''eth0,eth1,eth2,eth3''\<rparr>"

text \<open>Options as \<open>getopt\<close> returns them; \<open>None\<close> is the usage message.\<close>

definition nic_opt :: "char \<times> string \<Rightarrow> nic_cfg \<Rightarrow> nic_cfg option" where
  "nic_opt oa c = (case oa of (opt, optarg) \<Rightarrow>
     if opt = CHR ''f'' then Some (c\<lparr>out_path := optarg\<rparr>)
     else if opt = CHR ''i'' then Some (c\<lparr>interval := (if atoi optarg < 1 then 1 else atoi optarg)\<rparr>)
     else if opt = CHR ''n'' then Some (c\<lparr>nics := optarg\<rparr>)
     else if opt = CHR ''C'' then Some (c\<lparr>use_iptables := False\<rparr>)
     else if opt = CHR ''D'' then Some c
     else None)"

fun nic_opts :: "(char \<times> string) list \<Rightarrow> nic_cfg \<Rightarrow> nic_cfg option" where
  "nic_opts [] c = Some c"
| "nic_opts (oa # oas) c = (case nic_opt oa c of None \<Rightarrow> None | Some c' \<Rightarrow> nic_opts oas c')"

definition nic_names :: "string \<Rightarrow> string list" where
  "nic_names s = map (dropWhile (\<lambda>c. c = CHR '' '')) (strtok (\<lambda>c. c = CHR '','') s)"

text \<open>What the socket calls answer, then the start of the monitor, or its exit code with the log
  (the usage message goes to the error stream).\<close>

datatype sock_result = SockFails string | BindFails string | SockOk

definition nic_start :: "(string \<Rightarrow> int) \<Rightarrow> 's ipt \<Rightarrow> int \<Rightarrow> sock_result \<Rightarrow> (char \<times> string) list \<Rightarrow> 's
    \<Rightarrow> (int \<times> string list, nic_cfg \<times> 's \<times> monitor) sum" where
  "nic_start if_nametoindex ipt now sock opts s = (case nic_opts opts nic_cfg_default of None \<Rightarrow> Inl (2, [])
   | Some c \<Rightarrow> let st = fold (add_nic if_nametoindex now) (nic_names (nics c)) mon_init in
       if g_nics st = [] then Inl (1, mon_log st @ [''no usable interfaces, exiting''])
       else (case sock of SockFails e \<Rightarrow> Inl (1, mon_log st @ [''AF_PACKET socket failed: '' @ e @ '' (need CAP_NET_RAW/root)''])
         | BindFails e \<Rightarrow> Inl (1, mon_log st @ [''bind failed: '' @ e])
         | SockOk \<Rightarrow>
           let log = mon_log st @ [''started: '' @ dec_nat (length (g_nics st)) @ '' nic(s), out='' @ out_path c @ '', interval=''
                 @ dec_int (interval c) @ ''s, rsp_source='' @ (if use_iptables c then ''iptables'' else ''disabled'')] in
           if use_iptables c then
             (case ipt_setup ipt (g_nics st) (s, log) of (s1, log1) \<Rightarrow>
               (case ipt_baseline ipt (g_nics st) s1 of (s2, nss) \<Rightarrow> Inr (c, s2, st\<lparr>g_nics := nss, mon_log := log1\<rparr>)))
           else Inr (c, s, st\<lparr>mon_log := log\<rparr>)))"

text \<open>What one turn of the main loop meets: the stop flag, whether the socket is readable, what the capture loop then
  receives, the clock of the turn, the clock when the snapshot is written, and the fate of its file.\<close>

record turn_in =
  ti_stop :: bool
  ti_ready :: bool
  ti_feed :: "nat \<Rightarrow> drain_input"
  ti_now :: int
  ti_wnow :: int
  ti_file :: file_result

definition write_due :: "sorter \<Rightarrow> 's ipt \<Rightarrow> ('s \<Rightarrow> int) \<Rightarrow> nic_cfg \<Rightarrow> turn_in \<Rightarrow> 's \<times> monitor \<Rightarrow> 's \<times> monitor" where
  "write_due qsort ipt clk c i x = (case x of (s, st) \<Rightarrow>
     if ti_now i - last_write st \<ge> interval c then
       let st1 = st\<lparr>last_write := ti_now i\<rparr>;
           (s2, st2) = (if use_iptables c then (case poll_responses ipt clk (g_nics st1) s of (s2, nss) \<Rightarrow> (s2, st1\<lparr>g_nics := nss\<rparr>)) else (s, st1))
       in (s2, write_json qsort (out_path c) (use_iptables c) (ti_wnow i) (ti_file i) st2)
     else (s, st))"

definition expire_due :: "int \<Rightarrow> monitor \<Rightarrow> monitor" where
  "expire_due now st = (if now - last_expire st \<ge> 60 then st\<lparr>last_expire := now, g_clients := clients_expire now (g_clients st)\<rparr> else st)"

definition nic_turn :: "sorter \<Rightarrow> 's ipt \<Rightarrow> ('s \<Rightarrow> int) \<Rightarrow> nic_cfg \<Rightarrow> turn_in \<Rightarrow> 's \<times> monitor \<Rightarrow> ('s \<times> monitor) option" where
  "nic_turn qsort ipt clk c i x = (case x of (s, st) \<Rightarrow>
     (case (if ti_ready i then map_option fst (capture_drain (ti_feed i) 0 st) else Some st) of
        None \<Rightarrow> None
      | Some st1 \<Rightarrow> (case write_due qsort ipt clk c i (s, st1) of (s2, st2) \<Rightarrow> Some (s2, expire_due (ti_now i) st2))))"

text \<open>The main loop over the turns it meets; the flag tells that it was left.\<close>

fun nic_loop :: "sorter \<Rightarrow> 's ipt \<Rightarrow> ('s \<Rightarrow> int) \<Rightarrow> nic_cfg \<Rightarrow> turn_in list \<Rightarrow> 's \<times> monitor \<Rightarrow> (('s \<times> monitor) \<times> bool) option" where
  "nic_loop qsort ipt clk c [] x = Some (x, False)"
| "nic_loop qsort ipt clk c (i # is) x =
     (if ti_stop i then Some ((fst x, (snd x)\<lparr>mon_log := mon_log (snd x) @ [''exit'']\<rparr>), True)
      else case nic_turn qsort ipt clk c i x of None \<Rightarrow> None | Some y \<Rightarrow> nic_loop qsort ipt clk c is y)"

section \<open>The windows show what happened in them\<close>

text \<open>What happens to an interface: a request, valid or not, or responses, at a time.\<close>

datatype nic_event = Req bool int | Rsp u32 int

fun ev_time :: "nic_event \<Rightarrow> int" where
  "ev_time (Req v t) = t"
| "ev_time (Rsp d t) = t"

fun ev_apply :: "nic_event \<Rightarrow> NicStat \<Rightarrow> NicStat" where
  "ev_apply (Req v t) ns = account_nic v t ns"
| "ev_apply (Rsp d t) ns = respond d t ns"

definition ev_min :: "nic_event \<Rightarrow> int" where
  "ev_min e = ev_time e div 60"

fun ev_reqs :: "nic_event \<Rightarrow> u32" where
  "ev_reqs (Req v t) = 1"
| "ev_reqs (Rsp d t) = 0"

fun ev_valids :: "nic_event \<Rightarrow> u32" where
  "ev_valids (Req v t) = (if v then 1 else 0)"
| "ev_valids (Rsp d t) = 0"

fun ev_rsps :: "nic_event \<Rightarrow> u32" where
  "ev_rsps (Req v t) = 0"
| "ev_rsps (Rsp d t) = d"

definition rings_ok :: "NicStat \<Rightarrow> bool" where
  "rings_ok ns \<longleftrightarrow> length (ns_bucket ns) = 1440 \<and> length (ns_vbucket ns) = 1440 \<and> length (ns_rbucket ns) = 1440"

lemma length_bump [simp]: "length (bump arr i x) = length arr"
  by (simp add: bump_def)

lemma bump_zero: "i < length arr \<Longrightarrow> bump arr i 0 = arr"
  by (simp add: bump_def)

lemma ring_get_bump:
  assumes "0 < n" "length arr = nat n" "m - n < t"
  shows "ring_get n (bump arr (slot_of n m) x) m t = ring_get n arr m t + (if t = m then x else 0)"
  unfolding bump_def using ring_get_update [OF assms] assms(1) by (auto simp: ring_get_def)

lemma bucket_advance_facts:
  assumes "rings_ok ns" "ns_bucket_min ns \<le> m"
  shows "rings_ok (bucket_advance m ns)" "ns_bucket_min (bucket_advance m ns) = m"
    "m - 1440 < t \<Longrightarrow> ring_get 1440 (ns_bucket (bucket_advance m ns)) m t = ring_get 1440 (ns_bucket ns) (ns_bucket_min ns) t"
    "m - 1440 < t \<Longrightarrow> ring_get 1440 (ns_vbucket (bucket_advance m ns)) m t = ring_get 1440 (ns_vbucket ns) (ns_bucket_min ns) t"
    "m - 1440 < t \<Longrightarrow> ring_get 1440 (ns_rbucket (bucket_advance m ns)) m t = ring_get 1440 (ns_rbucket ns) (ns_bucket_min ns) t"
  using assms ring_get_advance [of 1440 _ "ns_bucket_min ns" m t]
  by (auto simp: bucket_advance_def rings_ok_def Let_def)

lemma sec_advance_keeps [simp]: "ns_bucket (sec_advance s ns) = ns_bucket ns" "ns_vbucket (sec_advance s ns) = ns_vbucket ns"
  "ns_rbucket (sec_advance s ns) = ns_rbucket ns" "ns_bucket_min (sec_advance s ns) = ns_bucket_min ns"
  by (simp_all add: sec_advance_def Let_def)

lemma bucket_advance_update [simp]: "bucket_advance m (ns\<lparr>ns_req := a, ns_valid := b\<rparr>) = (bucket_advance m ns)\<lparr>ns_req := a, ns_valid := b\<rparr>"
  by (simp add: bucket_advance_def Let_def)

lemma bucket_advance_keeps [simp]: "ns_sreq (bucket_advance m ns) = ns_sreq ns" "ns_sreq_min (bucket_advance m ns) = ns_sreq_min ns"
  by (simp_all add: bucket_advance_def Let_def)

lemma account_nic_rings:
  "ns_bucket (account_nic v t ns) = bump (ns_bucket (bucket_advance (t div 60) ns)) (slot_of 1440 (t div 60)) 1"
  "ns_vbucket (account_nic v t ns) = bump (ns_vbucket (bucket_advance (t div 60) ns)) (slot_of 1440 (t div 60)) (if v then 1 else 0)"
  "ns_rbucket (account_nic v t ns) = ns_rbucket (bucket_advance (t div 60) ns)"
  "ns_bucket_min (account_nic v t ns) = ns_bucket_min (bucket_advance (t div 60) ns)"
  by (simp_all add: account_nic_def Let_def)

lemma respond_rings:
  "ns_bucket (respond d t ns) = ns_bucket (bucket_advance (t div 60) ns)"
  "ns_vbucket (respond d t ns) = ns_vbucket (bucket_advance (t div 60) ns)"
  "ns_rbucket (respond d t ns) = bump (ns_rbucket (bucket_advance (t div 60) ns)) (slot_of 1440 (t div 60)) d"
  "ns_bucket_min (respond d t ns) = ns_bucket_min (bucket_advance (t div 60) ns)"
  "ns_sreq (respond d t ns) = ns_sreq ns" "ns_sreq_min (respond d t ns) = ns_sreq_min ns"
  by (simp_all add: respond_def Let_def)

lemma ev_ok:
  assumes "rings_ok ns" "ns_bucket_min ns \<le> ev_min e"
  shows "rings_ok (ev_apply e ns) \<and> ns_bucket_min (ev_apply e ns) = ev_min e"
  using assms bucket_advance_facts(1,2) [of ns "ev_min e"]
  by (cases e) (auto simp: ev_min_def rings_ok_def account_nic_rings respond_rings)

lemma ev_get:
  assumes "rings_ok ns" "ns_bucket_min ns \<le> ev_min e" "ev_min e - 1440 < j"
  shows "ring_get 1440 (ns_bucket (ev_apply e ns)) (ev_min e) j = ring_get 1440 (ns_bucket ns) (ns_bucket_min ns) j + (if j = ev_min e then ev_reqs e else 0)"
    "ring_get 1440 (ns_vbucket (ev_apply e ns)) (ev_min e) j = ring_get 1440 (ns_vbucket ns) (ns_bucket_min ns) j + (if j = ev_min e then ev_valids e else 0)"
    "ring_get 1440 (ns_rbucket (ev_apply e ns)) (ev_min e) j = ring_get 1440 (ns_rbucket ns) (ns_bucket_min ns) j + (if j = ev_min e then ev_rsps e else 0)"
proof -
  note f = bucket_advance_facts [OF assms(1,2)]
  then have l: "length (ns_bucket (bucket_advance (ev_min e) ns)) = nat 1440" "length (ns_vbucket (bucket_advance (ev_min e) ns)) = nat 1440"
    "length (ns_rbucket (bucket_advance (ev_min e) ns)) = nat 1440" by (simp_all add: rings_ok_def)
  note g = ring_get_bump [of 1440, OF _ l(1) assms(3)] ring_get_bump [of 1440, OF _ l(2) assms(3)] ring_get_bump [of 1440, OF _ l(3) assms(3)]
  show "ring_get 1440 (ns_bucket (ev_apply e ns)) (ev_min e) j = ring_get 1440 (ns_bucket ns) (ns_bucket_min ns) j + (if j = ev_min e then ev_reqs e else 0)"
    using g(1) f(3) assms(3) by (cases e) (simp_all add: account_nic_rings respond_rings ev_min_def)
  show "ring_get 1440 (ns_vbucket (ev_apply e ns)) (ev_min e) j = ring_get 1440 (ns_vbucket ns) (ns_bucket_min ns) j + (if j = ev_min e then ev_valids e else 0)"
    using g(2) f(4) assms(3) by (cases e) (simp_all add: account_nic_rings respond_rings ev_min_def)
  show "ring_get 1440 (ns_rbucket (ev_apply e ns)) (ev_min e) j = ring_get 1440 (ns_rbucket ns) (ns_bucket_min ns) j + (if j = ev_min e then ev_rsps e else 0)"
    using g(3) f(5) assms(3) by (cases e) (simp_all add: account_nic_rings respond_rings ev_min_def)
qed

interpretation breq: window_counter ns_bucket_min "\<lambda>ns. ring_get 1440 (ns_bucket ns) (ns_bucket_min ns)" rings_ok ev_apply ev_min ev_reqs 1440
  by unfold_locales (simp_all add: ev_ok ev_get(1), auto simp: ring_get_def)

interpretation bval: window_counter ns_bucket_min "\<lambda>ns. ring_get 1440 (ns_vbucket ns) (ns_bucket_min ns)" rings_ok ev_apply ev_min ev_valids 1440
  by unfold_locales (simp_all add: ev_ok ev_get(2), auto simp: ring_get_def)

interpretation brsp: window_counter ns_bucket_min "\<lambda>ns. ring_get 1440 (ns_rbucket ns) (ns_bucket_min ns)" rings_ok ev_apply ev_min ev_rsps 1440
  by unfold_locales (simp_all add: ev_ok ev_get(3), auto simp: ring_get_def)

definition secs_ok :: "NicStat \<Rightarrow> bool" where
  "secs_ok ns \<longleftrightarrow> length (ns_sreq ns) = 120 \<and> (ns_sreq_min ns \<le> 0 \<longrightarrow> ns_sreq ns = replicate 120 0)"

definition sec_get :: "NicStat \<Rightarrow> int \<Rightarrow> u32" where
  "sec_get ns j = (if ns_sreq_min ns > 0 then ring_get 120 (ns_sreq ns) (ns_sreq_min ns) j else 0)"

lemma account_nic_secs:
  "ns_sreq (account_nic v t ns) = bump (ns_sreq (sec_advance t ns)) (slot_of 120 t) 1"
  "ns_sreq_min (account_nic v t ns) = ns_sreq_min (sec_advance t ns)"
  by (simp_all add: account_nic_def sec_advance_def Let_def)

lemma ring_get_zeros: "length arr = nat n \<Longrightarrow> 0 < n \<Longrightarrow> arr = replicate (nat n) 0 \<Longrightarrow> ring_get n arr m t = 0"
  using slot_of_less [of n t] by (simp add: ring_get_def)

lemma sec_advance_facts:
  assumes "secs_ok ns" "ns_sreq_min ns \<le> t" "0 < t"
  shows "length (ns_sreq (sec_advance t ns)) = nat 120" "ns_sreq_min (sec_advance t ns) = t"
    "t - 120 < j \<Longrightarrow> ring_get 120 (ns_sreq (sec_advance t ns)) t j = sec_get ns j"
  using assms ring_get_advance [of 120 "ns_sreq ns" "ns_sreq_min ns" t j] ring_get_zeros [of "ns_sreq ns" 120 t j]
  by (auto simp: sec_advance_def secs_ok_def sec_get_def Let_def)

lemma sec_step:
  assumes "secs_ok ns" "max 1 (ns_sreq_min ns) \<le> t"
  shows "secs_ok (account_nic v t ns)" "ns_sreq_min (account_nic v t ns) = t"
    "t - 120 < j \<Longrightarrow> sec_get (account_nic v t ns) j = sec_get ns j + (if j = t then 1 else 0)"
proof -
  have t: "0 < t" "ns_sreq_min ns \<le> t" using assms(2) by simp_all
  note f = sec_advance_facts [OF assms(1) t(2,1)]
  show "secs_ok (account_nic v t ns)" "ns_sreq_min (account_nic v t ns) = t"
    using f t by (simp_all add: secs_ok_def account_nic_secs)
  show "t - 120 < j \<Longrightarrow> sec_get (account_nic v t ns) j = sec_get ns j + (if j = t then 1 else 0)"
    using f t ring_get_bump [of 120 "ns_sreq (sec_advance t ns)" t j 1] by (simp add: account_nic_secs sec_get_def)
qed

interpretation sreq: window_counter "\<lambda>ns. max 1 (ns_sreq_min ns)" sec_get secs_ok "\<lambda>(v, t). account_nic v t" snd "\<lambda>_. 1" 120
proof (unfold_locales, goal_cases)
  case (1 s e)
  then show ?case using sec_step(1) by (cases e) simp
next
  case (2 s e)
  then show ?case using sec_step(2) by (cases e) simp
next
  case (3 s e j)
  then show ?case using sec_step(3) by (cases e) simp
next
  case (4 s j)
  then show ?case by (auto simp: sec_get_def ring_get_def)
qed

lemma fold_add_if: "fold (\<lambda>k s. if P k then s + f k else s) ks (a :: 'a::comm_monoid_add) = a + sum_list (map (\<lambda>k. if P k then f k else 0) ks)"
  by (induction ks arbitrary: a) (simp_all add: add.assoc)

lemma bucket_sum_total:
  assumes "mins \<le> 1440"
  shows "bucket_sum arr newest m mins = (\<Sum>j\<in>{m - mins<..m}. ring_get 1440 arr newest j)"
proof -
  have "bucket_sum arr newest m mins = sum_list (map (\<lambda>k. ring_get 1440 arr newest (m - (mins - 1) + k)) [0..mins - 1])"
    using assms by (simp add: bucket_sum_def Let_def fold_add_if ring_get_def)
  also have "\<dots> = (\<Sum>k\<in>{0..mins - 1}. ring_get 1440 arr newest (m - (mins - 1) + k))"
    by (simp add: sum_list_distinct_conv_sum_set)
  also have "\<dots> = (\<Sum>j\<in>{m - mins<..m}. ring_get 1440 arr newest j)"
    by (rule sum.reindex_bij_witness [of _ "\<lambda>j. j - (m - (mins - 1))" "\<lambda>k. m - (mins - 1) + k"]) auto
  finally show ?thesis .
qed

fun times_from :: "int \<Rightarrow> nic_event list \<Rightarrow> bool" where
  "times_from t [] = True"
| "times_from t (e # es) = (t \<le> ev_time e \<and> times_from (ev_time e) es)"

fun is_req :: "nic_event \<Rightarrow> bool" where
  "is_req (Req v t) = True"
| "is_req (Rsp d t) = False"

fun is_valid_req :: "nic_event \<Rightarrow> bool" where
  "is_valid_req (Req v t) = v"
| "is_valid_req (Rsp d t) = False"

definition nic_requests :: "nic_event list \<Rightarrow> (bool \<times> int) list" where
  "nic_requests es = map (\<lambda>e. (is_valid_req e, ev_time e)) (filter is_req es)"

lemma times_chrono: "times_from t es \<Longrightarrow> u = t div 60 \<Longrightarrow> breq.chrono u es"
  by (induction es arbitrary: t u) (simp_all add: ev_min_def zdiv_mono1)

lemma times_later: "times_from t es \<Longrightarrow> u \<le> t \<Longrightarrow> times_from u es"
  by (cases es) auto

lemma times_sec_chrono: "times_from t es \<Longrightarrow> u \<le> t \<Longrightarrow> sreq.chrono u (nic_requests es)"
proof (induction es arbitrary: t u)
  case (Cons e es)
  then have k: "times_from (ev_time e) es" "u \<le> ev_time e" by simp_all
  show ?case
    by (cases e) (use k Cons.IH [of "ev_time e" "ev_time e"] Cons.IH [of "ev_time e" u] in \<open>simp_all add: nic_requests_def\<close>)
qed (simp add: nic_requests_def)

lemma account_nic_secs_cong:
  "ns_sreq a = ns_sreq b \<Longrightarrow> ns_sreq_min a = ns_sreq_min b \<Longrightarrow>
   ns_sreq (account_nic v t a) = ns_sreq (account_nic v t b) \<and> ns_sreq_min (account_nic v t a) = ns_sreq_min (account_nic v t b)"
  by (simp add: account_nic_secs sec_advance_def Let_def)

lemma fold_secs:
  "ns_sreq a = ns_sreq b \<Longrightarrow> ns_sreq_min a = ns_sreq_min b \<Longrightarrow>
   ns_sreq (fold ev_apply es a) = ns_sreq (fold (\<lambda>(v, t). account_nic v t) (nic_requests es) b)
   \<and> ns_sreq_min (fold ev_apply es a) = ns_sreq_min (fold (\<lambda>(v, t). account_nic v t) (nic_requests es) b)"
proof (induction es arbitrary: a b)
  case (Cons e es)
  show ?case
  proof (cases e)
    case (Req v t)
    with Cons.IH account_nic_secs_cong [OF Cons.prems] show ?thesis by (simp add: nic_requests_def)
  next
    case (Rsp d t)
    with Cons show ?thesis by (simp add: nic_requests_def respond_rings)
  qed
qed (simp add: nic_requests_def)

lemma sum_list_filter_one: "sum_list (map (\<lambda>x. if P x then 1 else 0) xs) = (of_nat (length (filter P xs)) :: u32)"
  by (induction xs) simp_all

lemma sum_list_guard: "sum_list (map (\<lambda>x. if P x then f x else 0) xs) = sum_list (map f (filter P xs))"
  for f :: "'a \<Rightarrow> 'b::comm_monoid_add"
  by (induction xs) simp_all

lemma nic_init_ok: "rings_ok (nic_init name idx m)" "secs_ok (nic_init name idx m)"
  "ns_bucket_min (nic_init name idx m) = m" "ns_sreq_min (nic_init name idx m) = 0"
  "ring_get 1440 (ns_bucket (nic_init name idx m)) k j = 0" "ring_get 1440 (ns_vbucket (nic_init name idx m)) k j = 0"
  "ring_get 1440 (ns_rbucket (nic_init name idx m)) k j = 0" "sec_get (nic_init name idx m) j = 0"
  using slot_of_less [of 1440 j] by (simp_all add: nic_init_def rings_ok_def secs_ok_def ring_get_def sec_get_def)

definition nic_after :: "string \<Rightarrow> int \<Rightarrow> int \<Rightarrow> nic_event list \<Rightarrow> NicStat" where
  "nic_after name idx t0 es = fold ev_apply es (nic_init name idx (now_min t0))"

lemma nic_after_bounds:
  assumes "times_from t0 es" "\<forall>e\<in>set es. ev_time e \<le> now" "t0 \<le> now"
  shows "ns_bucket_min (nic_after name idx t0 es) \<le> now div 60"
proof -
  have "ns_bucket_min (fold ev_apply es s) \<le> now div 60" if "rings_ok s" "ns_bucket_min s \<le> now div 60" "breq.chrono (ns_bucket_min s) es" for s
    using that assms(2)
  proof (induction es arbitrary: s)
    case (Cons e es)
    have "ev_min e \<le> now div 60" using Cons.prems(4) by (simp add: ev_min_def zdiv_mono1)
    with Cons.IH [of "ev_apply e s"] Cons.prems ev_ok [of s e] show ?case by simp
  qed simp
  then show ?thesis using assms times_chrono [of t0 es "t0 div 60"] by (simp add: nic_after_def nic_init_ok now_min_def zdiv_mono1)
qed

lemma window_sums:
  fixes es name idx t0 now mins
  defines "ns \<equiv> nic_after name idx t0 es"
  assumes "times_from t0 es" "\<forall>e\<in>set es. ev_time e \<le> now" "t0 \<le> now" "mins \<le> 1440"
  shows "bucket_sum (ns_bucket ns) (ns_bucket_min ns) (now div 60) mins = sum_list (map ev_reqs (filter (\<lambda>e. now div 60 - mins < ev_min e) es))"
    "bucket_sum (ns_vbucket ns) (ns_bucket_min ns) (now div 60) mins = sum_list (map ev_valids (filter (\<lambda>e. now div 60 - mins < ev_min e) es))"
    "bucket_sum (ns_rbucket ns) (ns_bucket_min ns) (now div 60) mins = sum_list (map ev_rsps (filter (\<lambda>e. now div 60 - mins < ev_min e) es))"
proof -
  let ?i = "nic_init name idx (now_min t0)"
  have c: "breq.chrono (ns_bucket_min ?i) es" using assms(2) times_chrono [of t0 es "t0 div 60"] by (simp add: nic_init_ok now_min_def)
  note m = nic_after_bounds [OF assms(2-4), of name idx, unfolded nic_after_def]
  have f: "filter (\<lambda>e. now div 60 - mins < ev_min e \<and> ev_min e \<le> now div 60) es = filter (\<lambda>e. now div 60 - mins < ev_min e) es"
    using assms(3) by (intro filter_cong) (auto simp: ev_min_def zdiv_mono1)
  show "bucket_sum (ns_bucket ns) (ns_bucket_min ns) (now div 60) mins = sum_list (map ev_reqs (filter (\<lambda>e. now div 60 - mins < ev_min e) es))"
    using breq.window_total [OF nic_init_ok(1) c nic_init_ok(5) m assms(5)] assms(5)
    by (simp add: bucket_sum_total sum_list_guard f ns_def nic_after_def)
  show "bucket_sum (ns_vbucket ns) (ns_bucket_min ns) (now div 60) mins = sum_list (map ev_valids (filter (\<lambda>e. now div 60 - mins < ev_min e) es))"
    using bval.window_total [OF nic_init_ok(1) c nic_init_ok(6) m assms(5)] assms(5)
    by (simp add: bucket_sum_total sum_list_guard f ns_def nic_after_def)
  show "bucket_sum (ns_rbucket ns) (ns_bucket_min ns) (now div 60) mins = sum_list (map ev_rsps (filter (\<lambda>e. now div 60 - mins < ev_min e) es))"
    using brsp.window_total [OF nic_init_ok(1) c nic_init_ok(7) m assms(5)] assms(5)
    by (simp add: bucket_sum_total sum_list_guard f ns_def nic_after_def)
qed

lemma fold_sec_newest:
  "secs_ok ns \<Longrightarrow> sreq.chrono (max 1 (ns_sreq_min ns)) rs \<Longrightarrow> ns_sreq_min ns \<le> now \<Longrightarrow> \<forall>r\<in>set rs. snd r \<le> now
   \<Longrightarrow> ns_sreq_min (fold (\<lambda>(v, t). account_nic v t) rs ns) \<le> now"
proof (induction rs arbitrary: ns)
  case (Cons r rs)
  obtain v t where r: "r = (v, t)" by fastforce
  with Cons.prems have t: "max 1 (ns_sreq_min ns) \<le> t" "t \<le> now" by simp_all
  note f = sec_step(1,2) [OF Cons.prems(1) t(1), of v]
  have "max 1 t = t" using t(1) by simp
  with Cons.IH [OF f(1)] Cons.prems f(2) t r show ?case by simp
qed simp

lemma sec_values:
  assumes "times_from t0 es" "\<forall>e\<in>set es. ev_time e \<le> now" "t0 \<le> now" "0 < t0" "now - 120 < j"
  shows "sec_get (nic_after name idx t0 es) j = of_nat (length (filter (\<lambda>e. is_req e \<and> ev_time e = j) es))"
proof -
  let ?i = "nic_init name idx (now_min t0)" and ?rs = "nic_requests es" and ?a = "\<lambda>(v, t). account_nic v t"
  have c: "sreq.chrono (max 1 (ns_sreq_min ?i)) ?rs" using times_sec_chrono [OF assms(1), of 1] assms(4) by (simp add: nic_init_ok)
  have "\<forall>r\<in>set ?rs. snd r \<le> now" using assms(2) by (auto simp: nic_requests_def)
  then have n: "ns_sreq_min (fold ?a ?rs ?i) \<le> now"
    using fold_sec_newest [OF nic_init_ok(2) c] assms(3,4) by (simp add: nic_init_ok)
  have e: "sec_get (nic_after name idx t0 es) j = sec_get (fold ?a ?rs ?i) j"
    using fold_secs [of ?i ?i es] by (simp add: sec_get_def nic_after_def)
  have "max 1 (ns_sreq_min (fold ?a ?rs ?i)) - 120 < j" using n assms(3,4,5) by (auto simp: max_def)
  then have "sec_get (nic_after name idx t0 es) j = sreq.total_at j ?rs" using sreq.from_zero [OF nic_init_ok(2) c nic_init_ok(8), of j] e by simp
  also have "\<dots> = of_nat (length (filter (\<lambda>e. is_req e \<and> ev_time e = j) es))"
    by (simp add: sreq.total_at_def sum_list_filter_one nic_requests_def filter_map o_def conj_commute)
  finally show ?thesis .
qed

lemma sum_reqs: "sum_list (map ev_reqs es) = of_nat (length (filter is_req es))"
  "sum_list (map ev_valids es) = of_nat (length (filter is_valid_req es))"
proof (induction es)
  case (Cons e es)
  { case 1 show ?case using Cons by (cases e) simp_all }
  { case 2 show ?case using Cons by (cases e) simp_all }
qed simp_all

text \<open>C13: the windows and the per-second samples show what happened in them.  Start an interface and let
  requests and responses come in the order of time.  At any later moment, \<open>bucket_sum\<close> over the last
  \<open>mins\<close> minutes (at most 1440) is the number of requests, of valid requests and of responses whose
  minute lies in the window, as 32-bit numbers, however long the gaps between the events were; and the
  published value of each of the last 120 seconds is the number of requests of that second.\<close>

theorem windows_show_events:
  assumes "0 < t0" "times_from t0 es" "t0 \<le> now" "\<forall>e\<in>set es. ev_time e \<le> now" "mins \<le> 1440" "k < 120"
  shows "let ns = nic_after name idx t0 es; recent = filter (\<lambda>e. now div 60 - mins < ev_min e) es in
     bucket_sum (ns_bucket ns) (ns_bucket_min ns) (now div 60) mins = of_nat (length (filter is_req recent))
     \<and> bucket_sum (ns_vbucket ns) (ns_bucket_min ns) (now div 60) mins = of_nat (length (filter is_valid_req recent))
     \<and> bucket_sum (ns_rbucket ns) (ns_bucket_min ns) (now div 60) mins = sum_list (map ev_rsps recent)
     \<and> sec_tail ns now ! k = dec_u (of_nat (length (filter (\<lambda>e. is_req e \<and> ev_time e = now - 119 + int k) es)) :: u32)"
proof -
  have "sec_tail (nic_after name idx t0 es) now ! k = dec_u (sec_get (nic_after name idx t0 es) (now - 119 + int k))"
    using assms(6) by (simp add: sec_tail_def Let_def sec_get_def ring_get_def nth_upto)
  then show ?thesis
    using window_sums [OF assms(2,4,3,5)] sec_values [OF assms(2,4,3,1), of "now - 119 + int k"] by (simp add: Let_def sum_reqs)
qed

theorem windows_show_events_witness:
  "bucket_sum (ns_bucket (nic_after ''eth0'' 2 1000000 [Req True 1000000, Rsp 1 1000001, Req False 1000030, Req True 1003000]))
     (ns_bucket_min (nic_after ''eth0'' 2 1000000 [Req True 1000000, Rsp 1 1000001, Req False 1000030, Req True 1003000])) (1003000 div 60) 60 = 3
   \<and> bucket_sum (ns_vbucket (nic_after ''eth0'' 2 1000000 [Req True 1000000, Rsp 1 1000001, Req False 1000030, Req True 1003000]))
     (ns_bucket_min (nic_after ''eth0'' 2 1000000 [Req True 1000000, Rsp 1 1000001, Req False 1000030, Req True 1003000])) (1003000 div 60) 60 = 2"
  using windows_show_events [of 1000000 "[Req True 1000000, Rsp 1 1000001, Req False 1000030, Req True 1003000]" 1003000 60 0 "''eth0''" 2]
  by (simp add: Let_def ev_min_def)

section \<open>The client table counts every client\<close>

definition key_of :: "ClientEnt \<Rightarrow> int \<times> u32" where
  "key_of c = (ce_ifindex c, ce_ip c)"

definition probe :: "int \<times> u32 \<Rightarrow> nat \<Rightarrow> nat" where
  "probe k i = client_slot (client_hash (fst k) (snd k)) i"

text \<open>The entry of a slot is reached by probing: every earlier slot of its sequence is in use by
  another client.\<close>

definition reached :: "ClientEnt list \<Rightarrow> nat \<Rightarrow> bool" where
  "reached tbl s \<longleftrightarrow> (\<exists>i<1024. probe (key_of (tbl ! s)) i = s
     \<and> (\<forall>j<i. ce_used (tbl ! probe (key_of (tbl ! s)) j) \<and> key_of (tbl ! probe (key_of (tbl ! s)) j) \<noteq> key_of (tbl ! s)))"

definition table_ok :: "ClientEnt list \<Rightarrow> bool" where
  "table_ok tbl \<longleftrightarrow> length tbl = 1024 \<and> (\<forall>s<1024. ce_used (tbl ! s) \<longrightarrow> reached tbl s)"

lemma unat_and_1023: "unat ((x::u32) AND 1023) = unat x mod 1024"
proof -
  have "x AND 1023 = take_bit 10 x" by (simp add: take_bit_eq_mask mask_eq_exp_minus_1)
  then show ?thesis by (simp only: unsigned_take_bit_eq) (simp add: take_bit_eq_mod)
qed

lemma probe_less [simp]: "probe k i < 1024"
  by (simp add: probe_def client_slot_def unat_and_1023)

lemma probe_mod: "i < 1024 \<Longrightarrow> probe k i = (probe k 0 + i) mod 1024"
proof -
  let ?h = "client_hash (fst k) (snd k)"
  assume i: "i < 1024"
  have "unat (?h + word_of_nat i) mod 1024 = (unat ?h + i) mod 1024"
    using i by (simp add: unat_word_ariths unat_of_nat mod_mod_cancel take_bit_eq_mod)
  then show ?thesis by (simp add: probe_def client_slot_def unat_and_1023 mod_add_left_eq)
qed

lemma probe_onto: "s < 1024 \<Longrightarrow> \<exists>i<1024. probe k i = s"
proof -
  assume s: "s < 1024"
  define i where "i = (s + 1024 - probe k 0) mod 1024"
  have "(probe k 0 + i) mod 1024 = (probe k 0 + (s + 1024 - probe k 0)) mod 1024" unfolding i_def by (simp add: mod_add_right_eq)
  also have "probe k 0 + (s + 1024 - probe k 0) = s + 1024" using probe_less [of k 0] by linarith
  finally have "(probe k 0 + i) mod 1024 = s" using s by simp
  then show ?thesis using probe_mod [of i k] by (intro exI [of _ i]) (simp add: i_def)
qed

text \<open>What the scan finds.\<close>

lemma client_scan_Some:
  "client_scan tbl (fst k) (snd k) is = Some s \<Longrightarrow>
   (\<exists>js i ks. is = js @ i # ks \<and> probe k i = s \<and> (\<forall>j\<in>set js. ce_used (tbl ! probe k j) \<and> key_of (tbl ! probe k j) \<noteq> k)
     \<and> (ce_used (tbl ! s) \<longrightarrow> key_of (tbl ! s) = k))"
proof (induction "is")
  case (Cons i "is")
  let ?p = "probe k i"
  show ?case
  proof (cases "ce_used (tbl ! ?p) \<and> key_of (tbl ! ?p) \<noteq> k")
    case True
    then have "client_scan tbl (fst k) (snd k) is = Some s"
      using Cons.prems by (cases k) (auto simp: Let_def probe_def key_of_def split: if_splits)
    from Cons.IH [OF this] obtain js i' ks where "is = js @ i' # ks" "probe k i' = s"
      "\<forall>j\<in>set js. ce_used (tbl ! probe k j) \<and> key_of (tbl ! probe k j) \<noteq> k" "ce_used (tbl ! s) \<longrightarrow> key_of (tbl ! s) = k" by blast
    with True show ?thesis by (intro exI [of _ "i # js"] exI [of _ i'] exI [of _ ks]) simp
  next
    case False
    then have "s = ?p" using Cons.prems by (cases k) (auto simp: Let_def probe_def key_of_def split: if_splits)
    with False show ?thesis by (intro exI [of _ "[]"] exI [of _ i] exI [of _ "is"]) auto
  qed
qed simp

lemma client_scan_None:
  "client_scan tbl (fst k) (snd k) is = None \<Longrightarrow> \<forall>j\<in>set is. ce_used (tbl ! probe k j) \<and> key_of (tbl ! probe k j) \<noteq> k"
  by (induction "is") (auto simp: Let_def probe_def key_of_def prod_eq_iff split: if_splits)

lemma scan_upt:
  assumes "[0..<CLIENT_SLOTS] = js @ i # ks"
  shows "i < 1024" "j < i \<Longrightarrow> j \<in> set js"
proof -
  have l: "length js < 1024" using arg_cong [OF assms, of length] by (simp add: CLIENT_SLOTS_def)
  have "i = [0..<CLIENT_SLOTS] ! length js" unfolding assms by simp
  with l have i: "i = length js" by (simp add: CLIENT_SLOTS_def)
  with l show "i < 1024" by simp
  have "js = take (length js) [0..<CLIENT_SLOTS]" unfolding assms by simp
  then have "js = [0..<length js]" using l by (simp add: CLIENT_SLOTS_def take_upt del: upt.simps)
  then have "set js = {0..<length js}" by (metis set_upt)
  with i show "j < i \<Longrightarrow> j \<in> set js" by simp
qed

text \<open>The slot of a client.\<close>

lemma client_get_slot:
  assumes "client_scan tbl (fst k) (snd k) [0..<CLIENT_SLOTS] = Some s"
  shows "\<exists>i<1024. probe k i = s \<and> (\<forall>j<i. ce_used (tbl ! probe k j) \<and> key_of (tbl ! probe k j) \<noteq> k)"
    "ce_used (tbl ! s) \<Longrightarrow> key_of (tbl ! s) = k" "s < 1024"
  using client_scan_Some [OF assms] scan_upt by (blast, blast, force)

lemma reached_unique:
  assumes "table_ok tbl" "s < 1024" "u < 1024" "ce_used (tbl ! s)" "ce_used (tbl ! u)" "key_of (tbl ! s) = key_of (tbl ! u)"
  shows "s = u"
proof -
  let ?k = "key_of (tbl ! s)"
  obtain i where i: "probe ?k i = s" "\<forall>j<i. key_of (tbl ! probe ?k j) \<noteq> ?k"
    using assms unfolding table_ok_def reached_def by blast
  obtain l where l: "probe ?k l = u" "\<forall>j<l. key_of (tbl ! probe ?k j) \<noteq> ?k"
    using assms unfolding table_ok_def reached_def by metis
  have "i = l" using i l assms(6) by (metis linorder_neqE_nat)
  with i l show ?thesis by simp
qed

text \<open>A request: client, validity, time; and what the table should hold for a client.\<close>

type_synonym client_event = "(int \<times> u32) \<times> bool \<times> int"

definition tally :: "client_event list \<Rightarrow> int \<times> u32 \<Rightarrow> ClientEnt" where
  "tally evs k = (let mine = filter (\<lambda>e. fst e = k) evs in
     \<lparr>ce_used = True, ce_ifindex = fst k, ce_ip = snd k, ce_req = of_nat (length mine),
      ce_valid = of_nat (length (filter (\<lambda>e. fst (snd e)) mine)), ce_last = snd (snd (last mine))\<rparr>)"

definition clients_run :: "client_event list \<Rightarrow> ClientEnt list \<Rightarrow> ClientEnt list" where
  "clients_run evs tbl = fold (\<lambda>(k, v, t). client_count (fst k) (snd k) v t) evs tbl"

definition tallied :: "client_event list \<Rightarrow> ClientEnt list \<Rightarrow> bool" where
  "tallied evs tbl \<longleftrightarrow> table_ok tbl
     \<and> (\<forall>s<1024. ce_used (tbl ! s) \<longrightarrow> key_of (tbl ! s) \<in> fst ` set evs \<and> tbl ! s = tally evs (key_of (tbl ! s)))
     \<and> (\<forall>k\<in>fst ` set evs. \<exists>s<1024. ce_used (tbl ! s) \<and> key_of (tbl ! s) = k)"

lemma tally_snoc:
  "tally (evs @ [(k, v, t)]) k' = (if k' = k then (tally evs k)\<lparr>ce_req := ce_req (tally evs k) + 1,
     ce_valid := ce_valid (tally evs k) + (if v then 1 else 0), ce_last := t\<rparr> else tally evs k')"
  by (simp add: tally_def Let_def add.commute)

lemma tally_key [simp]: "key_of (tally evs k) = k" "ce_used (tally evs k)"
  by (simp_all add: tally_def key_of_def Let_def)

lemma reached_cong:
  assumes "\<And>u. u < 1024 \<Longrightarrow> ce_used (a ! u) = ce_used (b ! u) \<and> key_of (a ! u) = key_of (b ! u)" "s < 1024"
  shows "reached a s = reached b s"
  using assms by (simp add: reached_def)

text \<open>What counting does to the slot of the client.\<close>

lemma client_count_slot:
  assumes "client_scan tbl (fst k) (snd k) [0..<CLIENT_SLOTS] = Some s" "s < length tbl" "ce_used (tbl ! s) \<Longrightarrow> tbl ! s = tally evs k"
    "\<not> ce_used (tbl ! s) \<Longrightarrow> k \<notin> fst ` set evs"
  shows "client_count (fst k) (snd k) v t tbl = tbl[s := tally (evs @ [(k, v, t)]) k]"
proof (cases "ce_used (tbl ! s)")
  case True
  with assms(1-3) show ?thesis by (simp add: client_count_def client_get_def tally_snoc)
next
  case False
  with assms(4) have "filter (\<lambda>e. fst e = k) evs = []" by (auto simp: filter_empty_conv)
  then obtain l where "tally evs k = \<lparr>ce_used = True, ce_ifindex = fst k, ce_ip = snd k, ce_req = 0, ce_valid = 0, ce_last = l\<rparr>"
    by (simp add: tally_def)
  then show ?thesis using False assms(1,2) by (simp add: client_count_def client_get_def tally_snoc)
qed

lemma present_found:
  assumes "table_ok tbl" "u < 1024" "ce_used (tbl ! u)" "key_of (tbl ! u) = k"
    "client_scan tbl (fst k) (snd k) [0..<CLIENT_SLOTS] = Some s"
  shows "s = u"
proof -
  obtain i where i: "probe k i = s" "\<forall>j<i. key_of (tbl ! probe k j) \<noteq> k" using client_get_slot(1) [OF assms(5)] by blast
  have "reached tbl u" using assms(1-3) by (simp add: table_ok_def)
  then obtain l where l: "probe k l = u" "\<forall>j<l. ce_used (tbl ! probe k j) \<and> key_of (tbl ! probe k j) \<noteq> k"
    unfolding reached_def assms(4) by blast
  have "\<not> l < i" using i(2) l(1) assms(4) by auto
  moreover have "\<not> i < l"
  proof
    assume "i < l"
    with l(2) i(1) have "ce_used (tbl ! s)" "key_of (tbl ! s) \<noteq> k" by auto
    with client_get_slot(2) [OF assms(5)] show False by simp
  qed
  ultimately show ?thesis using i l by simp
qed

lemma scan_finds_room:
  assumes "tallied evs tbl" "card (insert k (fst ` set evs)) \<le> 1024"
  shows "client_scan tbl (fst k) (snd k) [0..<CLIENT_SLOTS] \<noteq> None"
proof
  assume n: "client_scan tbl (fst k) (snd k) [0..<CLIENT_SLOTS] = None"
  have all: "ce_used (tbl ! s) \<and> key_of (tbl ! s) \<noteq> k" if "s < 1024" for s
    using client_scan_None [OF n] probe_onto [OF that, of k] by (auto simp: CLIENT_SLOTS_def)
  let ?f = "\<lambda>s. key_of (tbl ! s)"
  have ok: "table_ok tbl" using assms(1) by (simp add: tallied_def)
  have "inj_on ?f {..<1024}" using all reached_unique [OF ok] by (intro inj_onI) simp
  then have c: "card (?f ` {..<1024}) = 1024" by (simp add: card_image)
  have sub: "?f ` {..<1024} \<subseteq> fst ` set evs" using assms(1) all by (auto simp: tallied_def)
  have "k \<notin> fst ` set evs" using assms(1) all unfolding tallied_def by blast
  then have "card (insert k (fst ` set evs)) = Suc (card (fst ` set evs))" by simp
  moreover have "1024 \<le> card (fst ` set evs)" using card_mono [OF _ sub] c by simp
  ultimately show False using assms(2) by simp
qed

lemma put_table_ok:
  assumes "table_ok tbl" "client_scan tbl (fst k) (snd k) [0..<CLIENT_SLOTS] = Some s" "ce_used c" "key_of c = k"
  shows "table_ok (tbl[s := c])"
proof -
  have len: "length tbl = 1024" and s: "s < 1024" using assms(1) client_get_slot(3) [OF assms(2)] by (simp_all add: table_ok_def)
  have "reached (tbl[s := c]) u" if u: "u < 1024" "ce_used (tbl[s := c] ! u)" for u
  proof (cases "ce_used (tbl ! s)")
    case True
    have "ce_used (tbl[s := c] ! w) = ce_used (tbl ! w) \<and> key_of (tbl[s := c] ! w) = key_of (tbl ! w)" if "w < 1024" for w
      using that True client_get_slot(2) [OF assms(2) True] assms(3,4) len s by (auto simp: nth_list_update)
    with reached_cong [of "tbl[s := c]" tbl u] u assms(1) show ?thesis by (simp add: table_ok_def)
  next
    case free: False
    show ?thesis
    proof (cases "u = s")
      case True
      obtain i where i: "i < 1024" "probe k i = s" "\<forall>j<i. ce_used (tbl ! probe k j) \<and> key_of (tbl ! probe k j) \<noteq> k"
        using client_get_slot(1) [OF assms(2)] by blast
      then have "s \<noteq> probe k j" if "j < i" for j using free that by blast
      then have "tbl[s := c] ! probe k j = tbl ! probe k j" if "j < i" for j using that by simp
      with i True assms(4) len s show ?thesis unfolding reached_def by (intro exI [of _ i]) simp
    next
      case False
      with u len assms(1) have "reached tbl u" by (simp add: table_ok_def)
      then obtain i where i: "i < 1024" "probe (key_of (tbl ! u)) i = u"
        "\<forall>j<i. ce_used (tbl ! probe (key_of (tbl ! u)) j) \<and> key_of (tbl ! probe (key_of (tbl ! u)) j) \<noteq> key_of (tbl ! u)"
        unfolding reached_def by blast
      then have "s \<noteq> probe (key_of (tbl ! u)) j" if "j < i" for j using free that by blast
      then have "tbl[s := c] ! probe (key_of (tbl ! u)) j = tbl ! probe (key_of (tbl ! u)) j" if "j < i" for j using that by simp
      with i False show ?thesis unfolding reached_def by (intro exI [of _ i]) simp
    qed
  qed
  with len show ?thesis by (simp add: table_ok_def)
qed

lemma tallied_step:
  assumes "tallied evs tbl" "card (insert k (fst ` set evs)) \<le> 1024"
  shows "tallied (evs @ [(k, v, t)]) (client_count (fst k) (snd k) v t tbl)"
proof -
  obtain s where s: "client_scan tbl (fst k) (snd k) [0..<CLIENT_SLOTS] = Some s" using scan_finds_room [OF assms] by blast
  note k = client_get_slot(3) [OF s]
  have ok: "table_ok tbl" and len: "length tbl = 1024" using assms(1) by (simp_all add: tallied_def table_ok_def)
  let ?t = "tbl[s := tally (evs @ [(k, v, t)]) k]"
  have fresh: "k \<notin> fst ` set evs" if "\<not> ce_used (tbl ! s)"
    using that assms(1) present_found [OF ok _ _ _ s] unfolding tallied_def by blast
  have "tbl ! s = tally evs k" if "ce_used (tbl ! s)"
    using that assms(1) client_get_slot(2) [OF s that] k unfolding tallied_def by blast
  then have c: "client_count (fst k) (snd k) v t tbl = ?t" using client_count_slot [OF s] k len fresh by simp
  have "table_ok ?t" by (rule put_table_ok [OF ok s]) simp_all
  moreover have "key_of (?t ! u) \<in> fst ` set (evs @ [(k, v, t)]) \<and> ?t ! u = tally (evs @ [(k, v, t)]) (key_of (?t ! u))"
    if u: "u < 1024" "ce_used (?t ! u)" for u
  proof (cases "u = s")
    case False
    with u have "ce_used (tbl ! u)" by simp
    with u have "key_of (tbl ! u) \<noteq> k" using present_found [OF ok u(1) _ _ s] False by blast
    with False u assms(1) show ?thesis by (simp add: tallied_def tally_snoc)
  qed (use len k in simp)
  moreover have "\<exists>u<1024. ce_used (?t ! u) \<and> key_of (?t ! u) = l" if l: "l \<in> fst ` set (evs @ [(k, v, t)])" for l
  proof (cases "l = k")
    case True
    with len k show ?thesis by (intro exI [of _ s]) simp
  next
    case False
    with l have "l \<in> fst ` set evs" by auto
    then obtain u where u: "u < 1024" "ce_used (tbl ! u)" "key_of (tbl ! u) = l" using assms(1) unfolding tallied_def by blast
    with False client_get_slot(2) [OF s] have "u \<noteq> s" by blast
    with u show ?thesis by (intro exI [of _ u]) simp
  qed
  ultimately show ?thesis unfolding c tallied_def by blast
qed

lemma clients_run_tallied:
  "card (fst ` set evs) \<le> 1024 \<Longrightarrow> tallied evs (clients_run evs (replicate 1024 client_none))"
proof (induction evs rule: rev_induct)
  case Nil
  show ?case by (simp add: clients_run_def tallied_def table_ok_def client_none_def)
next
  case (snoc e evs)
  obtain k v t where e: "e = (k, v, t)" by (cases e)
  have "fst ` set evs \<subseteq> fst ` set (evs @ [e])" by auto
  then have "card (fst ` set evs) \<le> card (fst ` set (evs @ [e]))" by (rule card_mono [rotated]) simp
  with snoc have "tallied evs (clients_run evs (replicate 1024 client_none))" by simp
  with tallied_step [of evs _ k v t] snoc.prems e show ?case by (simp add: clients_run_def)
qed

text \<open>C15: the client table counts every client.  Feed any requests to the empty table, without expiry:
  as long as they come from at most 1024 clients (an interface and an address), each of them has one entry, and
  that entry holds the number of its requests, the number of the valid ones (as 64-bit numbers) and
  the time of the last one; no other entry is in use.\<close>

theorem clients_counted:
  assumes "card (fst ` set evs) \<le> 1024"
  shows "mset (filter ce_used (clients_run evs (replicate 1024 client_none))) = image_mset (tally evs) (mset_set (fst ` set evs))"
proof -
  let ?t = "clients_run evs (replicate 1024 client_none)" and ?K = "fst ` set evs"
  have t: "tallied evs ?t" by (rule clients_run_tallied [OF assms])
  then have ok: "table_ok ?t" and len: "length ?t = 1024" by (simp_all add: tallied_def table_ok_def)
  let ?U = "{s. s < 1024 \<and> ce_used (?t ! s)}"
  have i: "inj_on (\<lambda>s. key_of (?t ! s)) ?U" using reached_unique [OF ok] by (intro inj_onI) simp
  have K: "(\<lambda>s. key_of (?t ! s)) ` ?U = ?K"
  proof (intro equalityI subsetI)
    fix k assume "k \<in> ?K"
    then obtain s where "s < 1024" "ce_used (?t ! s)" "key_of (?t ! s) = k" using t unfolding tallied_def by blast
    then show "k \<in> (\<lambda>s. key_of (?t ! s)) ` ?U" by auto
  qed (use t in \<open>auto simp: tallied_def\<close>)
  have m: "?t = map ((!) ?t) [0..<1024]" using map_nth [of ?t] len by simp
  have "filter ce_used ?t = map ((!) ?t) (filter (\<lambda>s. ce_used (?t ! s)) [0..<1024])"
    using arg_cong [OF m, of "filter ce_used"] by (simp only: filter_map comp_def)
  then have "mset (filter ce_used ?t) = image_mset ((!) ?t) (filter_mset (\<lambda>s. ce_used (?t ! s)) (mset [0..<1024]))"
    by (simp only: mset_map mset_filter)
  also have "\<dots> = image_mset ((!) ?t) (mset_set ?U)" by (simp add: filter_mset_mset_set conj_commute)
  also have "\<dots> = image_mset (tally evs \<circ> (\<lambda>s. key_of (?t ! s))) (mset_set ?U)"
    using t by (intro image_mset_cong) (simp add: tallied_def)
  also have "\<dots> = image_mset (tally evs) (mset_set ?K)"
    by (simp only: image_mset.compositionality [symmetric] image_mset_mset_set [OF i] K)
  finally show ?thesis .
qed

theorem clients_counted_witness:
  "mset (filter ce_used (clients_run [((2, 5), True, 100), ((3, 5), False, 101), ((2, 5), False, 102)] (replicate 1024 client_none)))
   = {#\<lparr>ce_used = True, ce_ifindex = 2, ce_ip = 5, ce_req = 2, ce_valid = 1, ce_last = 102\<rparr>,
       \<lparr>ce_used = True, ce_ifindex = 3, ce_ip = 5, ce_req = 1, ce_valid = 0, ce_last = 101\<rparr>#}"
proof -
  let ?e = "[((2, 5), True, 100), ((3, 5), False, 101), ((2, 5), False, 102)] :: client_event list"
  have k: "fst ` set ?e = {(2, 5), (3, 5)}" by auto
  have "mset (filter ce_used (clients_run ?e (replicate 1024 client_none))) = image_mset (tally ?e) (mset_set (fst ` set ?e))"
    by (rule clients_counted) (simp only: k, simp)
  then show ?thesis by (simp only: k) (simp add: tally_def Let_def)
qed

text \<open>Expiry frees a slot that the probing of another client passed over.\<close>

lemma slots_two: "[0..<CLIENT_SLOTS] = 0 # 1 # [2..<CLIENT_SLOTS]"
  using upt_conv_Cons [of 0 1024] upt_conv_Cons [of 1 1024] by (simp add: CLIENT_SLOTS_def numeral_2_eq_2)

lemma scan_first: "\<not> ce_used (tbl ! probe k 0) \<Longrightarrow> client_scan tbl (fst k) (snd k) (0 # js) = Some (probe k 0)"
  by (simp add: probe_def Let_def)

lemma scan_second:
  assumes "ce_used (tbl ! probe k 0)" "key_of (tbl ! probe k 0) \<noteq> k" "\<not> ce_used (tbl ! probe k 1)"
  shows "client_scan tbl (fst k) (snd k) (0 # 1 # js) = Some (probe k 1)"
  using assms by (cases k) (auto simp: probe_def Let_def key_of_def)

lemma client_count_new:
  assumes "client_scan tbl (fst k) (snd k) [0..<CLIENT_SLOTS] = Some s" "\<not> ce_used (tbl ! s)" "s < length tbl"
  shows "client_count (fst k) (snd k) v t tbl =
     tbl[s := \<lparr>ce_used = True, ce_ifindex = fst k, ce_ip = snd k, ce_req = 1, ce_valid = (if v then 1 else 0), ce_last = t\<rparr>]"
  using assms by (simp add: client_count_def client_get_def)

lemmas client_count_free = client_count_new [OF scan_first [where js = "1 # [2..<CLIENT_SLOTS]", folded slots_two]]
lemmas client_count_second = client_count_new [OF scan_second [where js = "[2..<CLIENT_SLOTS]", folded slots_two]]

text \<open>C24: after an expiry a client can be counted in two entries.  Let two clients of one interface hash to the
  same slot (their addresses agree in the low ten bits in network order, as those of one 192.168.0.0/16
  network do), the first ask once, the second ask later, and the first expire.  The next request of
  the second client takes the freed slot instead of the client's own entry further on: two entries
  in use for it, each with one of its two requests.\<close>

theorem expiry_splits_client:
  assumes "probe a 0 = probe b 0" "a \<noteq> b" "now - ta > 86400" "now - tb \<le> 86400"
  shows "let tbl = clients_run [(b, vb, tc)] (clients_expire now (clients_run [(a, va, ta), (b, va, tb)] (replicate 1024 client_none))) in
     \<exists>s u. s < 1024 \<and> u < 1024 \<and> s \<noteq> u \<and> ce_used (tbl ! s) \<and> ce_used (tbl ! u) \<and> key_of (tbl ! s) = b \<and> key_of (tbl ! u) = b
       \<and> ce_req (tbl ! s) = 1 \<and> ce_req (tbl ! u) = 1"
proof -
  let ?p = "probe b 0" and ?q = "probe b 1"
  have "?q = (?p + 1) mod 1024" using probe_mod [of 1 b] by simp
  then have "?p \<noteq> ?q" by (auto simp: mod_Suc split: if_splits)
  then have pq: "?p \<noteq> ?q" "?p < 1024" "?q < 1024" by simp_all
  define A where "A = \<lparr>ce_used = True, ce_ifindex = fst a, ce_ip = snd a, ce_req = 1, ce_valid = (if va then 1 else 0), ce_last = ta\<rparr>"
  define B where "B = \<lparr>ce_used = True, ce_ifindex = fst b, ce_ip = snd b, ce_req = 1, ce_valid = (if va then 1 else 0), ce_last = tb\<rparr>"
  define C where "C = \<lparr>ce_used = True, ce_ifindex = fst b, ce_ip = snd b, ce_req = 1, ce_valid = (if vb then 1 else 0), ce_last = tc\<rparr>"
  let ?r = "replicate 1024 client_none"
  have ka: "key_of A = a" "ce_used A" by (simp_all add: A_def key_of_def)
  have 1: "client_count (fst a) (snd a) va ta ?r = ?r[?p := A]"
    using client_count_free [of ?r a va ta] pq(2) unfolding assms(1) A_def by (simp add: client_none_def)
  have p: "?r[?p := A] ! ?p = A" "?r[?p := A] ! ?q = client_none" using pq by simp_all
  have 2: "client_count (fst b) (snd b) va tb (?r[?p := A]) = ?r[?p := A, ?q := B]"
    using client_count_second [of "?r[?p := A]" b va tb] pq(3) ka assms(2) unfolding p B_def by (simp add: client_none_def)
  let ?t = "clients_expire now (?r[?p := A, ?q := B])"
  have t: "length ?t = 1024" "\<not> ce_used (?t ! ?p)" "?t ! ?q = B"
    using pq assms(3,4) by (simp_all add: clients_expire_def CLIENT_TTL_def A_def B_def)
  have run: "clients_run [(b, vb, tc)] (clients_expire now (clients_run [(a, va, ta), (b, va, tb)] ?r)) = ?t[?p := C]"
    using client_count_free [of ?t b vb tc] t pq by (simp add: clients_run_def 1 2 C_def)
  have e: "?t[?p := C] ! ?p = C" "?t[?p := C] ! ?q = B" using t pq by simp_all
  have BC: "ce_used B" "ce_used C" "key_of B = b" "key_of C = b" "ce_req B = 1" "ce_req C = 1" by (simp_all add: B_def C_def key_of_def)
  show ?thesis unfolding Let_def run by (rule exI [of _ ?p], rule exI [of _ ?q]) (simp only: e BC pq simp_thms)
qed

theorem expiry_splits_client_witness:
  "inet_text 83994816 = ''192.168.1.5'' \<and> inet_text 100772032 = ''192.168.1.6''
   \<and> (let tbl = clients_run [((2, 100772032), True, 170000)] (clients_expire 100000 (clients_run
      [((2, 83994816), True, 1000), ((2, 100772032), True, 50000)] (replicate 1024 client_none)))
     in \<exists>s u. s < 1024 \<and> u < 1024 \<and> s \<noteq> u \<and> ce_used (tbl ! s) \<and> ce_used (tbl ! u) \<and> key_of (tbl ! s) = (2, 100772032)
       \<and> key_of (tbl ! u) = (2, 100772032) \<and> ce_req (tbl ! s) = 1 \<and> ce_req (tbl ! u) = 1)"
proof (intro conjI)
  have "probe (2, 83994816) 0 = probe (2, 100772032) 0" by (simp add: probe_def client_slot_def client_hash_def)
  then show "let tbl = clients_run [((2, 100772032), True, 170000)] (clients_expire 100000 (clients_run
      [((2, 83994816), True, 1000), ((2, 100772032), True, 50000)] (replicate 1024 client_none)))
     in \<exists>s u. s < 1024 \<and> u < 1024 \<and> s \<noteq> u \<and> ce_used (tbl ! s) \<and> ce_used (tbl ! u) \<and> key_of (tbl ! s) = (2, 100772032)
       \<and> key_of (tbl ! u) = (2, 100772032) \<and> ce_req (tbl ! s) = 1 \<and> ce_req (tbl ! u) = 1"
    by (rule expiry_splits_client) simp_all
qed code_simp+

end
