(* ===== verification/NicReport.thy ===== *)
theory NicReport
  imports NicMon
begin

text \<open>
  What the service monitor of \<open>NicMon\<close> reads and reports: the packets the capture loop counts, when the
  loop returns, the response counters, and the JSON snapshot as a document.
\<close>

section \<open>Packets\<close>

text \<open>An IPv4 datagram: first byte, eight header bytes, protocol, checksum, source, destination,
  options, then ports, length, checksum and payload.\<close>

definition udp_packet :: "bytes \<Rightarrow> u8 \<Rightarrow> bytes \<Rightarrow> bytes \<Rightarrow> bytes \<Rightarrow> bytes \<Rightarrow> bytes \<Rightarrow> u8 \<Rightarrow> u8 \<Rightarrow> bytes \<Rightarrow> bytes \<Rightarrow> bytes" where
  "udp_packet pre proto ck src dst opts sport d0 d1 lenck payload =
     [0x40 + word_of_nat (5 + length opts div 4)] @ pre @ [proto] @ ck @ src @ dst @ opts @ sport @ [d0, d1] @ lenck @ payload"

lemma ihl_bytes:
  assumes "n \<le> 10"
  shows "drop_bit 4 ((0x40 :: u8) + word_of_nat (5 + n)) = 4" "unat (((0x40 :: u8) + word_of_nat (5 + n)) AND 15) = 5 + n"
proof -
  have "list_all (\<lambda>k. drop_bit 4 ((0x40 :: u8) + word_of_nat (5 + k)) = 4 \<and> unat (((0x40 :: u8) + word_of_nat (5 + k)) AND 15) = 5 + k) [0..<11]"
    by (simp add: upt_rec)
  then show "drop_bit 4 ((0x40 :: u8) + word_of_nat (5 + n)) = 4" "unat (((0x40 :: u8) + word_of_nat (5 + n)) AND 15) = 5 + n"
    using assms by (simp_all add: list_all_iff)
qed

lemma packet_request_at:
  assumes "drop_bit 4 (buf ! 0) = 4" "unat (buf ! 0 AND 15) = 5 + n" "length buf = 28 + n * 4 + length payload"
    "drop ((5 + n) * 4) buf = s0 # s1 # d0 # d1 # lenck @ payload" "length lenck = 4"
  shows "packet_request buf = (if buf ! 9 = 17 \<and> 256 * unat d0 + unat d1 = 123
     then Some (src_addr buf, payload \<noteq> [] \<and> hd payload AND 7 = 3) else None)"
proof -
  have "drop 8 (drop ((5 + n) * 4) buf) = payload" unfolding assms(4) by (simp add: assms(5))
  then have p: "drop (28 + n * 4) buf = payload" by simp
  note d = assms(4) [simplified]
  show ?thesis unfolding packet_request_def Let_def assms(2) using assms(1,3,5) p
    by (cases payload) (simp_all add: ntp_mode3_def d)
qed

text \<open>C32: the packet filter.  For every IPv4 datagram with any options, \<open>packet_request\<close> reports exactly the UDP
  ones to port 123, with their source address, and calls the payload a valid request exactly
  when it is not empty and its low three bits are mode 3.\<close>

theorem packet_filter:
  assumes "length pre = 8" "length ck = 2" "length src = 4" "length dst = 4" "length opts = 4 * n" "n \<le> 10" "length sport = 2" "length lenck = 4"
  shows "packet_request (udp_packet pre proto ck src dst opts sport d0 d1 lenck payload) =
     (if proto = 17 \<and> d0 = 0 \<and> d1 = 123
      then Some (word_of_nat (unat (src ! 0) + 256 * unat (src ! 1) + 65536 * unat (src ! 2) + 16777216 * unat (src ! 3)),
                 payload \<noteq> [] \<and> hd payload AND 7 = 3)
      else None)"
proof -
  let ?buf = "udp_packet pre proto ck src dst opts sport d0 d1 lenck payload"
  have q: "length opts div 4 = n" using assms(5) by simp
  note b = ihl_bytes [OF assms(6)]
  have v: "drop_bit 4 (?buf ! 0) = 4" "unat (?buf ! 0 AND 15) = 5 + n" unfolding udp_packet_def q using b by simp_all
  have l: "length ?buf = 28 + 4 * n + length payload" using assms by (simp add: udp_packet_def)
  have at: "?buf ! 9 = proto" "?buf ! 12 = src ! 0" "?buf ! 13 = src ! 1" "?buf ! 14 = src ! 2" "?buf ! 15 = src ! 3"
    using assms by (simp_all add: udp_packet_def nth_append nth_Cons')
  let ?head = "[0x40 + word_of_nat (5 + length opts div 4)] @ pre @ [proto] @ ck @ src @ dst @ opts"
  have "?buf = ?head @ sport @ [d0, d1] @ lenck @ payload" "length ?head = 20 + 4 * n" using assms by (simp_all add: udp_packet_def)
  then have d: "drop (20 + 4 * n) ?buf = sport @ [d0, d1] @ lenck @ payload" by (metis append_eq_conv_conj)
  obtain s0 s1 where s: "sport = [s0, s1]" using assms(7) by (auto simp: length_Suc_conv numeral_2_eq_2)
  have "256 * unat d0 + unat d1 = 123 \<longleftrightarrow> d0 = 0 \<and> d1 = 123"
  proof
    assume e: "256 * unat d0 + unat d1 = 123"
    then have "unat d0 = 0" by simp
    with e have "unat d0 = unat (0 :: u8)" "unat d1 = unat (123 :: u8)" by simp_all
    then show "d0 = 0 \<and> d1 = 123" by (simp only: unsigned_word_eqI)
  qed simp
  moreover have "drop ((5 + n) * 4) ?buf = s0 # s1 # d0 # d1 # lenck @ payload" using d s by (simp add: add.commute mult.commute)
  moreover have "length ?buf = 28 + n * 4 + length payload" using l by simp
  moreover have "src_addr ?buf = word_of_nat (unat (src ! 0) + 256 * unat (src ! 1) + 65536 * unat (src ! 2) + 16777216 * unat (src ! 3))"
    unfolding src_addr_def at ..
  ultimately show ?thesis
    using packet_request_at [OF v, of payload s0 s1 d0 d1 lenck] assms(8) at(1) by (simp only: refl simp_thms)
qed

theorem packet_filter_witness:
  "packet_request (udp_packet (replicate 8 0) 17 [0, 0] [192, 168, 1, 5] [192, 168, 1, 1] [] [0x30, 0x39] 0 123 [0, 0, 0, 0] [0x23]) = Some (83994816, True)"
  using packet_filter [of "replicate 8 0" "[0, 0]" "[192, 168, 1, 5]" "[192, 168, 1, 1]" "[]" 0 "[0x30, 0x39]" "[0, 0, 0, 0]" 17 0 123 "[0x23]"]
  by simp

section \<open>When the capture loop returns\<close>

text \<open>The socket has nothing more, fails, or the program was told to stop.\<close>

fun ends :: "drain_input \<Rightarrow> bool" where
  "ends StopSet = True"
| "ends (RecvError Eintr) = False"
| "ends (RecvError Eagain) = True"
| "ends (RecvError (Eother e)) = True"
| "ends (Received ty i buf now) = False"

lemma drain_step_again: "snd (drain_step i st) = (\<not> ends i)"
  by (cases i rule: ends.cases) (simp_all add: drain_step_def split: option.split)

lemma drain_unfold: "capture_drain inp k st = (if ends (inp k) then Some (fst (drain_step (inp k) st), Suc k) else capture_drain inp (Suc k) (fst (drain_step (inp k) st)))"
  using drain_step_again [of "inp k" st] by (subst capture_drain.simps) (auto split: prod.split)

lemma drain_until:
  "ends (inp (k + n)) \<Longrightarrow> \<forall>i<n. \<not> ends (inp (k + i)) \<Longrightarrow>
   capture_drain inp k st = Some (fold (\<lambda>i s. fst (drain_step (inp i) s)) [k..<Suc (k + n)] st, Suc (k + n))"
proof (induction n arbitrary: k st)
  case 0
  then show ?case by (subst drain_unfold) simp
next
  case (Suc n)
  have "\<not> ends (inp k)" using Suc.prems(2) by (metis add_0_right zero_less_Suc)
  moreover have "\<forall>i<n. \<not> ends (inp (Suc k + i))" using Suc.prems(2) by (metis Suc_less_eq add_Suc_right add_Suc_shift)
  moreover have "[k..<Suc (k + Suc n)] = k # [Suc k..<Suc (Suc k + n)]" by (simp add: upt_conv_Cons del: upt_Suc)
  ultimately show ?case using Suc.IH [of "Suc k" "fst (drain_step (inp k) st)"] Suc.prems(1)
    by (subst drain_unfold) simp
qed

lemma drain_returns:
  assumes "capture_drain inp k st = Some y"
  shows "\<exists>n\<ge>k. ends (inp n)"
proof (rule capture_drain.raw_induct [of "\<lambda>inp k st y. \<exists>n\<ge>k. ends (inp n)", OF _ assms])
  fix drain inp k st y
  assume ih: "\<And>inp k st y. drain inp k st = Some y \<Longrightarrow> \<exists>n\<ge>k. ends (inp n)"
    and e: "(case drain_step (inp k) st of (st', again) \<Rightarrow> if again then drain inp (Suc k) st' else Some (st', Suc k)) = Some y"
  show "\<exists>n\<ge>k. ends (inp n)"
  proof (cases "ends (inp k)")
    case False
    then have "drain inp (Suc k) (fst (drain_step (inp k) st)) = Some y"
      using e drain_step_again [of "inp k" st] by (auto split: prod.splits)
    from ih [OF this] show ?thesis by (metis Suc_leD)
  qed auto
qed

text \<open>C21: when the capture loop returns.  It returns exactly when an input that ends it comes (the stop flag,
  an empty queue, an error other than an interrupted call), after handling, in order, every input up to
  that one; interrupted calls and packets of any kind keep it going.  While packets keep coming
  faster than they are read, the main loop does not get its turn.\<close>

theorem capture_drain_returns:
  "capture_drain inp 0 st =
     (if \<exists>n. ends (inp n) then let n = (LEAST n. ends (inp n)) in
        Some (fold (\<lambda>i s. fst (drain_step (inp i) s)) [0..<Suc n] st, Suc n)
      else None)"
proof (cases "\<exists>n. ends (inp n)")
  case True
  let ?n = "LEAST n. ends (inp n)"
  have e: "ends (inp (0 + ?n))" using LeastI_ex [OF True] by simp
  have l: "\<forall>i<?n. \<not> ends (inp (0 + i))" unfolding add_0 by (intro allI impI) (rule not_less_Least)
  have "capture_drain inp 0 st = Some (fold (\<lambda>i s. fst (drain_step (inp i) s)) [0..<Suc (0 + ?n)] st, Suc (0 + ?n))"
    by (rule drain_until [OF e l])
  then show ?thesis unfolding Let_def add_0 if_P [OF True] .
next
  case False
  have "capture_drain inp 0 st = None"
  proof (rule ccontr)
    assume "capture_drain inp 0 st \<noteq> None"
    then obtain y where "capture_drain inp 0 st = Some y" by (rule not_None_eq [THEN iffD1, THEN exE])
    from drain_returns [OF this] False show False by simp
  qed
  with False show ?thesis by simp
qed

section \<open>The snapshot as a document\<close>

definition word_num :: "'a::len word \<Rightarrow> json" where
  "word_num w = JInt (int (unat w))"

definition window_members :: "NicStat \<Rightarrow> int \<Rightarrow> int \<times> string \<Rightarrow> (string \<times> json) list" where
  "window_members ns m ws = (let tot = \<lambda>arr. word_num (bucket_sum arr (ns_bucket_min ns) m (fst ws div 60)) in
     [(''req_'' @ snd ws, tot (ns_bucket ns)), (''valid_'' @ snd ws, tot (ns_vbucket ns)), (''rsp_'' @ snd ws, tot (ns_rbucket ns))])"

definition minutes_json :: "NicStat \<Rightarrow> int \<Rightarrow> u32 list \<Rightarrow> json" where
  "minutes_json ns m arr = JArr (map (\<lambda>t. word_num (ring_get 1440 arr (ns_bucket_min ns) t)) [m - 59..m])"

definition nic_json :: "int \<Rightarrow> NicStat \<Rightarrow> json" where
  "nic_json now ns = (let m = now div 60 in JObj ([(''name'', JStr (ns_name ns)), (''ifindex'', JInt (ns_ifindex ns)), (''req'', word_num (ns_req ns)),
     (''valid'', word_num (ns_valid ns)), (''rsp'', word_num (ns_rsp ns))] @ concat (map (window_members ns m) g_windows)
     @ [(''windows_s'', JArr (map (\<lambda>ws. JInt (fst ws)) g_windows)),
        (''buckets'', JArr (map (minutes_json ns m) [ns_bucket ns, ns_vbucket ns, ns_rbucket ns])),
        (''sec'', JArr (map (\<lambda>t. word_num (sec_get ns t)) [now - 119..now]))]))"

definition client_json :: "int \<Rightarrow> ClientEnt \<Rightarrow> json" where
  "client_json now c = JObj [(''ip'', JStr (inet_text (ce_ip c))), (''req'', word_num (ce_req c)), (''valid'', word_num (ce_valid c)),
     (''last_age_s'', JInt (now - ce_last c))]"

definition monitor_json :: "sorter \<Rightarrow> bool \<Rightarrow> int \<Rightarrow> monitor \<Rightarrow> json" where
  "monitor_json qsort ipt now st = (let srt = sorted_clients qsort (g_clients st) in JObj [(''ts'', JInt now), (''sec_t0'', JInt (now - 119)),
     (''nics'', JArr (map (nic_json now) (g_nics st))),
     (''clients'', JObj (map (\<lambda>ns. (ns_name ns, JArr (map (client_json now) (take 32 (filter (\<lambda>c. ce_ifindex c = ns_ifindex ns) srt))))) (g_nics st))),
     (''clients_total'', JInt (int (length srt))), (''rsp_source'', JStr (if ipt then ''iptables'' else ''disabled''))])"

lemma dec_int_nat [simp]: "dec_int (int n) = dec_nat n"
  by (simp add: dec_int_def)

lemma print_word [simp]: "print_json (word_num w) = dec_u w" "json_ok (word_num w)"
  by (simp_all add: word_num_def dec_u_def dec_int_def)

lemma digits_body: "(\<And>c. c \<in> set s \<Longrightarrow> c_isdigit c \<or> c = CHR ''.'') \<Longrightarrow> json_body s"
proof (induction s)
  case (Cons c s)
  then have "c_isdigit c \<or> c = CHR ''.''" "json_body s" by simp_all
  then show ?case by (auto simp: c_isdigit_def bs_def)
qed simp

lemma inet_body [simp]: "json_body (inet_text ip)"
  by (rule digits_body) (auto simp: inet_text_def dest: dec_nat_digits)

lemma map_shift: "map (\<lambda>k. g (c + k)) [i..j] = map g [c + i..c + j]"
  by (rule nth_equalityI) (simp_all add: nth_upto add.assoc)

lemma ring_tail_map: "ring_tail ns m arr = map (\<lambda>t. dec_u (ring_get 1440 arr (ns_bucket_min ns) t)) [m - 59..m]"
proof -
  have "ring_tail ns m arr = map (\<lambda>k. dec_u (ring_get 1440 arr (ns_bucket_min ns) (m - 1439 + k))) [1380..1439]"
    by (simp add: ring_tail_def BUCKETS_OUT_def Let_def ring_get_def del: upto_rec_numeral)
  then show ?thesis by (simp add: map_shift [of "\<lambda>t. dec_u (ring_get 1440 arr (ns_bucket_min ns) t)"] del: upto_rec_numeral)
qed

lemma sec_tail_map: "sec_tail ns now = map (\<lambda>t. dec_u (sec_get ns t)) [now - 119..now]"
proof -
  have "sec_tail ns now = map (\<lambda>k. dec_u (sec_get ns (now - 119 + k))) [0..119]"
    by (simp add: sec_tail_def Let_def sec_get_def ring_get_def del: upto_rec_numeral)
  then show ?thesis by (simp add: map_shift [of "\<lambda>t. dec_u (sec_get ns t)"] del: upto_rec_numeral)
qed

lemma top_clients_take: "n \<le> 32 \<Longrightarrow> top_clients i n cs = take (32 - n) (filter (\<lambda>c. ce_ifindex c = i) cs)"
proof (induction cs arbitrary: n)
  case (Cons c cs)
  then show ?case by (cases "n = 32") (auto simp: TOP_CLIENTS_def Suc_diff_le take_Cons' Suc_le_eq)
qed simp

lemma map_members: "map json_member (map (map_prod id print_json) ms) = members_text ms"
  by (simp add: members_text_def)

lemma window_text:
  "members_text (window_members ns m ws) = [json_member (''req_'' @ snd ws, dec_u (bucket_sum (ns_bucket ns) (ns_bucket_min ns) m (fst ws div 60))),
     json_member (''valid_'' @ snd ws, dec_u (bucket_sum (ns_vbucket ns) (ns_bucket_min ns) m (fst ws div 60))),
     json_member (''rsp_'' @ snd ws, dec_u (bucket_sum (ns_rbucket ns) (ns_bucket_min ns) m (fst ws div 60)))]"
  "json_body (snd ws) \<Longrightarrow> members_ok (window_members ns m ws)"
  by (simp_all add: window_members_def Let_def bs_def)

lemma window_item_members: "window_item ns m ws = comma_join (members_text (window_members ns m ws)) @ '',''"
  by (cases ws) (simp add: window_item_def window_text json_member_def Let_def)

lemma windows_join: "concat (map (window_item ns m) wss) @ r = (if wss = [] then r else comma_join (members_text (concat (map (window_members ns m) wss))) @ '','' @ r)"
proof (induction wss)
  case (Cons ws wss)
  have n: "members_text (window_members ns m ws) \<noteq> []" by (simp add: window_text)
  show ?case
  proof (cases "wss = []")
    case False
    then have "members_text (concat (map (window_members ns m) wss)) \<noteq> []" by (cases wss) (simp_all add: window_text)
    with False Cons n show ?thesis by (simp add: window_item_members comma_join_append)
  qed (simp add: window_item_members)
qed simp

lemma nic_text_json: "nic_text now ns = print_json (nic_json now ns)"
proof -
  let ?m = "now div 60" and ?w = "members_text (concat (map (window_members ns (now div 60)) g_windows))"
  let ?h = "[(''name'', JStr (ns_name ns)), (''ifindex'', JInt (ns_ifindex ns)), (''req'', word_num (ns_req ns)), (''valid'', word_num (ns_valid ns)), (''rsp'', word_num (ns_rsp ns))]"
  let ?t = "[(''windows_s'', JArr (map (\<lambda>ws. JInt (fst ws)) g_windows)), (''buckets'', JArr (map (minutes_json ns ?m) [ns_bucket ns, ns_vbucket ns, ns_rbucket ns])),
        (''sec'', JArr (map (\<lambda>t. word_num (sec_get ns t)) [now - 119..now]))]"
  have w: "?w \<noteq> []" "g_windows \<noteq> []" by (simp_all add: g_windows_def window_text)
  have "print_json (nic_json now ns) = ''{'' @ comma_join (members_text ?h @ ?w @ members_text ?t) @ ''}''"
    by (simp only: nic_json_def Let_def members_obj members_simps)
  also have "\<dots> = ''{'' @ comma_join (members_text ?h) @ '','' @ comma_join ?w @ '','' @ comma_join (members_text ?t) @ ''}''"
    using w(1) by (simp only: comma_join_append members_simps append_assoc append_is_Nil_conv list.simps simp_thms not_False_eq_True)
  also have "\<dots> = nic_text now ns"
    unfolding nic_text_def Let_def windows_join if_not_P [OF w(2)] by (simp add: json_member_def minutes_json_def ring_tail_map sec_tail_map comp_def)
  finally show ?thesis by simp
qed

lemma nic_json_ok: "json_body (ns_name ns) \<Longrightarrow> json_ok (nic_json now ns)"
  unfolding nic_json_def Let_def members_obj
  by (simp add: window_text bs_def g_windows_def minutes_json_def list_all_iff)

lemma client_text_json: "client_text now c = print_json (client_json now c)" "json_ok (client_json now c)"
  by (simp_all add: client_text_def client_json_def members_obj json_member_def bs_def)

lemma client_texts: "map (client_text now) cs = map (\<lambda>c. print_json (client_json now c)) cs"
  by (rule map_cong) (simp_all add: client_text_json)

lemma snapshot_document_facts:
  "json_text qsort ipt now st = print_json (monitor_json qsort ipt now st)"
    "list_all (\<lambda>ns. json_body (ns_name ns)) (g_nics st) \<Longrightarrow> json_ok (monitor_json qsort ipt now st)"
proof -
  let ?srt = "sorted_clients qsort (g_clients st)"
  have c: "clients_text now ?srt ns = json_member (ns_name ns, print_json (JArr (map (client_json now) (take 32 (filter (\<lambda>c. ce_ifindex c = ns_ifindex ns) ?srt)))))" for ns
    using top_clients_take [of 0 "ns_ifindex ns" ?srt] by (simp add: clients_text_def json_member_def client_texts comp_def)
  have n: "map (nic_text now) nss = map (print_json \<circ> nic_json now) nss" "map (clients_text now ?srt) nss = members_text (map (\<lambda>ns. (ns_name ns,
      JArr (map (client_json now) (take 32 (filter (\<lambda>c. ce_ifindex c = ns_ifindex ns) ?srt))))) nss)" for nss
    by (simp_all add: nic_text_json c members_text_def)
  show "json_text qsort ipt now st = print_json (monitor_json qsort ipt now st)"
    unfolding json_text_def monitor_json_def Let_def members_obj n by (simp add: json_member_def members_text_def)
  show "list_all (\<lambda>ns. json_body (ns_name ns)) (g_nics st) \<Longrightarrow> json_ok (monitor_json qsort ipt now st)"
    unfolding monitor_json_def Let_def members_obj
    by (auto simp: list_all_iff nic_json_ok client_text_json members_ok_def bs_def)
qed

text \<open>C39: the snapshot is the JSON document of the state.  The text \<open>write_json\<close> prints is, for every state,
  the text of one JSON value: per interface the counters, the sums of the four windows, the last 60 minutes of
  requests, valid requests and responses and the last 120 seconds, oldest first, and per interface the
  first 32 of its clients in the sorted list.  The value is well-formed whenever the interface
  names need no escaping (the code does not escape them).\<close>

theorem snapshot_document:
  "json_text qsort ipt now st = print_json (monitor_json qsort ipt now st)
   \<and> (list_all (\<lambda>ns. json_body (ns_name ns)) (g_nics st) \<longrightarrow> json_ok (monitor_json qsort ipt now st))"
  using snapshot_document_facts by blast

theorem snapshot_document_witness:
  "json_ok (monitor_json (\<lambda>cmp cs. cs) True 1700000000 (mon_init\<lparr>g_nics := [nic_init ''eth0'' 2 28333333]\<rparr>))"
proof -
  have "list_all (\<lambda>ns. json_body (ns_name ns)) (g_nics (mon_init\<lparr>g_nics := [nic_init ''eth0'' 2 28333333]\<rparr>))"
    by (simp add: nic_init_def snprintf_s_def bs_def)
  then show ?thesis using snapshot_document [of "\<lambda>cmp cs. cs" True 1700000000 "mon_init\<lparr>g_nics := [nic_init ''eth0'' 2 28333333]\<rparr>"] by blast
qed

text \<open>What \<open>qsort\<close> promises.\<close>

definition sorts :: "sorter \<Rightarrow> bool" where
  "sorts qsort \<longleftrightarrow> (\<forall>cs. mset (qsort cmp_client cs) = mset cs \<and> sorted_wrt (\<lambda>x y. cmp_client x y \<le> 0) (qsort cmp_client cs))"

lemma cmp_le: "cmp_client x y \<le> 0 \<longleftrightarrow> ce_req y \<le> ce_req x"
  by (auto simp: cmp_client_def)

lemma sorted_clients_facts:
  assumes "sorts qsort"
  shows "mset (sorted_clients qsort tbl) = mset (filter ce_used tbl)" "sorted_wrt (\<lambda>x y. ce_req y \<le> ce_req x) (sorted_clients qsort tbl)"
proof -
  let ?u = "filter ce_used tbl"
  have "sorted_wrt (\<lambda>x y. ce_req y \<le> ce_req x) ?u" if "\<not> 1 < length ?u"
    using that by (cases ?u rule: remdups_adj.cases) simp_all
  then show "mset (sorted_clients qsort tbl) = mset ?u" "sorted_wrt (\<lambda>x y. ce_req y \<le> ce_req x) (sorted_clients qsort tbl)"
    using assms by (auto simp: sorted_clients_def sorts_def Let_def cmp_le)
qed

text \<open>The published clients are the busiest.  With any sorting routine, the list of an interface holds
  entries of that interface from the table, as many as there are up to 32, the busiest first, and every
  entry of the interface left out has made no more requests than any one listed.\<close>

theorem busiest_clients_published:
  assumes "sorts qsort"
  shows "let pub = top_clients i 0 (sorted_clients qsort tbl); mine = filter (\<lambda>c. ce_used c \<and> ce_ifindex c = i) tbl in
     length pub = min 32 (length mine) \<and> sorted_wrt (\<lambda>x y. ce_req y \<le> ce_req x) pub
     \<and> (\<exists>rest. mset pub + mset rest = mset mine \<and> (\<forall>c\<in>set pub. \<forall>d\<in>set rest. ce_req d \<le> ce_req c))"
proof -
  let ?s = "filter (\<lambda>c. ce_ifindex c = i) (sorted_clients qsort tbl)" and ?mine = "filter (\<lambda>c. ce_used c \<and> ce_ifindex c = i) tbl"
  have "mset ?s = filter_mset (\<lambda>c. ce_ifindex c = i) (filter_mset ce_used (mset tbl))"
    by (simp add: sorted_clients_facts [OF assms])
  then have m: "mset ?s = mset ?mine" by (simp add: filter_filter_mset conj_commute)
  have o: "sorted_wrt (\<lambda>x y. ce_req y \<le> ce_req x) (take 32 ?s @ drop 32 ?s)"
    unfolding append_take_drop_id by (rule sorted_wrt_filter) (rule sorted_clients_facts [OF assms])
  have l: "length ?s = length ?mine" using m by (rule mset_eq_length)
  have "mset (take 32 ?s) + mset (drop 32 ?s) = mset ?mine" using m by (metis append_take_drop_id mset_append)
  moreover have "\<forall>c\<in>set (take 32 ?s). \<forall>d\<in>set (drop 32 ?s). ce_req d \<le> ce_req c" "sorted_wrt (\<lambda>x y. ce_req y \<le> ce_req x) (take 32 ?s)"
    using o unfolding sorted_wrt_append by blast+
  moreover have "top_clients i 0 (sorted_clients qsort tbl) = take 32 ?s" using top_clients_take [of 0 i] by simp
  ultimately show ?thesis using l unfolding Let_def by (auto simp: min.commute)
qed

definition req_sort :: sorter where
  "req_sort cmp cs = sort_key (\<lambda>c. - int (unat (ce_req c))) cs"

lemma req_sort_sorts: "sorts req_sort"
proof -
  have "sorted (map (\<lambda>c. - int (unat (ce_req c))) (sort_key (\<lambda>c. - int (unat (ce_req c))) cs))" for cs by simp
  then have "sorted_wrt (\<lambda>x y. cmp_client x y \<le> 0) (sort_key (\<lambda>c. - int (unat (ce_req c))) cs)" for cs
    by (simp add: sorted_map cmp_le word_le_def)
  then show ?thesis by (simp add: sorts_def req_sort_def)
qed

theorem busiest_clients_published_witness:
  "length (top_clients 2 0 (sorted_clients req_sort [client_none, client_none\<lparr>ce_used := True, ce_ifindex := 2, ce_req := 7\<rparr>,
     client_none\<lparr>ce_used := True, ce_ifindex := 2, ce_req := 9\<rparr>])) = 2"
  using busiest_clients_published [OF req_sort_sorts, of 2 "[client_none, client_none\<lparr>ce_used := True, ce_ifindex := 2, ce_req := 7\<rparr>,
     client_none\<lparr>ce_used := True, ce_ifindex := 2, ce_req := 9\<rparr>]"]
  by (simp add: Let_def client_none_def)

section \<open>Responses\<close>

text \<open>The changes between readings of the counter, as events of the interface.\<close>

fun rsp_events :: "int \<Rightarrow> (int \<times> int) list \<Rightarrow> nic_event list" where
  "rsp_events v0 [] = []"
| "rsp_events v0 ((v, t) # rs) = (if v = v0 then rsp_events v rs else Rsp (word_of_int (v - v0)) t # rsp_events v rs)"

fun rising :: "int \<Rightarrow> (int \<times> int) list \<Rightarrow> bool" where
  "rising v0 [] = True"
| "rising v0 ((v, t) # rs) = (v0 \<le> v \<and> v < 2 ^ 63 \<and> rising v rs)"

definition readings :: "(int \<times> int) list \<Rightarrow> NicStat \<Rightarrow> NicStat" where
  "readings rs ns = fold (\<lambda>(v, t). count_response v t) rs ns"

definition ring_view :: "NicStat \<Rightarrow> u32 list \<times> u32 list \<times> u32 list \<times> int" where
  "ring_view ns = (ns_bucket ns, ns_vbucket ns, ns_rbucket ns, ns_bucket_min ns)"

lemma uint_count: "0 \<le> v \<Longrightarrow> v < 2 ^ 63 \<Longrightarrow> uint (word_of_int v :: u64) = v"
  by (simp add: uint_word_of_int take_bit_int_eq_self)

lemma ucast_count: "ucast (word_of_int x - word_of_int y :: u64) = (word_of_int (x - y) :: u32)"
proof -
  have "ucast (word_of_int z :: u64) = (word_of_int z :: u32)" for z
    by transfer (simp add: take_bit_take_bit)
  from this [of "x - y"] show ?thesis by simp
qed

lemma respond_cong: "ring_view a = ring_view b \<Longrightarrow> ring_view (respond d t a) = ring_view (respond d t b)"
  by (simp add: ring_view_def respond_def bucket_advance_def Let_def)

lemma events_cong: "ring_view a = ring_view b \<Longrightarrow> ring_view (fold ev_apply (rsp_events v rs) a) = ring_view (fold ev_apply (rsp_events v rs) b)"
proof (induction rs arbitrary: v a b)
  case (Cons r rs)
  obtain w t where r: "r = (w, t)" by fastforce
  show ?case using Cons.IH [OF Cons.prems, of w] Cons.IH [OF respond_cong [OF Cons.prems], of w] by (simp only: r rsp_events.simps split: if_split) simp
qed simp

lemma count_response_step:
  assumes "0 \<le> v" "v < 2 ^ 63" "0 \<le> v0" "v0 \<le> v" "0 \<le> b" "b \<le> v" "ns_ipt_last ns = word_of_int v0" "ns_ipt_rule ns = word_of_int b"
  shows "ring_view (count_response v t ns) = (if v0 = 0 \<or> v = v0 then ring_view ns else ring_view (respond (word_of_int (v - v0)) t ns))"
    "ns_ipt_last (count_response v t ns) = word_of_int v" "ns_ipt_rule (count_response v t ns) = word_of_int b"
    "ns_rsp (count_response v t ns) = word_of_int (v - b)"
proof -
  have u: "uint (word_of_int v :: u64) = v" "uint (word_of_int v0 :: u64) = v0" "uint (word_of_int b :: u64) = b"
    using assms by (simp_all add: uint_count)
  have z: "(word_of_int v0 :: u64) = 0 \<longleftrightarrow> v0 = 0" using u(2) by (metis uint_0_eq word_of_int_uint)
  have le: "(word_of_int v0 :: u64) \<le> word_of_int v" "(word_of_int b :: u64) \<le> word_of_int v"
    using assms(4,6) u unfolding word_le_def by simp_all
  have ne: "(word_of_int v :: u64) - word_of_int v0 \<noteq> 0 \<longleftrightarrow> v \<noteq> v0" using u by (metis right_minus_eq)
  have r: "ns_ipt_rule (respond d t ns) = word_of_int b" "ns_ipt_last (respond d t ns) = word_of_int v0" for d
    using assms(7,8) by (simp_all add: respond_def bucket_advance_def Let_def)
  show "ring_view (count_response v t ns) = (if v0 = 0 \<or> v = v0 then ring_view ns else ring_view (respond (word_of_int (v - v0)) t ns))"
    "ns_ipt_last (count_response v t ns) = word_of_int v" "ns_ipt_rule (count_response v t ns) = word_of_int b"
    "ns_rsp (count_response v t ns) = word_of_int (v - b)"
    using assms(1) unfolding count_response_def Let_def assms(7) ucast_count z ne
    by (auto simp: r le assms(8) ring_view_def)
qed

lemma readings_from:
  assumes "0 < v0" "v0 < 2 ^ 63" "0 \<le> b" "b \<le> v0" "rising v0 rs" "ns_ipt_last ns = word_of_int v0" "ns_ipt_rule ns = word_of_int b" "ns_rsp ns = word_of_int (v0 - b)"
  shows "ring_view (readings rs ns) = ring_view (fold ev_apply (rsp_events v0 rs) ns)
    \<and> ns_rsp (readings rs ns) = word_of_int ((if rs = [] then v0 else fst (last rs)) - b)"
  using assms
proof (induction rs arbitrary: v0 ns)
  case (Cons r rs)
  obtain v t where r: "r = (v, t)" by fastforce
  with Cons.prems have v: "v0 \<le> v" "v < 2 ^ 63" "rising v rs" by simp_all
  have p: "0 \<le> v" "0 < v" "0 \<le> v0" "b \<le> v" using v Cons.prems by simp_all
  note s = count_response_step [OF p(1) v(2) p(3) v(1) Cons.prems(3) p(4) Cons.prems(6,7), of t]
  have "ring_view (readings rs (count_response v t ns)) = ring_view (fold ev_apply (rsp_events v rs) (count_response v t ns))
    \<and> ns_rsp (readings rs (count_response v t ns)) = word_of_int ((if rs = [] then v else fst (last rs)) - b)"
    by (rule Cons.IH [OF p(2) v(2) Cons.prems(3) p(4) v(3) s(2-4)])
  moreover have "ring_view (fold ev_apply (rsp_events v rs) (count_response v t ns)) = ring_view (fold ev_apply (rsp_events v0 ((v, t) # rs)) ns)"
    using events_cong [OF s(1) [unfolded if_distrib [of ring_view, symmetric]]] Cons.prems(1) by auto
  ultimately show ?case by (simp add: r readings_def)
qed (simp add: readings_def)

lemma rsp_events_sum: "sum_list (map ev_rsps (rsp_events v0 rs)) = word_of_int ((if rs = [] then v0 else fst (last rs)) - v0)"
proof (induction rs arbitrary: v0)
  case (Cons r rs)
  obtain v t where r: "r = (v, t)" by fastforce
  show ?case using Cons.IH [of v] by (cases "v = v0") (simp_all add: r)
qed simp

text \<open>C34: the response counters.  Let the counter of the packet filter read \<open>b\<close> at the start and then
  never fall.  After the readings \<open>v0\<close>, ... , \<open>v\<close> the total published is \<open>v - b\<close>, and the windows have
  received exactly the changes from \<open>v0\<close> on, \<open>v - v0\<close> in all: the \<open>v0 - b\<close> responses between the start
  and the first reading are in the total and in no window.\<close>

theorem responses_counted:
  assumes "ns_ipt_last ns = 0" "ns_ipt_rule ns = word_of_int b" "0 \<le> b" "0 < v0" "rising b ((v0, t0) # rs)"
  shows "let fin = readings ((v0, t0) # rs) ns; v = fst (last ((v0, t0) # rs)) in
     ns_rsp fin = word_of_int (v - b) \<and> ring_view fin = ring_view (fold ev_apply (rsp_events v0 rs) ns)
     \<and> sum_list (map ev_rsps (rsp_events v0 rs)) = word_of_int (v - v0)"
proof -
  have v: "b \<le> v0" "v0 < 2 ^ 63" "rising v0 rs" using assms(5) by simp_all
  have z: "ns_ipt_last ns = word_of_int 0" "0 \<le> v0" using assms(1,4) by simp_all
  note s = count_response_step [OF z(2) v(2) _ z(2) assms(3) v(1) z(1) assms(2), of t0, simplified]
  have "ring_view (readings rs (count_response v0 t0 ns)) = ring_view (fold ev_apply (rsp_events v0 rs) (count_response v0 t0 ns))
    \<and> ns_rsp (readings rs (count_response v0 t0 ns)) = word_of_int ((if rs = [] then v0 else fst (last rs)) - b)"
    by (rule readings_from) (use assms(3,4) v s in simp_all)
  moreover have "readings ((v0, t0) # rs) ns = readings rs (count_response v0 t0 ns)" by (simp add: readings_def)
  ultimately show ?thesis using events_cong [OF s(1), of v0 rs] rsp_events_sum [of v0 rs] by (simp add: Let_def)
qed

theorem responses_counted_witness:
  "ns_rsp (readings [(1005, 1700000005), (1009, 1700000010)] ((nic_init ''eth0'' 2 28333333)\<lparr>ns_ipt_rule := 1000\<rparr>)) = 9
   \<and> rsp_events 1005 [(1009, 1700000010)] = [Rsp 4 1700000010]"
  using responses_counted [of "(nic_init ''eth0'' 2 28333333)\<lparr>ns_ipt_rule := 1000\<rparr>" 1000 1005 1700000005 "[(1009, 1700000010)]"]
  by (simp add: Let_def nic_init_def)

end
