(* ===== verification/Spec2Isabelle.thy ===== *)
theory Spec2Isabelle
  imports Prelude Ring Fips180 Sha256 Database Auth Users Sessions Common Gate Accounts Json Nmcli Network Host LogView Ntpmon Timesync SiteSpec Site SiteRun Shell Rollback AclHelper Nmea PpsLog PpsTod Window NicMon NicReport
begin

text \<open>
  A verification development for the web console of an embedded time server: CGI programs in C over
  an SQLite database (\<open>src/src\<close>), the time daemon \<open>src/pps_tod/pps_tod.c\<close> and the service monitor
  \<open>src/ntp_nic_monitor.c\<close>.  This text describes the system, where each part of it is modelled, what is
  proved and what is left out.

  \<^bold>\<open>The system.\<close>  A browser talks to small programs started per request.  Each reads its environment and
  the request body (\<open>common.c\<close>), passes the gate (\<open>gate.c\<close>: cookie, database, session, password age, role,
  CSRF token) and then calls one library: accounts (\<open>auth.c\<close>, \<open>users.c\<close>, \<open>sha256.c\<close>), interface
  configuration (\<open>nmcli.c\<close>), NTP access rules and statistics (\<open>ntpmon.c\<close>), receiver mode and
  synchronisation status (\<open>timesync.c\<close>) or the log viewer (\<open>log.cgi.c\<close>).  Two daemons run beside: the time
  daemon pairs pulse edges with the receiver's time sentences, feeds chrony through shared memory,
  steps the clock, and writes a log and a status file, which \<open>timesync.c\<close> shows; the service monitor counts
  NTP requests per interface and client and writes a snapshot, which \<open>ntpmon.c\<close> embeds.  The two
  sections of this theory follow these two files from the writer to the reader.

  \<^bold>\<open>Theories.\<close>
  \<^item> \<open>Prelude\<close>: C strings, decimal and hexadecimal text, \<open>strtol\<close>, \<open>strtok\<close>, \<open>fgets\<close>, \<open>snprintf\<close> as the programs use
    them, on character lists; \<open>Ring\<close> and \<open>Window\<close>: contracts (locales) of the last-n buffers and of the
    counters over a sliding window, interpreted on the code's arrays; \<open>Host\<close>: local time, file attributes,
    \<open>sscanf\<close> conversions; \<open>Json\<close>: escapers, bounded append and JSON values.
  \<^item> \<open>Fips180\<close>: SHA-256 as the standard states it, from the roots of primes to the order of bytes.  \<open>Sha256\<close>
    (\<open>sha256.c\<close>): context, compression, update and final at their widths; equal to the standard's digest for every
    way of cutting the input.
  \<^item> \<open>Database\<close>: the tables and the statements \<open>auth.c\<close> and \<open>users.c\<close> run, by their documented effect; which
    statements fail otherwise is the parameter \<open>eng\<close> of the environment.  \<open>Auth\<close>, \<open>Sessions\<close> (\<open>auth.c\<close>): hashing,
    verification, policy, sessions, audit, start-up and migration.  \<open>Users\<close> (\<open>users.c\<close>): create, delete, toggle,
    password changes; the reachable states keep an enabled root account; the effect of each operation on every branch.
  \<^item> \<open>Common\<close> (\<open>common.c\<close>), \<open>Gate\<close> (\<open>gate.c\<close>), \<open>Accounts\<close> (login, logout, main, the user programs, \<open>db_init.c\<close>):
    each program is a function on a world of files, database and output; no account is changed without a root
    session and its token; a login opens the gate.
  \<^item> \<open>SiteSpec\<close>, \<open>Site\<close>, \<open>SiteRun\<close>: the CGI programs together.  \<open>SiteSpec\<close> says on the tables alone what a request may
    do to accounts and sessions and relates every operation of \<open>users.c\<close> and \<open>auth.c\<close> to it; \<open>Site\<close> shows that every
    program, on every path, has only such effects and leaves the database closed; \<open>SiteRun\<close> follows sequences of requests
    (each a fresh process on the same file): the site refines the specification, keeps an enabled root account, gives nobody
    another role, and every session and every changed password is traced back to a login with the right password.
  \<^item> \<open>Nmcli\<close>, \<open>Network\<close> (\<open>nmcli.c\<close>, \<open>network.cgi.c\<close>): validation, masks and prefixes, profiles, get, set, snapshot and
    rollback; every command run has validated arguments.  \<open>Ntpmon\<close> (\<open>ntpmon.c\<close>, \<open>ntpmon.cgi.c\<close>): ranges, rule file,
    helper, samples, the statistics document.  \<open>Timesync\<close> (\<open>timesync.c\<close>, \<open>timesync.cgi.c\<close>): mode table, serial
    write, chronyc parsing, status document.  \<open>LogView\<close> (\<open>log.cgi.c\<close>): sources, tail window, ring of lines.
  \<^item> \<open>Shell\<close>: what the two scripts below use of the shell, \<open>sed\<close>, \<open>grep\<close> and \<open>test\<close>.  \<open>Rollback\<close> (\<open>rollback_watchdog.sh\<close>): the
    watchdog over the snapshot that \<open>network.cgi\<close> writes and \<open>login.cgi\<close> confirms; an unconfirmed change is undone with
    the exact old values, a login keeps it.  \<open>AclHelper\<close> (\<open>chrony_acl_apply.sh\<close>): the rule helper behind the NTP page; what
    it reports is what the page then loads.
  \<^item> \<open>Nmea\<close>, \<open>PpsLog\<close>, \<open>PpsTod\<close> (\<open>pps_tod.c\<close>): sentences and calendar; day files, summary, retention; pairing, gate,
    clock steps, shared memory, status file, both threads, options and start.  A stretch of code that holds the
    pairing mutex is one step, the coarse step two with sentences in between, the status frame is taken as one; a thread
    asking for a held mutex has the result \<open>None\<close>.  A clock two or more seconds wrong is set, a right one left alone.
  \<^item> \<open>NicMon\<close>, \<open>NicReport\<close> (\<open>ntp_nic_monitor.c\<close>): interface and client tables, minute and second rings, capture
    loop, iptables counters, snapshot, options and main loop; the windows and the client table against
    the list of events, the packet filter, the snapshot as one JSON value.

  \<^bold>\<open>State and operations.\<close>  Structures are records and enumerations datatypes with the code's fields; a function of the
  code is a function of the same name, a long one is cut at its blocks.  Static variables are fields
  of a state record (\<open>monitor\<close>, the state of \<open>PpsTod\<close>, the world of the CGI programs), passed along.  Early returns and
  errors are values of option and sum types.  Counters and hashes are words of their width; times are integers.

  \<^bold>\<open>Bounds and fuel.\<close>  The only fuel is that of \<open>leading_ones\<close> (32 steps, proved enough: a mask has 32 bits).  Loops
  over finite data recurse on it; the serial and capture loops, which need not end, are a step per input and a partial
  function, for which returning is characterised exactly.  The buffer sizes of the code appear as they are: 640 bytes
  of status text, 255 bytes of a line, 512 files of retention, 1441 samples, 64 rules, 1024 client slots, rings of
  1440 minutes and 120 seconds, 128 KiB of snapshot.

  \<^bold>\<open>Parameters.\<close>  The environment, the request body, clock and random readings, which database statements fail, the answers
  of nmcli, chronyc, systemctl, iptables and (in \<open>Ntpmon\<close>) the rule helper, the last login in the authentication log,
  the serial device, local time, file attributes, interface numbers, received packets, the order \<open>qsort\<close> gives
  equal elements, and for the start of the time daemon whether the log opens, shared memory attaches and what \<open>fork\<close>
  returns.

  \<^bold>\<open>Not modelled.\<close>  The SQLite amalgamation (vendored; only the statements used, by their effect); opening and configuring devices,
  sockets, terminals and daemonising; the mutexes of the log and of its counters, which are only ever taken innermost;
  creation of the status directory; the text of log messages with floating-point
  numbers (they are constructors with the logged values); failing \<open>malloc\<close> and failing reads of open pipes; the browser
  front end, the other shell scripts, deployment and configuration files, and the test programs.  In a run of the site requests do
  not overlap: the one interleaving that breaks an invariant, two toggles between their statements, is the subject of \<open>Users.toggle_race\<close>.  Characters are bytes; the first
  day of 1970, when the code indexes the monitor's rings with a negative remainder, is outside the model.
\<close>

section \<open>From the time daemon to the status page\<close>

text \<open>Characters of the values the daemon writes.\<close>

definition value_char :: "char \<Rightarrow> bool" where
  "value_char c \<longleftrightarrow> c_isdigit c \<or> c_isupper c \<or> c = CHR ''-'' \<or> c = CHR '':'' \<or> c = CHR '' ''"

lemma value_char_plain:
  assumes "value_char c"
  shows "esc_common c = [c]" "c \<noteq> nl" "c \<noteq> CHR 0x0D" "code c \<noteq> 0"
proof -
  have k: "32 \<le> code c \<and> code c \<noteq> 34 \<and> code c \<noteq> 92"
    using assms by (auto simp: value_char_def c_isdigit_def c_isupper_def)
  then have "c \<noteq> CHR 0x22" "c \<noteq> bs" "c \<noteq> nl" "c \<noteq> CHR 0x0D" "\<not> code c < 32" "code c \<noteq> 0" by (auto simp: bs_def)
  then show "esc_common c = [c]" "c \<noteq> nl" "c \<noteq> CHR 0x0D" "code c \<noteq> 0" by (simp_all add: esc_common_def)
qed

lemma escape_value: "list_all value_char v \<Longrightarrow> j + length v + 4 \<le> mx \<Longrightarrow> escape_loop esc_common mx j v = v"
  by (induction v arbitrary: j) (simp_all add: value_char_plain(1))

definition plain_entry :: "string \<times> string \<Rightarrow> bool" where
  "plain_entry x \<longleftrightarrow> fst x \<noteq> [] \<and> list_all (\<lambda>c. c_isalnum c \<or> c = CHR ''_'') (fst x) \<and> list_all value_char (snd x)
     \<and> length (fst x) \<le> 20 \<and> length (snd x) \<le> 20"

lemma key_char: "c_isalnum c \<or> c = CHR ''_'' \<Longrightarrow> c \<noteq> CHR ''='' \<and> c \<noteq> nl \<and> code c \<noteq> 0"
  by (auto simp: c_isalnum_def c_isdigit_def c_isupper_def c_islower_def)

lemma not_in_set: "list_all P xs \<Longrightarrow> (\<And>c. P c \<Longrightarrow> c \<noteq> d) \<Longrightarrow> d \<notin> set xs"
  by (induction xs) auto

lemma strip_eol_value: "list_all value_char v \<Longrightarrow> strip_eol (v @ [nl]) = v"
proof -
  assume v: "list_all value_char v"
  have "dropWhile (\<lambda>c. c = nl \<or> c = CHR 0x0D) (rev v) = rev v"
  proof (cases "v = []")
    case False
    then have "value_char (hd (rev v))" using v by (simp add: list_all_iff hd_rev)
    with value_char_plain(2,3) show ?thesis unfolding dropWhile_eq_self_iff by blast
  qed simp
  then show ?thesis by (simp add: strip_eol_def)
qed

lemma kv_line_kv:
  assumes "plain_entry (k, v)"
  shows "kv_line (kv k v) = Some ('',\"'' @ k @ ''\":\"'' @ v @ ''\"'')"
proof -
  note p = assms [unfolded plain_entry_def fst_conv snd_conv]
  have nk: "CHR ''='' \<notin> set k" by (rule not_in_set [of "\<lambda>c. c_isalnum c \<or> c = CHR ''_''"]) (use p key_char in blast)+
  have kz: "list_all (\<lambda>c. code c \<noteq> (0 :: nat)) k" by (rule list_all_weaken [of "\<lambda>c. c_isalnum c \<or> c = CHR ''_''"]) (use p key_char in blast)+
  have vz: "list_all (\<lambda>c. code c \<noteq> (0 :: nat)) v" by (rule list_all_weaken [of value_char]) (use p value_char_plain(4) in blast)+
  have "list_all (\<lambda>c. code c \<noteq> (0 :: nat)) (kv k v)" using kz vz by (simp add: kv_def)
  then have "code c \<noteq> (0 :: nat)" if "c \<in> set (kv k v)" for c using that by (simp add: list_all_iff)
  then have c: "cstr (kv k v) = k @ CHR ''='' # v @ [nl]" by (subst cstr_id) (simp_all add: kv_def)
  have e: "json_escape v 256 = v" unfolding json_escape_def by (rule escape_value) (use p in simp_all)
  show ?thesis
    unfolding kv_line_def c Let_def after_chr_stop [OF nk] before_chr_stop [OF nk] option.case
    using p e by (simp add: strip_eol_value)
qed

lemma dec_int_value: "list_all value_char (dec_int i)"
  using dec_nat_digits by (auto simp: list_all_iff dec_int_def value_char_def)

lemma fmt_0d_value: "list_all value_char (fmt_0d k i)"
  using dec_nat_digits by (auto simp: list_all_iff fmt_0d_def pad0_def value_char_def c_isdigit_def)

lemma plain_entries:
  assumes "list_all (\<lambda>k. k \<noteq> [] \<and> list_all (\<lambda>c. c_isalnum c \<or> c = CHR ''_'') k \<and> length k \<le> 20) (map fst es)"
    and "list_all (\<lambda>v. list_all value_char v \<and> length v \<le> 20) (map snd es)"
  shows "list_all plain_entry es"
  using assms by (induction es) (simp_all add: plain_entry_def)

lemma la_cons: "P x \<Longrightarrow> list_all P xs \<Longrightarrow> list_all P (x # xs)" and la_nil: "list_all P []"
  by simp_all

definition status_keys :: "string list" where
  "status_keys = [''ts'', ''good'', ''last_good_age_s'', ''offset_us'', ''anchor_fresh'', ''sec_gated'', ''sec_noedge'', ''sec_noanchor'',
     ''sec_badtod'', ''rt_vs_mono_us'', ''anchor_seq'', ''consec_gated'', ''forced_resets'', ''reset_state'', ''fix'', ''sats'', ''sats_age_s'',
     ''sats_gps'', ''sats_bds'', ''sats_glo'', ''sats_gal'', ''sats_qzss'', ''sats_sbas'']"

lemma status_entries_plain:
  assumes "status_range t now_m diag st"
  shows "list_all plain_entry (status_head t now_m diag fresh st @ status_sats now_m st)"
proof (rule plain_entries)
  have "map fst (status_head t now_m diag fresh st @ status_sats now_m st) = status_keys"
    unfolding status_head_def status_sats_def status_keys_def Let_def by (simp only: append.simps list.map fst_conv)
  moreover have "list_all (\<lambda>k. k \<noteq> [] \<and> list_all (\<lambda>c. c_isalnum c \<or> c = CHR ''_'') k \<and> length k \<le> 20) status_keys" by code_simp
  ultimately show "list_all (\<lambda>k. k \<noteq> [] \<and> list_all (\<lambda>c. c_isalnum c \<or> c = CHR ''_'') k \<and> length k \<le> 20)
      (map fst (status_head t now_m diag fresh st @ status_sats now_m st))" by (simp only:)
next
  note r = assms [unfolded status_range_def tm_digits_def]
  have w32: "length (dec_int x) \<le> 20" if "i32 x" for x using dec_int_length32 [OF that] by simp
  have one: "length (dec_int (if b then 1 else 0)) \<le> 20" for b by (simp add: dec_int_def dec_nat.simps)
  have k: "i32 (sats_of now_m k st)" for k using r by (simp add: sats_of_def i32_def)
  have i: "i32 (sec_gated st)" "i32 (sec_noedge st)" "i32 (sec_noanchor st)" "i32 (sec_badtod st)" "i32 (anchor_seq st)" "i32 (strike st)"
    "i32 (forced_resets st)" "i32 (g_rx_fix (rx st))" "i32 (g_rx_sats (rx st))" "i64 (age_s now_m (last_sample_mono st))"
    "i64 (last_off_us st)" "i64 diag" "i64 (age_s now_m (g_gga_mono (rx st)))" using r by blast+
  have ts: "length (fmt_0d 4 (tm_year t + 1900)) = 4" "length (fmt_0d 2 (tm_mon t + 1)) = 2" "length (fmt_0d 2 (tm_mday t)) = 2"
    "length (fmt_0d 2 (tm_hour t)) = 2" "length (fmt_0d 2 (tm_min t)) = 2" "length (fmt_0d 2 (tm_sec t)) = 2"
    using r by (auto intro!: fmt_0d_length)
  have s: "list_all value_char '' ''" "list_all value_char ''-''" "list_all value_char '':''" "list_all value_char ''CAPPED''" "list_all value_char ''OK''"
    by (simp_all add: value_char_def c_isupper_def)
  have date: "list_all value_char (fmt_0d 4 (tm_year t + 1900) @ ''-'' @ fmt_0d 2 (tm_mon t + 1) @ ''-'' @ fmt_0d 2 (tm_mday t) @ '' ''
        @ fmt_0d 2 (tm_hour t) @ '':'' @ fmt_0d 2 (tm_min t) @ '':'' @ fmt_0d 2 (tm_sec t))"
    unfolding list_all_append using s fmt_0d_value by blast
  have dlen: "length (fmt_0d 4 (tm_year t + 1900) @ ''-'' @ fmt_0d 2 (tm_mon t + 1) @ ''-'' @ fmt_0d 2 (tm_mday t) @ '' ''
        @ fmt_0d 2 (tm_hour t) @ '':'' @ fmt_0d 2 (tm_min t) @ '':'' @ fmt_0d 2 (tm_sec t)) \<le> 20" using ts by simp
  have state: "list_all value_char (if b then ''CAPPED'' else ''OK'')" "length (if b then ''CAPPED'' else ''OK'') \<le> 20" for b using s by simp_all
  show "list_all (\<lambda>v. list_all value_char v \<and> length v \<le> 20) (map snd (status_head t now_m diag fresh st @ status_sats now_m st))"
    unfolding map_append list_all_append status_head_def status_sats_def Let_def list.map snd_conv
    by (intro conjI la_cons la_nil dec_int_value date dlen state one w32 dec_int_length64 i k)
qed

text \<open>C25: from the daemon to the page.  What the status page shows for the time daemon is what the
  daemon's last frame held: for values in their ranges the page's members are exactly the keys and
  values of the frame, in order, none lost, cut or altered by the file between them.\<close>

theorem status_page_shows_frame:
  assumes "status_range t now_m diag st"
  shows "emit_kv_file (status_text (status_head t now_m diag fresh st) (status_sats now_m st))
    = map (\<lambda>(k, v). '',\"'' @ k @ ''\":\"'' @ v @ ''\"'') (status_head t now_m diag fresh st @ status_sats now_m st)"
proof -
  define es where "es = status_head t now_m diag fresh st @ status_sats now_m st"
  have p: "list_all plain_entry es" unfolding es_def by (rule status_entries_plain [OF assms])
  have "fgets_lines 256 (concat (map (\<lambda>(k, v). kv k v) es)) = map (\<lambda>(k, v). kv k v) es"
  proof (rule fgets_lines_concat)
    fix l assume "l \<in> set (map (\<lambda>(k, v). kv k v) es)"
    then obtain k v where l: "l = kv k v" "plain_entry (k, v)" using p by (auto simp: list_all_iff)
    note q = l(2) [unfolded plain_entry_def fst_conv snd_conv]
    have "nl \<notin> set k" by (rule not_in_set [of "\<lambda>c. c_isalnum c \<or> c = CHR ''_''"]) (use q key_char in blast)+
    moreover have "nl \<notin> set v" by (rule not_in_set [of value_char]) (use q value_char_plain(2) in blast)+
    moreover have "length (kv k v) < 256" using q by simp
    ultimately show "\<exists>u. l = u @ [nl] \<and> nl \<notin> set u \<and> length l < 256" using l by (intro exI [of _ "k @ ''='' @ v"]) (simp add: kv_def)
  qed
  moreover have "List.map_filter kv_line (map (\<lambda>(k, v). kv k v) es) = map (\<lambda>(k, v). '',\"'' @ k @ ''\":\"'' @ v @ ''\"'') es"
    using p by (induction es) (auto simp: List.map_filter_def kv_line_kv)
  ultimately show ?thesis
    unfolding emit_kv_file_def status_text_whole [OF assms] option.case es_def by simp
qed

theorem status_page_shows_frame_witness:
  "emit_kv_file (status_text (status_head (sample_tm 0) 1000200000000 0 False run_start) (status_sats 1000200000000 run_start))
    = map (\<lambda>(k, v). '',\"'' @ k @ ''\":\"'' @ v @ ''\"'')
        (status_head (sample_tm 0) 1000200000000 0 False run_start @ status_sats 1000200000000 run_start)"
  by (rule status_page_shows_frame)
    (simp add: status_range_def tm_digits_def sample_tm_def run_start_def pps_init_def rx_init_def age_s_def i32_def i64_def)

section \<open>From the service monitor to the statistics page\<close>

lemma json_body_nul: "json_body s \<Longrightarrow> c \<in> set s \<Longrightarrow> code c \<noteq> 0"
  by (induction s rule: json_body.induct) (auto simp: bs_def split: if_splits list.splits)

lemma comma_join_set: "c \<in> set (comma_join xs) \<Longrightarrow> c = CHR '','' \<or> (\<exists>x\<in>set xs. c \<in> set x)"
  by (induction xs rule: comma_join.induct) auto

lemma dec_nat_nul: "c \<in> set (dec_nat n) \<Longrightarrow> code c \<noteq> 0"
  using dec_nat_digits [of c n] by (auto simp: c_isdigit_def)

lemma print_json_nul: "json_ok v \<Longrightarrow> c \<in> set (print_json v) \<Longrightarrow> code c \<noteq> 0"
proof (induction v)
  case (JInt i)
  then show ?case using dec_nat_nul [of c "nat i"] dec_nat_nul [of c "nat (- i)"] by (cases "i < 0") (auto simp: dec_int_def)
next
  case (JArr xs)
  then show ?case using comma_join_set [of c "map print_json xs"] by (auto simp: list_all_iff)
next
  case (JObj kvs)
  from JObj.prems have "c \<in> {CHR ''{'', CHR ''}'', CHR '',''} \<or> (\<exists>kv\<in>set kvs. c \<in> set (json_member (fst kv, print_json (snd kv))))"
    using comma_join_set [of c "map json_member (map (map_prod id print_json) kvs)"] by fastforce
  then show ?case
  proof
    assume "\<exists>kv\<in>set kvs. c \<in> set (json_member (fst kv, print_json (snd kv)))"
    then obtain k v where kv: "(k, v) \<in> set kvs" "c \<in> set (json_member (k, print_json v))" by auto
    with JObj.prems have "json_body k" "json_ok v" by (auto simp: list_all_iff)
    with JObj.IH [of "(k, v)" v] kv json_body_nul [of k c] show ?thesis by (auto simp: json_member_def)
  qed auto
next
  case (JStr x)
  then show ?case using json_body_nul [of x c] by auto
qed (auto simp: json_bool_def split: if_splits)

lemma strtol10_dec_nat: "n < 2 ^ 63 \<Longrightarrow> strtol10 (dec_nat n @ CHR '','' # r) = int n"
proof -
  assume n: "n < 2 ^ 63"
  obtain d ds where d: "dec_nat n = d # ds" using dec_nat_nonempty [of n] by (cases "dec_nat n") blast+
  have "c_isdigit d" using dec_nat_digits [of d n] d by simp
  then have d': "\<not> c_isspace d" "d \<noteq> CHR ''-''" "d \<noteq> CHR ''+''" by (auto simp: c_isdigit_def c_isspace_def)
  have "takeWhile c_isdigit (dec_nat n @ CHR '','' # r) = dec_nat n"
    using dec_nat_digits by (intro takeWhile_append_stop) (auto simp: c_isdigit_def)
  then have "takeWhile c_isdigit (d # ds @ CHR '','' # r) = dec_nat n" by (simp only: d append_Cons)
  moreover have "dropWhile c_isspace (d # ds @ CHR '','' # r) = d # ds @ CHR '','' # r" "split_sign (d # ds @ CHR '','' # r) = (False, d # ds @ CHR '','' # r)"
    using d' by (simp_all add: split_sign_def)
  ultimately have "strtol10 (d # ds @ CHR '','' # r) = int n" using n unfolding strtol10_def by (simp only: Let_def prod.case if_False dec_val_dec_nat) simp
  then show ?thesis by (simp only: d append_Cons)
qed

text \<open>C26: what the service monitor writes is what the statistics page shows.  When the snapshot file holds the
  text \<open>write_json\<close> wrote at time \<open>t\<close> (a positive time, interface names that need no escaping, less than
  128 KiB), \<open>nic_json_append\<close> puts into the statistics document exactly the member \<open>nic\<close> whose
  value is the monitor's JSON object with the status and the age of the snapshot in front, well-formed.\<close>

theorem stats_page_shows_snapshot:
  assumes "files (env_path e ''NTPMON_NIC_FILE'' ''/var/db/ntp_nic.json'') = Some (json_text qsort ipt t st)"
    "length (json_text qsort ipt t st) < 131071" "0 < t" "t < 2 ^ 63" "list_all (\<lambda>ns. json_body (ns_name ns)) (g_nics st)"
  shows "\<exists>ms. monitor_json qsort ipt t st = JObj ms
    \<and> json_ok (JObj ((''ok'', JBool True) # (''age_s'', JInt (time_now e - t)) # ms))
    \<and> concat (nic_pieces e files) = json_member (''nic'', print_json (JObj ((''ok'', JBool True) # (''age_s'', JInt (time_now e - t)) # ms))) @ '',''"
proof -
  let ?text = "json_text qsort ipt t st"
  obtain ms where ms: "monitor_json qsort ipt t st = JObj ((''ts'', JInt t) # ms)" "ms \<noteq> []" by (simp add: monitor_json_def Let_def)
  let ?ms = "(''ts'', JInt t) # ms"
  have tx: "?text = print_json (JObj ?ms)" unfolding ms(1) [symmetric] by (rule snapshot_document_facts(1))
  have ok: "json_ok (JObj ?ms)" unfolding ms(1) [symmetric] by (rule snapshot_document_facts(2) [OF assms(5)])
  have "cstr ?text = ?text" by (rule cstr_id) (use print_json_nul [OF ok] tx in simp)
  moreover have "take 131071 ?text = ?text" using assms(2) by simp
  moreover obtain body where body: "?text = CHR ''{'' # body" "body = comma_join (members_text ?ms) @ ''}''" using tx unfolding members_obj by simp
  moreover obtain r where "body = ''\"ts\":'' @ dec_nat (nat t) @ CHR '','' # r"
    using body(2) ms(2) assms(3) by (cases ms) (auto simp: json_member_def dec_int_def)
  then have "strstr ''\"ts\":'' (CHR ''{'' # body) = Some (''\"ts\":'' @ dec_nat (nat t) @ CHR '','' # r)" by (simp add: has_prefix_def)
  moreover have "strtol10 (dec_nat (nat t) @ CHR '','' # r) = t" using strtol10_dec_nat [of "nat t" r] assms(3,4) by simp
  ultimately have "nic_pieces e files = [''\"nic\":{\"ok\":true,\"age_s\":'' @ dec_int (time_now e - t) @ '','', body, '','']"
    using assms(1,2,3) by (simp add: nic_pieces_def Let_def after_chr_def)
  then have "concat (nic_pieces e files) = json_member (''nic'', print_json (JObj ((''ok'', JBool True) # (''age_s'', JInt (time_now e - t)) # ?ms))) @ '',''"
    unfolding body(2) members_obj by (simp add: json_member_def json_bool_def)
  moreover have "json_ok (JObj ((''ok'', JBool True) # (''age_s'', JInt (time_now e - t)) # ?ms))" using ok unfolding members_obj by (simp add: bs_def)
  ultimately show ?thesis using ms(1) by blast
qed

text \<open>A state for which the hypotheses hold: one interface just added.\<close>

definition fresh_nic :: NicStat where "fresh_nic = nic_init ''eth0'' 2 28333333"

definition fresh_monitor :: monitor where "fresh_monitor = mon_init\<lparr>g_nics := [fresh_nic]\<rparr>"

lemma comma_join_length: "(\<And>x. x \<in> set xs \<Longrightarrow> length x \<le> k) \<Longrightarrow> length (comma_join xs) \<le> (k + 1) * length xs"
  by (induction xs rule: comma_join.induct) (simp_all, fastforce)

lemma fresh_sums: "bucket_sum (ns_bucket fresh_nic) (ns_bucket_min fresh_nic) m k = 0" "bucket_sum (ns_vbucket fresh_nic) (ns_bucket_min fresh_nic) m k = 0"
  "bucket_sum (ns_rbucket fresh_nic) (ns_bucket_min fresh_nic) m k = 0" if "k \<le> 1440"
  using that by (simp_all add: bucket_sum_total fresh_nic_def nic_init_ok)

lemma some_digits: "dec_nat 0 = ''0''" "length (dec_nat 2) = 1" "length (dec_nat 60) = 2" "length (dec_nat 3600) = 4"
  "length (dec_nat 18000) = 5" "length (dec_nat 86400) = 5" "length (dec_nat 1700000000) = 10" "length (dec_nat 1699999881) = 10"
  by (simp_all add: dec_nat.simps)

lemma fresh_length: "length (nic_text now fresh_nic) < 10000"
proof -
  have z: "length (comma_join (map (\<lambda>t. dec_u (0 :: u32)) [a..b])) \<le> 2 * nat (b - a + 1)" for a b
  proof -
    have "length (comma_join (map (\<lambda>t. dec_u (0 :: u32)) [a..b])) \<le> (1 + 1) * length (map (\<lambda>t. dec_u (0 :: u32)) [a..b])"
      by (rule comma_join_length) (auto simp: dec_u_def some_digits)
    then show ?thesis by simp
  qed
  have r: "ring_get 1440 (ns_bucket fresh_nic) k t = 0" "ring_get 1440 (ns_vbucket fresh_nic) k t = 0" "ring_get 1440 (ns_rbucket fresh_nic) k t = 0" "sec_get fresh_nic t = 0" for k t
    by (simp_all add: fresh_nic_def nic_init_ok)
  have f: "ns_name fresh_nic = ''eth0''" "ns_ifindex fresh_nic = 2" "ns_req fresh_nic = 0" "ns_valid fresh_nic = 0" "ns_rsp fresh_nic = 0"
    by (simp_all add: fresh_nic_def nic_init_def snprintf_s_def)
  show ?thesis using z [of "now div 60 - 59" "now div 60"] z [of "now - 119" now]
    by (simp add: nic_text_def Let_def g_windows_def window_item_def fresh_sums ring_tail_map sec_tail_map r f dec_u_def dec_int_def some_digits)
qed

theorem stats_page_shows_snapshot_witness:
  "\<exists>ms. monitor_json req_sort True 1700000000 fresh_monitor = JObj ms
    \<and> concat (nic_pieces (sample_env\<lparr>time_now := 1700000007\<rparr>) (\<lambda>p. Some (json_text req_sort True 1700000000 fresh_monitor)))
     = json_member (''nic'', print_json (JObj ((''ok'', JBool True) # (''age_s'', JInt 7) # ms))) @ '',''"
proof -
  have len: "length (json_text req_sort True 1700000000 fresh_monitor) < 131071"
    using fresh_length [of 1700000000] by (simp add: json_text_def fresh_monitor_def mon_init_def client_none_def sorted_clients_def Let_def clients_text_def
      top_clients_take dec_int_def some_digits nic_init_def fresh_nic_def snprintf_s_def)
  have names: "list_all (\<lambda>ns. json_body (ns_name ns)) (g_nics fresh_monitor)"
    by (simp add: fresh_monitor_def fresh_nic_def nic_init_def snprintf_s_def bs_def)
  have age: "time_now (sample_env\<lparr>time_now := 1700000007\<rparr>) - 1700000000 = 7" by simp
  have t: "(0 :: int) < 1700000000" "(1700000000 :: int) < 2 ^ 63" by simp_all
  from stats_page_shows_snapshot [of "\<lambda>p. Some (json_text req_sort True 1700000000 fresh_monitor)" "sample_env\<lparr>time_now := 1700000007\<rparr>", OF refl len t names]
  show ?thesis unfolding age by blast
qed

end
